(* ===== verification/Py_Prelude.thy ===== *)
theory Py_Prelude
  imports Main "HOL-Library.AList" "HOL-Library.Char_ord" "HOL-Library.List_Lexorder"
    "HOL-Library.Product_Lexorder" "HOL-Library.Multiset"
begin

text \<open>
  What the components share: Python's exceptions as a datatype and fallible computations as a
  sum, the operations on \<open>str\<close>, \<open>list\<close>, \<open>dict\<close> and \<open>set\<close> the source uses, and
  the generic lemmas about them.

  A Python \<open>str\<close> is a \<^typ>\<open>string\<close>: a list of code points below 256, ordered by code
  point as Python orders strings (\<^verbatim>\<open>HOL-Library.List_Lexorder\<close>). Tuples are ordered
  lexicographically (\<^verbatim>\<open>HOL-Library.Product_Lexorder\<close>). A \<open>dict\<close> whose iteration
  order matters is an association list, updated by \<^const>\<open>AList.update\<close>, which overwrites
  a key in place and appends a new one, as Python does. The order in which CPython iterates
  over a \<open>set\<close> is not specified by the language: it is a parameter (\<open>set_iter\<close>) of the
  definitions that depend on it, under the law stated in the locale \<open>py_set_iteration\<close>.

  An exception carries the text of its message as the source writes it, without quotes around
  a formatted value; the values formatted into a message are not modelled unless a definition
  says so.
\<close>

section \<open>Exceptions and fallible computations\<close>

datatype pyexc =
    ValueError string
  | TypeError string
  | KeyError string
  | IndexError string
  | AttributeError string
  | AssertionError string
  | StopIteration
  | SyntaxError string
  | RuntimeError string
  | OverflowError string
  | UnboundLocalError string
  | OSError string
  | PlainException string
  | PublicError string string

text \<open>
  \<open>PlainException\<close> is a bare \<open>Exception\<close>; \<open>PublicError c m\<close> is the error class \<open>c\<close> of
  \<^verbatim>\<open>src/ipalib/errors.py\<close> raised with the text \<open>m\<close>.
\<close>

type_synonym 'a res = "pyexc + 'a"

named_theorems res_defs \<open>definitions of the combinators on fallible results\<close>

definition rbind :: "'e + 'a \<Rightarrow> ('a \<Rightarrow> 'e + 'b) \<Rightarrow> 'e + 'b" where
  [res_defs]: "rbind m f = (case m of Inl e \<Rightarrow> Inl e | Inr x \<Rightarrow> f x)"

lemma rbind_simps [simp]:
  "rbind (Inl e) f = Inl e"
  "rbind (Inr x) f = f x"
  by (simp_all add: rbind_def)

lemma rbind_eq_Inr [simp]: "rbind m f = Inr y \<longleftrightarrow> (\<exists>x. m = Inr x \<and> f x = Inr y)"
  by (cases m) simp_all

lemma rbind_eq_Inl: "rbind m f = Inl e \<longleftrightarrow> m = Inl e \<or> (\<exists>x. m = Inr x \<and> f x = Inl e)"
  by (cases m) simp_all

lemma rbind_cong [fundef_cong]:
  "m = m' \<Longrightarrow> (\<And>x. m' = Inr x \<Longrightarrow> f x = f' x) \<Longrightarrow> rbind m f = rbind m' f'"
  by (cases m') simp_all

text \<open>Mapping a fallible function over a list stops at the first exception, as a loop does.\<close>

fun rmap :: "('a \<Rightarrow> 'e + 'b) \<Rightarrow> 'a list \<Rightarrow> 'e + 'b list" where
  "rmap f [] = Inr []"
| "rmap f (x # xs) = rbind (f x) (\<lambda>y. rbind (rmap f xs) (\<lambda>ys. Inr (y # ys)))"

lemma rmap_Inr_iff: "rmap f xs = Inr ys \<longleftrightarrow> list_all2 (\<lambda>x y. f x = Inr y) xs ys"
  by (induction xs arbitrary: ys) (auto simp: list_all2_Cons1)

lemma rmap_Inr_in_set: "rmap f xs = Inr ys \<Longrightarrow> y \<in> set ys \<Longrightarrow> \<exists>x \<in> set xs. f x = Inr y"
  by (induction xs arbitrary: ys) auto

lemma rmap_total: "(\<And>x. x \<in> set xs \<Longrightarrow> f x = Inr (g x)) \<Longrightarrow> rmap f xs = Inr (map g xs)"
  by (induction xs) simp_all

lemma rmap_cong [fundef_cong]:
  "xs = ys \<Longrightarrow> (\<And>x. x \<in> set ys \<Longrightarrow> f x = g x) \<Longrightarrow> rmap f xs = rmap g ys"
  by (induction ys arbitrary: xs) simp_all

text \<open>
  A computation that may also fail to return: \<open>None\<close> is a run that does not end,
  \<open>Some (Inl e)\<close> one that raises.
\<close>

type_synonym 'a comp = "'a res option"

definition cbind :: "('e + 'a) option \<Rightarrow> ('a \<Rightarrow> ('e + 'b) option) \<Rightarrow> ('e + 'b) option" where
  [res_defs]: "cbind m f =
     (case m of None \<Rightarrow> None | Some (Inl e) \<Rightarrow> Some (Inl e) | Some (Inr x) \<Rightarrow> f x)"

lemma cbind_simps [simp]:
  "cbind None f = None"
  "cbind (Some (Inl e)) f = Some (Inl e)"
  "cbind (Some (Inr x)) f = f x"
  by (simp_all add: cbind_def)

section \<open>Strings\<close>

text \<open>\<open>str.lower\<close> on the code points below 256: the letters of ASCII and of Latin-1.\<close>

definition lower_char :: "char \<Rightarrow> char" where
  "lower_char c =
     (let n = (of_char c :: nat) in
      if (65 \<le> n \<and> n \<le> 90) \<or> (192 \<le> n \<and> n \<le> 222 \<and> n \<noteq> 215) then char_of (n + 32) else c)"

definition py_lower :: "string \<Rightarrow> string" where
  "py_lower s = map lower_char s"

lemma of_lower_char:
  "(of_char (lower_char c) :: nat) =
     (let n = (of_char c :: nat) in
      if (65 \<le> n \<and> n \<le> 90) \<or> (192 \<le> n \<and> n \<le> 222 \<and> n \<noteq> 215) then n + 32 else n)"
  by (auto simp: lower_char_def Let_def)

lemma lower_char_idem [simp]: "lower_char (lower_char c) = lower_char c"
  by (subst lower_char_def) (auto simp: of_lower_char Let_def)

lemma py_lower_simps [simp]:
  "py_lower [] = []"
  "py_lower (c # s) = lower_char c # py_lower s"
  "py_lower (s @ t) = py_lower s @ py_lower t"
  "py_lower (py_lower s) = py_lower s"
  "length (py_lower s) = length s"
  by (simp_all add: py_lower_def)

text \<open>\<open>sep.join(parts)\<close>.\<close>

fun py_join :: "string \<Rightarrow> string list \<Rightarrow> string" where
  "py_join sep [] = []"
| "py_join sep [x] = x"
| "py_join sep (x # y # ys) = x @ sep @ py_join sep (y # ys)"

lemma py_lower_join: "py_lower (py_join sep xs) = py_join (py_lower sep) (map py_lower xs)"
  by (induction sep xs rule: py_join.induct) simp_all

text \<open>\<open>s.split(c)\<close> for a one-character separator.\<close>

fun py_split :: "char \<Rightarrow> string \<Rightarrow> string list" where
  "py_split c [] = [[]]"
| "py_split c (x # xs) =
     (if x = c then [] # py_split c xs
      else (case py_split c xs of [] \<Rightarrow> [[x]] | p # ps \<Rightarrow> (x # p) # ps))"

lemma py_split_nonempty [simp]: "py_split c s \<noteq> []"
  by (cases s) (auto split: list.splits)

lemma py_join_Cons_nonempty: "ps \<noteq> [] \<Longrightarrow> py_join sep (p # ps) = p @ sep @ py_join sep ps"
  by (cases ps) simp_all

lemma py_join_split [simp]: "py_join [c] (py_split c s) = s"
proof (induction s)
  case (Cons x xs)
  obtain p ps where ps: "py_split c xs = p # ps"
    by (cases "py_split c xs") auto
  with Cons show ?case
    by (cases ps) (auto simp: py_join_Cons_nonempty)
qed simp

lemma py_split_no_sep: "c \<notin> set s \<Longrightarrow> py_split c s = [s]"
  by (induction s) auto

lemma py_split_append: "c \<notin> set p \<Longrightarrow> py_split c (p @ c # s) = p # py_split c s"
  by (induction p) auto

lemma py_split_join:
  "ps \<noteq> [] \<Longrightarrow> (\<And>p. p \<in> set ps \<Longrightarrow> c \<notin> set p) \<Longrightarrow> py_split c (py_join [c] ps) = ps"
proof (induction ps)
  case (Cons p ps)
  show ?case
  proof (cases "ps = []")
    case True
    with Cons.prems show ?thesis by (simp add: py_split_no_sep)
  next
    case False
    with Cons show ?thesis by (simp add: py_join_Cons_nonempty py_split_append)
  qed
qed simp

text \<open>\<open>s.replace(old, new)\<close>: the leftmost occurrences that do not overlap.\<close>

function py_replace_from :: "string \<Rightarrow> string \<Rightarrow> string \<Rightarrow> string" where
  "py_replace_from old new s =
     (if s = [] then []
      else if old \<noteq> [] \<and> take (length old) s = old
      then new @ py_replace_from old new (drop (length old) s)
      else hd s # py_replace_from old new (tl s))"
  by pat_completeness auto
termination
  by (relation "measure (\<lambda>(old, new, s). length s)") auto

declare py_replace_from.simps [simp del]

definition py_replace :: "string \<Rightarrow> string \<Rightarrow> string \<Rightarrow> string" where
  "py_replace old new s =
     (if old = [] then concat (map (\<lambda>c. new @ [c]) s) @ new else py_replace_from old new s)"

lemma py_replace_from_simps [simp]:
  "py_replace_from old new [] = []"
  "take (length old) (c # s) \<noteq> old \<Longrightarrow> py_replace_from old new (c # s) = c # py_replace_from old new s"
  "old \<noteq> [] \<Longrightarrow> py_replace_from old new (old @ s) = new @ py_replace_from old new s"
  by (subst py_replace_from.simps, simp)+

lemma py_replace_char:
  "py_replace [c] new s = concat (map (\<lambda>x. if x = c then new else [x]) s)"
proof -
  have "py_replace_from [c] new s = concat (map (\<lambda>x. if x = c then new else [x]) s)"
  proof (induction s)
    case (Cons x xs)
    then show ?case using py_replace_from_simps(3) [of "[c]" new xs] by auto
  qed simp
  then show ?thesis by (simp add: py_replace_def)
qed

text \<open>\<open>s.replace(old, new, 1)\<close>.\<close>

fun py_replace_first :: "string \<Rightarrow> string \<Rightarrow> string \<Rightarrow> string" where
  "py_replace_first old new [] = (if old = [] then new else [])"
| "py_replace_first old new (c # s) =
     (if take (length old) (c # s) = old then new @ drop (length old) (c # s)
      else c # py_replace_first old new s)"

text \<open>\<open>s.strip()\<close>: white space below 256 is what \<open>str.isspace\<close> accepts there.\<close>

definition is_space :: "char \<Rightarrow> bool" where
  "is_space c \<longleftrightarrow>
     (let n = (of_char c :: nat) in
      (9 \<le> n \<and> n \<le> 13) \<or> (28 \<le> n \<and> n \<le> 32) \<or> n = 133 \<or> n = 160)"

definition py_strip :: "string \<Rightarrow> string" where
  "py_strip s = rev (dropWhile is_space (rev (dropWhile is_space s)))"

definition py_lstrip :: "string \<Rightarrow> string" where
  "py_lstrip s = dropWhile is_space s"

definition py_rstrip :: "string \<Rightarrow> string" where
  "py_rstrip s = rev (dropWhile is_space (rev s))"

lemma py_strip_lr: "py_strip s = py_rstrip (py_lstrip s)"
  by (simp add: py_strip_def py_rstrip_def py_lstrip_def)

definition is_prefix_of :: "string \<Rightarrow> string \<Rightarrow> bool" where
  "is_prefix_of p s \<longleftrightarrow> take (length p) s = p"

lemma dropWhile_rev_dropWhile_idem:
  "dropWhile P (rev (dropWhile P (rev (dropWhile P s)))) = rev (dropWhile P (rev (dropWhile P s)))"
proof (cases "dropWhile P s")
  case (Cons x xs)
  then have "\<not> P x" by (metis hd_dropWhile list.distinct(1) list.sel(1))
  then have "\<exists>ys. rev (dropWhile P (rev (x # xs))) = x # ys"
    by (auto simp: dropWhile_append split: if_splits intro: exI [of _ "rev (dropWhile P (rev xs))"])
  with Cons \<open>\<not> P x\<close> show ?thesis by auto
next
  case Nil
  then show ?thesis by (simp only: rev.simps dropWhile.simps)
qed

lemma py_strip_idem [simp]: "py_strip (py_strip s) = py_strip s"
  by (simp add: py_strip_def dropWhile_rev_dropWhile_idem)

definition is_suffix_of :: "string \<Rightarrow> string \<Rightarrow> bool" where
  "is_suffix_of p s \<longleftrightarrow> is_prefix_of (rev p) (rev s)"

text \<open>\<open>s.split(sep, 1)\<close>: the parts around the first occurrence of the separator, if there is one.\<close>

fun py_split1 :: "string \<Rightarrow> string \<Rightarrow> (string \<times> string) option" where
  "py_split1 sep [] = (if sep = [] then Some ([], []) else None)"
| "py_split1 sep (c # s) =
     (if is_prefix_of sep (c # s) then Some ([], drop (length sep) (c # s))
      else map_option (\<lambda>(a, b). (c # a, b)) (py_split1 sep s))"

lemma py_split1_char:
  "c \<notin> set pre \<Longrightarrow> py_split1 [c] (pre @ [c] @ post) = Some (pre, post)"
  by (induction pre) (auto simp: is_prefix_of_def)

text \<open>\<open>s.isdigit()\<close>: below code point 256 the superscripts count as digits too.\<close>

definition is_ascii_digit :: "char \<Rightarrow> bool" where
  "is_ascii_digit c \<longleftrightarrow> c \<in> set ''0123456789''"

definition isdigit :: "string \<Rightarrow> bool" where
  "isdigit s \<longleftrightarrow>
     s \<noteq> [] \<and> list_all (\<lambda>c. is_ascii_digit c \<or> of_char c \<in> {178, 179, 185 :: nat}) s"

text \<open>\<open>str(n)\<close> for an integer, and \<open>int(s)\<close> for a text of decimal digits.\<close>

definition digit_char :: "nat \<Rightarrow> char" where
  "digit_char n = char_of (n + 48)"

fun nat_to_dec :: "nat \<Rightarrow> string" where
  "nat_to_dec n = (if n < 10 then [digit_char n] else nat_to_dec (n div 10) @ [digit_char (n mod 10)])"

declare nat_to_dec.simps [simp del]

definition int_to_dec :: "int \<Rightarrow> string" where
  "int_to_dec i = (if i < 0 then CHR ''-'' # nat_to_dec (nat (- i)) else nat_to_dec (nat i))"

definition dec_to_int :: "string \<Rightarrow> int" where
  "dec_to_int s = foldl (\<lambda>acc c. acc * 10 + (int (of_char c) - 48)) 0 s"

lemma dec_to_int_nat_to_dec [simp]: "dec_to_int (nat_to_dec n) = int n"
proof (induction n rule: nat_to_dec.induct)
  case (1 n)
  have d: "(of_char (digit_char m) :: nat) = m + 48" if "m < 10" for m
    using that by (simp add: digit_char_def)
  show ?case
  proof (cases "n < 10")
    case True
    then show ?thesis by (subst nat_to_dec.simps) (simp add: dec_to_int_def d)
  next
    case False
    then have "dec_to_int (nat_to_dec n) = dec_to_int (nat_to_dec (n div 10)) * 10 + int (n mod 10)"
      by (subst nat_to_dec.simps) (simp add: dec_to_int_def d)
    moreover have "int (n div 10) * 10 + int (n mod 10) = int n"
      by (metis div_mult_mod_eq of_nat_add of_nat_mult of_nat_numeral)
    ultimately show ?thesis using 1 False by simp
  qed
qed

lemma is_ascii_digit_code: "is_ascii_digit c \<longleftrightarrow> 48 \<le> (of_char c :: nat) \<and> (of_char c :: nat) \<le> 57"
proof -
  have "''0123456789'' = map char_of [48 ..< 58 :: nat]" by code_simp
  then have "set ''0123456789'' = char_of ` {48 ..< 58 :: nat}"
    by (simp only: set_map set_upt)
  then have "is_ascii_digit c \<longleftrightarrow> c \<in> char_of ` {48 ..< 58 :: nat}"
    by (simp only: is_ascii_digit_def)
  also have "\<dots> \<longleftrightarrow> (of_char c :: nat) \<in> {48 ..< 58}"
  proof
    assume "(of_char c :: nat) \<in> {48 ..< 58}"
    then have "char_of (of_char c :: nat) \<in> char_of ` {48 ..< 58 :: nat}" by (rule imageI)
    then show "c \<in> char_of ` {48 ..< 58 :: nat}" by (simp only: char_of_char)
  next
    assume "c \<in> char_of ` {48 ..< 58 :: nat}"
    then obtain k :: nat where "c = char_of k" "48 \<le> k" "k < 58" by auto
    then show "(of_char c :: nat) \<in> {48 ..< 58}" by simp
  qed
  finally show ?thesis by auto
qed

lemma digit_char_all: "list_all (\<lambda>m. is_ascii_digit (digit_char m)) [0, 1, 2, 3, 4, 5, 6, 7, 8, 9]"
  by code_simp

lemma digit_char_ascii:
  assumes "m < 10"
  shows "is_ascii_digit (digit_char m)"
proof -
  have "m \<in> set [0, 1, 2, 3, 4, 5, 6, 7, 8, 9]" using assms by auto
  with digit_char_all show ?thesis unfolding list_all_iff by blast
qed

lemma nat_to_dec_digits: "nat_to_dec n \<noteq> [] \<and> list_all is_ascii_digit (nat_to_dec n)"
proof (induction n rule: nat_to_dec.induct)
  case (1 n)
  then show ?case by (subst (1 2) nat_to_dec.simps) (auto simp: digit_char_ascii)
qed

section \<open>Lists: indices and slices\<close>

lemma find_Some_in: "find P xs = Some x \<Longrightarrow> x \<in> set xs \<and> P x"
  by (induction xs) (auto split: if_splits)

text \<open>\<open>xs[i]\<close>: a negative index counts from the end, an index out of range raises.\<close>

definition py_nth :: "'a list \<Rightarrow> int \<Rightarrow> 'a res" where
  "py_nth xs i =
     (let n = int (length xs); j = (if i < 0 then i + n else i) in
      if 0 \<le> j \<and> j < n then Inr (xs ! nat j) else Inl (IndexError ''list index out of range''))"

text \<open>\<open>xs[i:j]\<close> with both bounds optional, as the slice protocol clips them.\<close>

definition clip_index :: "int \<Rightarrow> int \<Rightarrow> int" where
  "clip_index n i = (if i < 0 then max 0 (i + n) else min i n)"

definition py_slice :: "'a list \<Rightarrow> int option \<Rightarrow> int option \<Rightarrow> 'a list" where
  "py_slice xs i j =
     (let n = int (length xs);
          lo = (case i of None \<Rightarrow> 0 | Some i \<Rightarrow> clip_index n i);
          hi = (case j of None \<Rightarrow> n | Some j \<Rightarrow> clip_index n j)
      in take (nat (hi - lo)) (drop (nat lo) xs))"

lemma py_nth_nat [simp]: "i < length xs \<Longrightarrow> py_nth xs (int i) = Inr (xs ! i)"
  by (simp add: py_nth_def)

lemma py_slice_all [simp]: "py_slice xs None None = xs"
  by (simp add: py_slice_def)

section \<open>Dictionaries\<close>

lemma set_AList_update: "set (AList.update k v al) \<subseteq> insert (k, v) (set al)"
  by (induction al) auto

lemma map_fst_AList_update:
  "map fst (AList.update k v al) = (if k \<in> set (map fst al) then map fst al else map fst al @ [k])"
  by (induction al) auto

section \<open>Iteration over a set\<close>

text \<open>
  The law of iterating over a \<open>set\<close>: every element once, in some order. The components that
  iterate over sets take the order as a parameter; \<^const>\<open>sorted_list_of_set\<close> is one.
\<close>

definition set_iter_ok :: "('a set \<Rightarrow> 'a list) \<Rightarrow> bool" where
  "set_iter_ok it \<longleftrightarrow> (\<forall>S. finite S \<longrightarrow> set (it S) = S \<and> distinct (it S))"

locale py_set_iteration =
  fixes it :: "'a set \<Rightarrow> 'a list"
  assumes it_ok: "set_iter_ok it"
begin

lemma set_it [simp]: "finite S \<Longrightarrow> set (it S) = S"
  using it_ok by (simp add: set_iter_ok_def)

lemma distinct_it [simp]: "finite S \<Longrightarrow> distinct (it S)"
  using it_ok by (simp add: set_iter_ok_def)

lemma it_empty [simp]: "it {} = []"
  using set_it [OF finite.emptyI] by (simp only: set_empty)

lemma it_eq_Nil_iff [simp]: "finite S \<Longrightarrow> it S = [] \<longleftrightarrow> S = {}"
  using set_it [of S] by (metis set_empty)

end

lemmas set_iter_set = py_set_iteration.set_it [OF py_set_iteration.intro]
  and set_iter_distinct = py_set_iteration.distinct_it [OF py_set_iteration.intro]
  and set_iter_Nil_iff = py_set_iteration.it_eq_Nil_iff [OF py_set_iteration.intro]

lemma set_iter_ok_sorted: "set_iter_ok (sorted_list_of_set :: 'a::linorder set \<Rightarrow> 'a list)"
  by (simp add: set_iter_ok_def)

interpretation sorted_iter: py_set_iteration "sorted_list_of_set :: string set \<Rightarrow> string list"
  by unfold_locales (rule set_iter_ok_sorted)

end
