(* ===== verification/Py_Graph.thy ===== *)
theory Py_Graph
  imports Py_Prelude
begin

text \<open>
  The oriented graph of \<^verbatim>\<open>src/ipapython/graph.py\<close>: class \<open>Graph\<close> with its vertex set,
  edge list and adjacency dictionary, every method, and the breadth-first search.

  A method that mutates the graph returns its outcome together with the graph it leaves
  behind, because Python keeps the changes made before an exception. The invariant
  \<open>graph_ok\<close> ties the three fields together; the mutators keep it, \<open>add_vertex\<close> exactly
  when no edge starts at the vertex. \<open>bfs\<close> is a loop
  that need not end on an arbitrary heap, so it is a partial function; on a well-formed graph
  it returns, and what it returns is the set of vertices reachable from the start.
  The locale \<open>digraph\<close> is what the replication topology relies on.
\<close>

section \<open>State and operations\<close>

record graph =
  vertices :: "string set"
  edges :: "(string \<times> string) list"
  adj :: "string \<rightharpoonup> string list"

definition Graph_init :: graph where
  "Graph_init = \<lparr>vertices = {}, edges = [], adj = Map.empty\<rparr>"

definition add_vertex :: "graph \<Rightarrow> string \<Rightarrow> graph" where
  "add_vertex g v = g\<lparr>vertices := insert v (vertices g), adj := (adj g)(v \<mapsto> [])\<rparr>"

definition add_edge :: "graph \<Rightarrow> string \<Rightarrow> string \<Rightarrow> unit res \<times> graph" where
  "add_edge g t h =
     (if t \<notin> vertices g then (Inl (ValueError ''tail is not a vertex''), g)
      else if h \<notin> vertices g then (Inl (ValueError ''head is not a vertex''), g)
      else let g' = g\<lparr>edges := edges g @ [(t, h)]\<rparr> in
        (case adj g' t of
           None \<Rightarrow> (Inl (KeyError t), g')
         | Some hs \<Rightarrow> (Inr (), g'\<lparr>adj := (adj g')(t \<mapsto> hs @ [h])\<rparr>)))"

definition remove_edge :: "graph \<Rightarrow> string \<Rightarrow> string \<Rightarrow> unit res \<times> graph" where
  "remove_edge g t h =
     (if (t, h) \<notin> set (edges g)
      then (Inl (ValueError ''graph does not contain edge: ({0}, {1})''), g)
      else let g' = g\<lparr>edges := remove1 (t, h) (edges g)\<rparr> in
        (case adj g' t of
           None \<Rightarrow> (Inl (KeyError t), g')
         | Some hs \<Rightarrow>
             if h \<notin> set hs then (Inl (ValueError ''list.remove(x): x not in list''), g')
             else (Inr (), g'\<lparr>adj := (adj g')(t \<mapsto> remove1 h hs)\<rparr>)))"

definition remove_vertex :: "graph \<Rightarrow> string \<Rightarrow> unit res \<times> graph" where
  "remove_vertex g v =
     (if v \<notin> vertices g
      then (Inl (ValueError ''graph does not contain vertex: {0}''), g)
      else let g1 = g\<lparr>vertices := vertices g - {v}\<rparr> in
        (case adj g1 v of
           None \<Rightarrow> (Inl (KeyError v), g1)
         | Some _ \<Rightarrow>
             let a = (adj g1)(v := None);
                 a = (\<lambda>k. map_option (filter (\<lambda>u. u \<noteq> v)) (a k))
             in (Inr (), g1\<lparr>adj := a,
                           edges := filter (\<lambda>e. \<not> (v = fst e \<or> v = snd e)) (edges g1)\<rparr>)))"

definition get_tails :: "graph \<Rightarrow> string \<Rightarrow> string list" where
  "get_tails g h = map fst (filter (\<lambda>e. snd e = h) (edges g))"

definition get_heads :: "graph \<Rightarrow> string \<Rightarrow> string list" where
  "get_heads g t = map snd (filter (\<lambda>e. fst e = t) (edges g))"

text \<open>The \<open>while queue\<close> loop of \<open>bfs\<close>; \<open>None\<close> is a run that does not return.\<close>

partial_function (option) bfs_loop ::
  "(string set \<Rightarrow> string list) \<Rightarrow> (string \<rightharpoonup> string list) \<Rightarrow> string list \<Rightarrow> string set
    \<Rightarrow> string set option" where
  "bfs_loop set_iter a queue visited =
     (case queue of
        [] \<Rightarrow> Some visited
      | v # rest \<Rightarrow>
          if v \<notin> visited
          then bfs_loop set_iter a
                 (rest @ set_iter (set (case a v of None \<Rightarrow> [] | Some hs \<Rightarrow> hs) - insert v visited))
                 (insert v visited)
          else bfs_loop set_iter a rest visited)"

definition bfs :: "(string set \<Rightarrow> string list) \<Rightarrow> graph \<Rightarrow> string option \<Rightarrow> string set res option"
  where
  "bfs set_iter g start =
     (case start of
        Some (c # cs) \<Rightarrow> map_option Inr (bfs_loop set_iter (adj g) [c # cs] {})
      | _ \<Rightarrow>
          (case set_iter (vertices g) of
             [] \<Rightarrow> Some (Inl StopIteration)
           | s # _ \<Rightarrow> map_option Inr (bfs_loop set_iter (adj g) [s] {})))"

section \<open>The invariant and its preservation\<close>

definition graph_ok :: "graph \<Rightarrow> bool" where
  "graph_ok g \<longleftrightarrow>
     finite (vertices g) \<and> dom (adj g) = vertices g \<and>
     set (edges g) \<subseteq> vertices g \<times> vertices g \<and>
     (\<forall>t \<in> vertices g. adj g t = Some (get_heads g t))"

text \<open>The specification of the search: the vertices a path of edges leads to.\<close>

definition reachable_from :: "graph \<Rightarrow> string \<Rightarrow> string set" where
  "reachable_from g s = {v. (s, v) \<in> (set (edges g))\<^sup>*}"

lemma graph_ok_init: "graph_ok Graph_init"
  by (simp add: graph_ok_def Graph_init_def)

lemma get_heads_eq_Nil: "set (edges g) \<subseteq> V \<times> V \<Longrightarrow> t \<notin> V \<Longrightarrow> get_heads g t = []"
  by (auto simp: get_heads_def filter_empty_conv)

lemma graph_ok_add_vertex:
  "graph_ok g \<Longrightarrow> v \<notin> vertices g \<or> set (edges g) = {} \<Longrightarrow> graph_ok (add_vertex g v)"
  using get_heads_eq_Nil [of g "vertices g" v]
  by (auto simp: graph_ok_def add_vertex_def get_heads_def)

text \<open>Adding a vertex that is there already empties its adjacency list and keeps its edges.\<close>

lemma graph_ok_add_vertex_iff:
  assumes "graph_ok g"
  shows "graph_ok (add_vertex g v) \<longleftrightarrow> get_heads g v = []"
proof -
  have heads: "get_heads (add_vertex g v) t = get_heads g t" for t
    by (simp add: get_heads_def add_vertex_def)
  show ?thesis using assms
    by (auto simp: graph_ok_def heads) (auto simp: add_vertex_def)
qed

lemma graph_ok_adj: "graph_ok g \<Longrightarrow> t \<in> vertices g \<Longrightarrow> adj g t = Some (get_heads g t)"
  by (simp add: graph_ok_def)

lemma add_edge_ok:
  assumes "graph_ok g" and "t \<in> vertices g" and "h \<in> vertices g"
  shows "add_edge g t h =
    (Inr (), g\<lparr>edges := edges g @ [(t, h)], adj := (adj g)(t \<mapsto> get_heads g t @ [h])\<rparr>)"
  using assms graph_ok_adj [OF assms(1,2)] by (simp add: add_edge_def)

lemma graph_ok_add_edge: "graph_ok g \<Longrightarrow> graph_ok (snd (add_edge g t h))"
  by (cases "t \<in> vertices g \<and> h \<in> vertices g")
    (auto simp: add_edge_ok graph_ok_def get_heads_def add_edge_def)

lemma heads_remove1:
  "map snd (filter (\<lambda>e. fst e = t) (remove1 (t, h) es)) =
   remove1 h (map snd (filter (\<lambda>e. fst e = t) es))"
  by (induction es) auto

lemma heads_remove1_other:
  "t' \<noteq> t \<Longrightarrow> filter (\<lambda>e. fst e = t') (remove1 (t, h) es) = filter (\<lambda>e. fst e = t') es"
  by (induction es) auto

lemma in_get_heads [simp]: "h \<in> set (get_heads g t) \<longleftrightarrow> (t, h) \<in> set (edges g)"
  by (force simp: get_heads_def)

lemma in_get_tails [simp]: "t \<in> set (get_tails g h) \<longleftrightarrow> (t, h) \<in> set (edges g)"
  by (force simp: get_tails_def)

lemma remove_edge_ok:
  assumes "graph_ok g" and "(t, h) \<in> set (edges g)"
  shows "remove_edge g t h =
    (Inr (), g\<lparr>edges := remove1 (t, h) (edges g), adj := (adj g)(t \<mapsto> remove1 h (get_heads g t))\<rparr>)"
proof -
  from assms have "t \<in> vertices g" by (auto simp: graph_ok_def)
  with assms(1) have "adj g t = Some (get_heads g t)" by (rule graph_ok_adj)
  with assms(2) show ?thesis by (simp add: remove_edge_def)
qed

lemma graph_ok_remove_edge: 
  assumes "graph_ok g"
  shows "graph_ok (snd (remove_edge g t h))"
proof (cases "(t, h) \<in> set (edges g)")
  case True
  with assms have "t \<in> vertices g" by (auto simp: graph_ok_def)
  moreover have "set (remove1 (t, h) (edges g)) \<subseteq> set (edges g)" by (rule set_remove1_subset)
  ultimately show ?thesis using assms True
    by (auto simp: remove_edge_ok graph_ok_def get_heads_def heads_remove1 heads_remove1_other)
next
  case False
  with assms show ?thesis by (simp add: remove_edge_def)
qed

lemma remove_vertex_ok:
  assumes "graph_ok g" and "v \<in> vertices g"
  shows "remove_vertex g v =
    (Inr (), g\<lparr>vertices := vertices g - {v},
               adj := (\<lambda>k. if k = v then None else map_option (filter (\<lambda>u. u \<noteq> v)) (adj g k)),
               edges := filter (\<lambda>e. v \<noteq> fst e \<and> v \<noteq> snd e) (edges g)\<rparr>)"
  using assms(2) graph_ok_adj [OF assms] by (auto simp: remove_vertex_def fun_eq_iff)

lemma remove_vertex_missing:
  "v \<notin> vertices g \<Longrightarrow>
   remove_vertex g v = (Inl (ValueError ''graph does not contain vertex: {0}''), g)"
  by (simp add: remove_vertex_def)

lemma heads_filter_vertex:
  "t \<noteq> v \<Longrightarrow>
   map snd (filter (\<lambda>e. v \<noteq> fst e \<and> v \<noteq> snd e \<and> fst e = t) es) =
   filter (\<lambda>u. u \<noteq> v) (map snd (filter (\<lambda>e. fst e = t) es))"
  by (induction es) auto

lemma graph_ok_remove_vertex:
  assumes "graph_ok g"
  shows "graph_ok (snd (remove_vertex g v))"
proof (cases "v \<in> vertices g")
  case True
  have "dom (\<lambda>k. if k = v then None else map_option (filter (\<lambda>u. u \<noteq> v)) (adj g k)) =
    dom (adj g) - {v}"
    by (auto simp: dom_def)
  with assms True show ?thesis
    by (auto simp: remove_vertex_ok graph_ok_def get_heads_def heads_filter_vertex)
next
  case False
  with assms show ?thesis by (simp add: remove_vertex_missing)
qed

section \<open>Breadth-first search\<close>

definition edge_closed :: "graph \<Rightarrow> string set \<Rightarrow> string set \<Rightarrow> bool" where
  "edge_closed g A B \<longleftrightarrow> (\<forall>u \<in> A. \<forall>h. (u, h) \<in> set (edges g) \<longrightarrow> h \<in> B)"

lemma bfs_loop_steps:
  "bfs_loop it a [] vis = Some vis"
  "v \<in> vis \<Longrightarrow> bfs_loop it a (v # q) vis = bfs_loop it a q vis"
  "v \<notin> vis \<Longrightarrow> bfs_loop it a (v # q) vis =
     bfs_loop it a (q @ it (set (case a v of None \<Rightarrow> [] | Some hs \<Rightarrow> hs) - insert v vis))
       (insert v vis)"
  by (subst bfs_loop.simps, simp)+

lemma rtrancl_Image_absorb:
  "R \<subseteq> r\<^sup>* `` (A \<union> N) \<Longrightarrow> N \<subseteq> r\<^sup>* `` A \<Longrightarrow> R \<subseteq> r\<^sup>* `` A"
  by (blast intro: rtrancl_trans)

text \<open>
  Every vertex put on the queue is a vertex of the graph, so a visit shrinks the unvisited
  part of the graph and a skip shrinks the queue.
\<close>

lemma bfs_loop_returns:
  assumes it: "set_iter_ok it" and g: "graph_ok g"
  shows "set q \<subseteq> vertices g \<Longrightarrow> vis \<subseteq> vertices g \<Longrightarrow> edge_closed g vis (vis \<union> set q) \<Longrightarrow>
    \<exists>R. bfs_loop it (adj g) q vis = Some R \<and> vis \<union> set q \<subseteq> R \<and>
        R \<subseteq> (set (edges g))\<^sup>* `` (vis \<union> set q) \<and> edge_closed g R R"
proof (induction "(card (vertices g - vis), length q)" arbitrary: q vis rule: wf_induct_rule
    [OF wf_lex_prod [OF wf_less_than wf_less_than]])
  case less: (1 q vis)
  show ?case
  proof (cases q)
    case Nil
    with less.prems show ?thesis by (auto simp: bfs_loop_steps)
  next
    case q: (Cons v rest)
    with less.prems have v: "v \<in> vertices g" by simp
    show ?thesis
    proof (cases "v \<in> vis")
      case True
      with less.prems q have "edge_closed g vis (vis \<union> set rest)"
        by (auto simp: edge_closed_def)
      with less.prems q True less.hyps [of vis rest] show ?thesis
        by (simp add: bfs_loop_steps insert_absorb)
    next
      case False
      let ?vis = "insert v vis"
      let ?new = "set (get_heads g v) - ?vis"
      let ?q = "rest @ it ?new"
      have set_q: "set ?q = set rest \<union> ?new" using it by (simp add: set_iter_set)
      have "card (vertices g - ?vis) < card (vertices g - vis)"
        using v False g by (intro psubset_card_mono) (auto simp: graph_ok_def)
      moreover have "set ?q \<subseteq> vertices g"
        unfolding set_q using less.prems(1) q g by (auto simp: graph_ok_def)
      moreover have "edge_closed g ?vis (?vis \<union> set ?q)"
        unfolding set_q using less.prems(3) q by (auto simp: edge_closed_def)
      ultimately obtain R where R: "bfs_loop it (adj g) ?q ?vis = Some R"
          "?vis \<union> set ?q \<subseteq> R" "R \<subseteq> (set (edges g))\<^sup>* `` (?vis \<union> set ?q)" "edge_closed g R R"
        using less.hyps [of ?vis ?q] less.prems(2) v by (auto simp del: set_append)
      have "?vis \<union> set ?q = vis \<union> set q \<union> ?new" unfolding set_q by (auto simp: q)
      moreover have "?new \<subseteq> (set (edges g))\<^sup>* `` (vis \<union> set q)"
        by (auto simp: q Image_iff intro!: bexI [of _ v])
      ultimately have "R \<subseteq> (set (edges g))\<^sup>* `` (vis \<union> set q)"
        using R(3) by (simp only: rtrancl_Image_absorb)
      moreover have "bfs_loop it (adj g) q vis = Some R"
        using R(1) q False graph_ok_adj [OF g v] by (simp add: bfs_loop_steps)
      moreover have "vis \<union> set q \<subseteq> R" using R(2) q unfolding set_q by auto
      ultimately show ?thesis using R(4) by blast
    qed
  qed
qed

lemma edge_closed_reachable:
  assumes "edge_closed g R R" and "s \<in> R"
  shows "reachable_from g s \<subseteq> R"
proof
  fix v assume "v \<in> reachable_from g s"
  then have "(s, v) \<in> (set (edges g))\<^sup>*" by (simp add: reachable_from_def)
  then show "v \<in> R"
    using assms by (induction rule: rtrancl_induct) (auto simp: edge_closed_def)
qed

lemma bfs_loop_reachable:
  assumes "set_iter_ok it" and "graph_ok g" and "s \<in> vertices g"
  shows "bfs_loop it (adj g) [s] {} = Some (reachable_from g s)"
proof -
  obtain R where R: "bfs_loop it (adj g) [s] {} = Some R" "{s} \<subseteq> R"
      "R \<subseteq> (set (edges g))\<^sup>* `` {s}" "edge_closed g R R"
    using bfs_loop_returns [OF assms(1,2), of "[s]" "{}"] assms(3)
    by (auto simp: edge_closed_def)
  then have "R = reachable_from g s"
    using edge_closed_reachable [of g R s] by (auto simp: reachable_from_def)
  with R(1) show ?thesis by simp
qed

lemma bfs_from_vertex:
  assumes "set_iter_ok it" and "graph_ok g" and "s \<in> vertices g" and "s \<noteq> []"
  shows "bfs it g (Some s) = Some (Inr (reachable_from g s))"
  using assms by (cases s) (simp_all add: bfs_def bfs_loop_reachable)

lemma bfs_default_start:
  assumes it: "set_iter_ok it" and g: "graph_ok g" and ne: "vertices g \<noteq> {}"
    and start: "start = None \<or> start = Some []"
  shows "\<exists>s \<in> vertices g. bfs it g start = Some (Inr (reachable_from g s))"
proof -
  from g have fin: "finite (vertices g)" by (simp add: graph_ok_def)
  with it ne obtain s ss where ss: "it (vertices g) = s # ss"
    using set_iter_Nil_iff [of it "vertices g"] by (cases "it (vertices g)") auto
  then have "s \<in> vertices g" using set_iter_set [OF it fin] by auto
  with ss start it g show ?thesis
    by (intro bexI [of _ s]) (auto simp: bfs_def bfs_loop_reachable)
qed

lemma bfs_empty: "set_iter_ok it \<Longrightarrow> vertices g = {} \<Longrightarrow> bfs it g None = Some (Inl StopIteration)"
  using set_iter_Nil_iff [of it "{}"] by (simp add: bfs_def)

lemma reachable_from_vertices:
  assumes "graph_ok g" and "s \<in> vertices g"
  shows "reachable_from g s \<subseteq> vertices g"
  using assms by (intro edge_closed_reachable) (auto simp: edge_closed_def graph_ok_def)

section \<open>The interface the topology uses\<close>

locale digraph =
  fixes empty :: 'g
    and add_vertex :: "'g \<Rightarrow> 'v \<Rightarrow> 'g"
    and add_edge :: "'g \<Rightarrow> 'v \<Rightarrow> 'v \<Rightarrow> unit res \<times> 'g"
    and remove_vertex :: "'g \<Rightarrow> 'v \<Rightarrow> unit res \<times> 'g"
    and V :: "'g \<Rightarrow> 'v set"
    and E :: "'g \<Rightarrow> ('v \<times> 'v) set"
    and invar :: "'g \<Rightarrow> bool"
  assumes invar_empty: "invar empty"
    and V_empty: "V empty = {}"
    and E_empty: "E empty = {}"
    and invar_add_vertex: "invar g \<Longrightarrow> v \<notin> V g \<or> E g = {} \<Longrightarrow> invar (add_vertex g v)"
    and V_add_vertex: "V (add_vertex g v) = insert v (V g)"
    and E_add_vertex: "E (add_vertex g v) = E g"
    and add_edge_invar: "invar g \<Longrightarrow> invar (snd (add_edge g t h))"
    and add_edge_V: "V (snd (add_edge g t h)) = V g"
    and add_edge_ok: "invar g \<Longrightarrow> t \<in> V g \<Longrightarrow> h \<in> V g \<Longrightarrow>
      fst (add_edge g t h) = Inr () \<and> E (snd (add_edge g t h)) = insert (t, h) (E g)"
    and add_edge_err: "t \<notin> V g \<or> h \<notin> V g \<Longrightarrow> \<exists>m. add_edge g t h = (Inl (ValueError m), g)"
    and remove_vertex_invar: "invar g \<Longrightarrow> invar (snd (remove_vertex g v))"
    and remove_vertex_V: "invar g \<Longrightarrow> V (snd (remove_vertex g v)) = V g - {v}"
    and remove_vertex_E: "invar g \<Longrightarrow>
      E (snd (remove_vertex g v)) = E g \<inter> {e. fst e \<noteq> v \<and> snd e \<noteq> v}"
begin

lemma add_edge_E: "invar g \<Longrightarrow>
  E (snd (add_edge g t h)) = E g \<union> (if t \<in> V g \<and> h \<in> V g then {(t, h)} else {})"
  using add_edge_ok [of g t h] add_edge_err [of t g h]
  by (cases "t \<in> V g \<and> h \<in> V g") auto

lemma fold_add_vertex:
  "invar g \<Longrightarrow> E g = {} \<Longrightarrow>
   invar (foldl add_vertex g vs) \<and> V (foldl add_vertex g vs) = V g \<union> set vs \<and>
   E (foldl add_vertex g vs) = E g"
proof (induction vs arbitrary: g)
  case (Cons v vs)
  then show ?case
    using Cons.IH [of "add_vertex g v"] by (simp add: invar_add_vertex V_add_vertex E_add_vertex)
qed simp

end

interpretation ipa_graph: digraph Graph_init add_vertex add_edge remove_vertex vertices
  "\<lambda>g. set (edges g)" graph_ok
proof unfold_locales
  show "graph_ok Graph_init" by (rule graph_ok_init)
  show "graph_ok g \<Longrightarrow> v \<notin> vertices g \<or> set (edges g) = {} \<Longrightarrow> graph_ok (add_vertex g v)" for g v
    by (rule graph_ok_add_vertex)
  show "graph_ok g \<Longrightarrow> graph_ok (snd (add_edge g t h))" for g t h
    by (rule graph_ok_add_edge)
  show "graph_ok g \<Longrightarrow> graph_ok (snd (remove_vertex g v))" for g v
    by (rule graph_ok_remove_vertex)
  show "graph_ok g \<Longrightarrow> vertices (snd (remove_vertex g v)) = vertices g - {v}" for g v
    by (cases "v \<in> vertices g") (simp_all add: remove_vertex_ok remove_vertex_missing)
  show "graph_ok g \<Longrightarrow>
      set (edges (snd (remove_vertex g v))) = set (edges g) \<inter> {e. fst e \<noteq> v \<and> snd e \<noteq> v}" for g v
    by (cases "v \<in> vertices g")
      (auto simp: remove_vertex_ok remove_vertex_missing graph_ok_def)
  show "graph_ok g \<Longrightarrow> t \<in> vertices g \<Longrightarrow> h \<in> vertices g \<Longrightarrow>
      fst (add_edge g t h) = Inr () \<and>
      set (edges (snd (add_edge g t h))) = insert (t, h) (set (edges g))" for g t h
    by (simp add: add_edge_ok)
  show "t \<notin> vertices g \<or> h \<notin> vertices g \<Longrightarrow> \<exists>m. add_edge g t h = (Inl (ValueError m), g)" for g t h
    by (auto simp: add_edge_def)
  show "vertices (snd (add_edge g t h)) = vertices g" for g t h
    by (simp add: add_edge_def Let_def split: option.split)
qed (simp_all add: Graph_init_def add_vertex_def)

section \<open>Properties\<close>

text \<open>A two-vertex graph with one edge, built by the methods.\<close>

definition two_node_graph :: graph where
  "two_node_graph =
     snd (add_edge (add_vertex (add_vertex Graph_init ''a'') ''b'') ''a'' ''b'')"

lemma two_node_graph_simps [simp]:
  "vertices two_node_graph = {''a'', ''b''}"
  "edges two_node_graph = [(''a'', ''b'')]"
  by (auto simp: two_node_graph_def Graph_init_def add_vertex_def add_edge_def)

lemma two_node_graph_ok: "graph_ok two_node_graph"
  unfolding two_node_graph_def
  by (intro graph_ok_add_edge graph_ok_add_vertex graph_ok_init)
    (simp_all add: Graph_init_def add_vertex_def)

text \<open>
  C1: on a well-formed graph the breadth-first search from a named vertex returns (whatever
  order the interpreter iterates over sets in), and the visited set is exactly the set of
  vertices a path of edges leads to from the start.
\<close>

theorem bfs_visits_exactly_reachable:
  assumes "set_iter_ok set_iter" and "graph_ok g" and "s \<in> vertices g" and "s \<noteq> []"
  shows "bfs set_iter g (Some s) = Some (Inr {v. (s, v) \<in> (set (edges g))\<^sup>*})"
  using bfs_from_vertex [OF assms] by (simp add: reachable_from_def)

theorem bfs_visits_exactly_reachable_witness:
  "bfs sorted_list_of_set two_node_graph (Some ''a'') = Some (Inr {v. (''a'', v) \<in> {(''a'', ''b'')}\<^sup>*})"
  using bfs_visits_exactly_reachable [OF set_iter_ok_sorted two_node_graph_ok, of "''a''"] by simp

text \<open>
  C31: on a consistent graph (vertex set, edge list and adjacency dictionary agree) adding or
  removing an edge and removing a vertex leave a consistent graph behind, whether they succeed
  or raise, and the empty graph is consistent. Adding a vertex leaves a consistent graph exactly
  when no edge starts at it: always for a new vertex, but not for one that is there already and
  has outgoing edges, whose adjacency list is emptied while its edges stay.
\<close>

theorem graph_mutators_keep_invariant:
  "graph_ok Graph_init \<and>
   (graph_ok g \<longrightarrow>
      graph_ok (snd (add_edge g t h)) \<and>
      graph_ok (snd (remove_edge g t h)) \<and>
      graph_ok (snd (remove_vertex g v)) \<and>
      (v \<notin> vertices g \<longrightarrow> graph_ok (add_vertex g v)) \<and>
      (graph_ok (add_vertex g v) \<longleftrightarrow> (\<forall>w. (v, w) \<notin> set (edges g))))"
proof -
  have "get_heads g v = [] \<longleftrightarrow> (\<forall>w. (v, w) \<notin> set (edges g))"
    by (auto simp: get_heads_def filter_empty_conv)
  then show ?thesis
    by (simp add: graph_ok_init graph_ok_add_vertex graph_ok_add_vertex_iff graph_ok_add_edge
        graph_ok_remove_edge graph_ok_remove_vertex)
qed

theorem graph_mutators_keep_invariant_witness:
  "graph_ok two_node_graph \<and> ''c'' \<notin> vertices two_node_graph \<and>
   graph_ok (add_vertex two_node_graph ''c'') \<and>
   graph_ok (snd (remove_edge two_node_graph ''a'' ''b'')) \<and>
   \<not> graph_ok (add_vertex two_node_graph ''a'')"
proof -
  have ab: "(''a'', ''b'') \<in> set (edges two_node_graph)" by simp
  show ?thesis
    using graph_mutators_keep_invariant [of two_node_graph "''a''" "''b''" "''c''"]
      graph_mutators_keep_invariant [of two_node_graph "''a''" "''b''" "''a''"] two_node_graph_ok ab
    by auto
qed

text \<open>
  removing an edge that was just added succeeds and gives back a consistent graph with the
  same vertices and the same multiset of edges.
\<close>

theorem remove_edge_undoes_add_edge:
  assumes g: "graph_ok g" and th: "t \<in> vertices g" "h \<in> vertices g"
  shows "\<exists>g' g''. add_edge g t h = (Inr (), g') \<and> remove_edge g' t h = (Inr (), g'') \<and>
        graph_ok g'' \<and> vertices g'' = vertices g \<and> mset (edges g'') = mset (edges g)"
proof -
  let ?g' = "snd (add_edge g t h)"
  let ?g'' = "snd (remove_edge ?g' t h)"
  have g': "graph_ok ?g'" "(t, h) \<in> set (edges ?g')" "add_edge g t h = (Inr (), ?g')"
    using g th by (simp_all add: graph_ok_add_edge ipa_graph.add_edge_ok)
      (simp add: add_edge_ok)
  have "mset (edges ?g'') = mset (edges g)" "vertices ?g'' = vertices g"
    using g' add_edge_ok [OF g th] by (simp_all add: remove_edge_ok ipa_graph.add_edge_V)
  with g' remove_edge_ok [OF g'(1,2)] graph_ok_remove_edge [OF g'(1)] show ?thesis
    by (metis snd_conv)
qed

theorem remove_edge_undoes_add_edge_witness:
  "\<exists>g' g''. add_edge two_node_graph ''b'' ''a'' = (Inr (), g') \<and>
     remove_edge g' ''b'' ''a'' = (Inr (), g'') \<and> graph_ok g'' \<and>
     vertices g'' = {''a'', ''b''} \<and> mset (edges g'') = {#(''a'', ''b'')#}"
  using remove_edge_undoes_add_edge [OF two_node_graph_ok, of "''b''" "''a''"] by simp

end
