(* ===== verification/Topology.thy ===== *)
theory Topology
  imports Py_Graph
begin

text \<open>
  Replication topology, \<^verbatim>\<open>src/ipaserver/topology.py\<close>: the graph built from the masters and
  the topology segments of a suffix, the search for masters that cannot reach one another,
  and class \<open>TopologyConnectivity\<close> with its checks before and after the removal of a master.

  The results of \<open>server_find\<close> and \<open>topologysegment_find\<close> are LDAP entries, here a map from
  attribute name to a value list or \<open>None\<close>; the two commands themselves are parameters.
  The messages of the two checks are modelled in full (in the untranslated locale).
\<close>

section \<open>Entries\<close>

type_synonym entry = "string \<rightharpoonup> string list option"

text \<open>\<open>e[k][0]\<close>\<close>

definition entry_first :: "entry \<Rightarrow> string \<Rightarrow> string res" where
  "entry_first e k =
     (case e k of
        None \<Rightarrow> Inl (KeyError k)
      | Some None \<Rightarrow> Inl (TypeError ''NoneType object is not subscriptable'')
      | Some (Some []) \<Rightarrow> Inl (IndexError ''list index out of range'')
      | Some (Some (x # _)) \<Rightarrow> Inr x)"

section \<open>Building the graph\<close>

fun add_masters :: "graph \<Rightarrow> entry list \<Rightarrow> graph res" where
  "add_masters g [] = Inr g"
| "add_masters g (m # ms) =
     rbind (entry_first m ''cn'') (\<lambda>cn. add_masters (add_vertex g cn) ms)"

definition segment_edges :: "string \<Rightarrow> string \<Rightarrow> string \<Rightarrow> (string \<times> string) list" where
  "segment_edges direction left right =
     (if direction = ''both'' then [(left, right), (right, left)]
      else if direction = ''left-right'' then [(left, right)]
      else if direction = ''right-left'' then [(right, left)]
      else [])"

fun add_edges :: "graph \<Rightarrow> (string \<times> string) list \<Rightarrow> unit res \<times> graph" where
  "add_edges g [] = (Inr (), g)"
| "add_edges g ((t, h) # es) =
     (case add_edge g t h of (Inl e, g') \<Rightarrow> (Inl e, g') | (Inr _, g') \<Rightarrow> add_edges g' es)"

fun add_segments :: "graph \<Rightarrow> entry list \<Rightarrow> graph res" where
  "add_segments g [] = Inr g"
| "add_segments g (s # ss) =
     rbind (entry_first s ''iparepltoposegmentdirection'') (\<lambda>direction.
     rbind (entry_first s ''iparepltoposegmentleftnode'') (\<lambda>left.
     rbind (entry_first s ''iparepltoposegmentrightnode'') (\<lambda>right.
       (case add_edges g (segment_edges direction left right) of
          (Inl (ValueError _), g') \<Rightarrow> add_segments g' ss
        | (Inl e, g') \<Rightarrow> Inl e
        | (Inr _, g') \<Rightarrow> add_segments g' ss))))"

definition create_topology_graph :: "entry list \<Rightarrow> entry list \<Rightarrow> graph res" where
  "create_topology_graph masters segments =
     rbind (add_masters Graph_init masters) (\<lambda>g. add_segments g segments)"

section \<open>Connection errors\<close>

type_synonym topo_error = "string \<times> string list \<times> string list"

fun connection_errors_loop ::
  "(string set \<Rightarrow> string list) \<Rightarrow> graph \<Rightarrow> string list \<Rightarrow> topo_error list comp" where
  "connection_errors_loop set_iter g [] = Some (Inr [])"
| "connection_errors_loop set_iter g (m # ms) =
     cbind (bfs set_iter g (Some m)) (\<lambda>visited.
       let not_visited = vertices g - visited in
       cbind (connection_errors_loop set_iter g ms) (\<lambda>errs.
         Some (Inr (if not_visited \<noteq> {}
                    then (m, set_iter visited, set_iter not_visited) # errs else errs))))"

definition get_topology_connection_errors ::
  "(string set \<Rightarrow> string list) \<Rightarrow> graph \<Rightarrow> topo_error list comp" where
  "get_topology_connection_errors set_iter g =
     connection_errors_loop set_iter g (sort (set_iter (vertices g)))"

section \<open>Masters by suffix\<close>

fun append_to_suffixes ::
  "(string \<times> entry list) list \<Rightarrow> entry \<Rightarrow> string list \<Rightarrow> (string \<times> entry list) list" where
  "append_to_suffixes d master [] = d"
| "append_to_suffixes d master (s # ss) =
     append_to_suffixes
       (AList.update s (case map_of d s of None \<Rightarrow> [master] | Some ms \<Rightarrow> ms @ [master]) d) master ss"

fun map_masters_loop ::
  "(string \<times> entry list) list \<Rightarrow> entry list \<Rightarrow> (string \<times> entry list) list" where
  "map_masters_loop d [] = d"
| "map_masters_loop d (m # ms) =
     (case m ''iparepltopomanagedsuffix_topologysuffix'' of
        None \<Rightarrow> map_masters_loop d ms
      | Some None \<Rightarrow> map_masters_loop d ms
      | Some (Some managed_suffixes) \<Rightarrow>
          map_masters_loop (append_to_suffixes d m managed_suffixes) ms)"

definition map_masters_to_suffixes :: "entry list \<Rightarrow> (string \<times> entry list) list" where
  "map_masters_to_suffixes masters = map_masters_loop [] masters"

definition create_topology_graphs ::
  "entry list \<Rightarrow> (string \<Rightarrow> entry list) \<Rightarrow> (string \<times> graph) list res" where
  "create_topology_graphs server_find topologysegment_find =
     rmap (\<lambda>(suffix, masters).
             rbind (create_topology_graph masters (topologysegment_find suffix))
               (\<lambda>g. Inr (suffix, g)))
       (map_masters_to_suffixes server_find)"

section \<open>Messages\<close>

definition newline :: string where "newline = [CHR 0x0A]"

definition format_topology_errors :: "topo_error list \<Rightarrow> string" where
  "format_topology_errors errs =
     py_join newline
       (concat (map (\<lambda>(server, _, not_visited).
          (''Topology does not allow server '' @ server @ '' to replicate with servers:'')
          # map (\<lambda>srv. ''    '' @ srv) not_visited) errs))"

definition CURR_TOPOLOGY_DISCONNECTED :: "string \<Rightarrow> string \<Rightarrow> string" where
  "CURR_TOPOLOGY_DISCONNECTED suffix errs =
     newline @ ''Replication topology in suffix '' @ [CHR 0x27] @ suffix @ [CHR 0x27]
       @ '' is disconnected:'' @ newline @ errs"

definition REMOVAL_DISCONNECTS_TOPOLOGY :: "string \<Rightarrow> string \<Rightarrow> string \<Rightarrow> string" where
  "REMOVAL_DISCONNECTS_TOPOLOGY hostname suffix errs =
     newline @ ''Removal of '' @ [CHR 0x27] @ hostname @ [CHR 0x27]
       @ '' leads to disconnected topology in suffix '' @ [CHR 0x27] @ suffix @ [CHR 0x27]
       @ '':'' @ newline @ errs"

section \<open>TopologyConnectivity\<close>

record topology_connectivity =
  graphs :: "(string \<times> graph) list"

definition TopologyConnectivity_init ::
  "entry list \<Rightarrow> (string \<Rightarrow> entry list) \<Rightarrow> topology_connectivity res" where
  "TopologyConnectivity_init server_find topologysegment_find =
     rbind (create_topology_graphs server_find topologysegment_find) (\<lambda>gs. Inr \<lparr>graphs = gs\<rparr>)"

fun errors_loop ::
  "(string set \<Rightarrow> string list) \<Rightarrow> (string \<times> graph) list \<Rightarrow> (string \<times> topo_error list) list comp"
  where
  "errors_loop set_iter [] = Some (Inr [])"
| "errors_loop set_iter ((suffix, g) # gs) =
     cbind (get_topology_connection_errors set_iter g) (\<lambda>errs.
     cbind (errors_loop set_iter gs) (\<lambda>rest. Some (Inr ((suffix, errs) # rest))))"

definition topology_errors ::
  "(string set \<Rightarrow> string list) \<Rightarrow> topology_connectivity \<Rightarrow> (string \<times> topo_error list) list comp"
  where
  "topology_errors set_iter tc = errors_loop set_iter (graphs tc)"

fun remove_from_graphs ::
  "(string \<times> graph) list \<Rightarrow> string \<Rightarrow> unit res \<times> (string \<times> graph) list" where
  "remove_from_graphs [] master = (Inr (), [])"
| "remove_from_graphs ((s, g) # gs) master =
     (case remove_vertex g master of
        (Inl (ValueError _), g') \<Rightarrow>
          (let (r, gs') = remove_from_graphs gs master in (r, (s, g') # gs'))
      | (Inl e, g') \<Rightarrow> (Inl e, (s, g') # gs)
      | (Inr _, g') \<Rightarrow> (let (r, gs') = remove_from_graphs gs master in (r, (s, g') # gs')))"

definition errors_after_master_removal ::
  "(string set \<Rightarrow> string list) \<Rightarrow> topology_connectivity \<Rightarrow> string
    \<Rightarrow> (string \<times> topo_error list) list comp \<times> topology_connectivity" where
  "errors_after_master_removal set_iter tc master =
     (let graphs_before = graphs tc;
          (r, gs) = remove_from_graphs (graphs tc) master;
          tc1 = tc\<lparr>graphs := gs\<rparr>
      in (case r of
            Inl e \<Rightarrow> (Some (Inl e), tc1)
          | Inr _ \<Rightarrow>
              (case topology_errors set_iter tc1 of
                 Some (Inr errs) \<Rightarrow> (Some (Inr errs), tc1\<lparr>graphs := graphs_before\<rparr>)
               | r' \<Rightarrow> (r', tc1))))"

fun check_current_loop :: "string \<Rightarrow> (string \<times> topo_error list) list \<Rightarrow> unit res" where
  "check_current_loop err_msg [] = Inr ()"
| "check_current_loop err_msg ((suffix, errs) # rest) =
     (let err_msg' = (if errs \<noteq> []
            then py_join newline
                   [err_msg, CURR_TOPOLOGY_DISCONNECTED suffix (format_topology_errors errs)]
            else err_msg)
      in if err_msg' \<noteq> [] then Inl (ValueError err_msg') else check_current_loop err_msg' rest)"

definition check_current_state ::
  "(string set \<Rightarrow> string list) \<Rightarrow> topology_connectivity \<Rightarrow> unit comp" where
  "check_current_state set_iter tc =
     cbind (topology_errors set_iter tc) (\<lambda>errs. Some (check_current_loop [] errs))"

fun removal_message :: "string \<Rightarrow> string \<Rightarrow> (string \<times> topo_error list) list \<Rightarrow> string" where
  "removal_message err_msg master [] = err_msg"
| "removal_message err_msg master ((suffix, errs) # rest) =
     removal_message
       (if errs \<noteq> []
        then py_join newline
               [err_msg, REMOVAL_DISCONNECTS_TOPOLOGY master suffix (format_topology_errors errs)]
        else err_msg) master rest"

definition check_state_after_removal ::
  "(string set \<Rightarrow> string list) \<Rightarrow> topology_connectivity \<Rightarrow> string
    \<Rightarrow> unit comp \<times> topology_connectivity" where
  "check_state_after_removal set_iter tc master =
     (let (r, tc') = errors_after_master_removal set_iter tc master in
      (cbind r (\<lambda>errs.
         let err_msg = removal_message [] master errs in
         if err_msg \<noteq> [] then Some (Inl (ValueError err_msg)) else Some (Inr ())), tc'))"

section \<open>The graph of a topology\<close>

text \<open>A master entry names its host; a segment entry has a direction and two end points.\<close>

definition master_cn :: "entry \<Rightarrow> string option" where
  "master_cn m = (case entry_first m ''cn'' of Inl _ \<Rightarrow> None | Inr cn \<Rightarrow> Some cn)"

definition segment_ends :: "entry \<Rightarrow> (string \<times> string \<times> string) option" where
  "segment_ends s =
     (case (entry_first s ''iparepltoposegmentdirection'', entry_first s ''iparepltoposegmentleftnode'',
            entry_first s ''iparepltoposegmentrightnode'') of
        (Inr d, Inr l, Inr r) \<Rightarrow> Some (d, l, r)
      | _ \<Rightarrow> None)"

definition masters_ok :: "entry list \<Rightarrow> bool" where
  "masters_ok ms \<longleftrightarrow> (\<forall>m \<in> set ms. master_cn m \<noteq> None)"

definition segments_ok :: "entry list \<Rightarrow> bool" where
  "segments_ok ss \<longleftrightarrow> (\<forall>s \<in> set ss. segment_ends s \<noteq> None)"

definition master_cns :: "entry list \<Rightarrow> string set" where
  "master_cns ms = {cn. \<exists>m \<in> set ms. master_cn m = Some cn}"

text \<open>
  What a direction means, said without the code: a segment replicates from its left to its
  right node when its direction is left-right or both, and from its right to its left node when
  it is right-left or both.
\<close>

definition replicates :: "string \<times> string \<times> string \<Rightarrow> string \<Rightarrow> string \<Rightarrow> bool" where
  "replicates seg x y \<longleftrightarrow> (case seg of (direction, left, right) \<Rightarrow>
     direction \<in> {''left-right'', ''both''} \<and> x = left \<and> y = right \<or>
     direction \<in> {''right-left'', ''both''} \<and> x = right \<and> y = left)"

definition segment_pairs :: "entry list \<Rightarrow> (string \<times> string) set" where
  "segment_pairs ss =
     {(x, y). \<exists>s \<in> set ss. \<exists>seg. segment_ends s = Some seg \<and> replicates seg x y}"

lemma master_cns_simps:
  "master_cns [] = {}"
  "master_cn m = Some cn \<Longrightarrow> master_cns (m # ms) = insert cn (master_cns ms)"
  by (auto simp: master_cns_def)

lemma segment_pairs_simps:
  "segment_pairs [] = {}"
  "segment_ends s = Some seg \<Longrightarrow>
     segment_pairs (s # ss) = {(x, y). replicates seg x y} \<union> segment_pairs ss"
  by (cases seg; auto simp: segment_pairs_def)+

lemma segment_edges_replicates:
  "set (segment_edges d l r) = {(x, y). replicates (d, l, r) x y}"
  by (auto simp: segment_edges_def replicates_def)

lemma add_masters_spec:
  assumes "masters_ok ms" and "graph_ok g" and "edges g = []"
  shows "\<exists>g'. add_masters g ms = Inr g' \<and> graph_ok g' \<and> edges g' = [] \<and>
    vertices g' = vertices g \<union> master_cns ms"
  using assms
proof (induction ms arbitrary: g)
  case (Cons m ms)
  then obtain cn where cn: "entry_first m ''cn'' = Inr cn" "master_cn m = Some cn"
    by (auto simp: masters_ok_def master_cn_def split: sum.splits)
  from Cons.prems have "graph_ok (add_vertex g cn)" "edges (add_vertex g cn) = []"
    by (simp_all add: graph_ok_add_vertex) (simp add: add_vertex_def)
  with Cons.IH [of "add_vertex g cn"] Cons.prems(1) cn show ?case
    by (simp add: masters_ok_def master_cns_simps) (simp add: add_vertex_def)
qed (simp add: master_cns_simps)

text \<open>
  One segment adds its edges exactly when both ends are masters: the first edge of a
  bidirectional segment fails before the graph is changed.
\<close>

lemma add_edges_segment:
  assumes g: "graph_ok g"
  shows "\<exists>r g'. add_edges g (segment_edges d l r0) = (r, g') \<and> graph_ok g' \<and>
    vertices g' = vertices g \<and>
    set (edges g') = set (edges g) \<union> (set (segment_edges d l r0) \<inter> vertices g \<times> vertices g) \<and>
    (r = Inr () \<or> (\<exists>m. r = Inl (ValueError m)))"
proof (cases "l \<in> vertices g \<and> r0 \<in> vertices g")
  case True
  let ?g1 = "snd (add_edge g l r0)"
  have "graph_ok ?g1" "vertices ?g1 = vertices g"
    using g by (simp_all add: graph_ok_add_edge ipa_graph.add_edge_V)
  then show ?thesis
    using g True add_edge_ok [OF g] add_edge_ok [of ?g1 r0 l]
      graph_ok_add_edge [of ?g1 r0 l] graph_ok_add_edge [of g l r0] graph_ok_add_edge [of g r0 l]
    by (auto simp: segment_edges_def)
next
  case False
  with g show ?thesis by (auto simp: segment_edges_def add_edge_def)
qed

lemma add_segments_spec:
  assumes "segments_ok ss" and "graph_ok g"
  shows "\<exists>g'. add_segments g ss = Inr g' \<and> graph_ok g' \<and> vertices g' = vertices g \<and>
    set (edges g') = set (edges g) \<union> (segment_pairs ss \<inter> vertices g \<times> vertices g)"
  using assms
proof (induction ss arbitrary: g)
  case (Cons s ss)
  then obtain d l r where s: "entry_first s ''iparepltoposegmentdirection'' = Inr d"
      "entry_first s ''iparepltoposegmentleftnode'' = Inr l"
      "entry_first s ''iparepltoposegmentrightnode'' = Inr r"
      "segment_ends s = Some (d, l, r)"
    by (auto simp: segments_ok_def segment_ends_def split: sum.splits prod.splits)
  obtain res g1 where g1: "add_edges g (segment_edges d l r) = (res, g1)" "graph_ok g1"
      "vertices g1 = vertices g"
      "set (edges g1) = set (edges g) \<union> (set (segment_edges d l r) \<inter> vertices g \<times> vertices g)"
      "res = Inr () \<or> (\<exists>m. res = Inl (ValueError m))"
    using add_edges_segment [OF Cons.prems(2), of d l r] by blast
  have "add_segments g (s # ss) = add_segments g1 ss"
    using s(1-3) g1(1,5) by auto
  with Cons.IH [of g1] Cons.prems(1) g1(2-4) show ?case
    by (auto simp: segments_ok_def segment_pairs_simps(2) [OF s(4)] segment_edges_replicates)
qed (simp add: segment_pairs_simps)

lemma create_topology_graph_spec:
  assumes "masters_ok ms" and "segments_ok ss"
  shows "\<exists>g. create_topology_graph ms ss = Inr g \<and> graph_ok g \<and> vertices g = master_cns ms \<and>
    set (edges g) = segment_pairs ss \<inter> master_cns ms \<times> master_cns ms"
proof -
  obtain g where g: "add_masters Graph_init ms = Inr g" "graph_ok g" "edges g = []"
      "vertices g = master_cns ms"
    using add_masters_spec [OF assms(1) graph_ok_init] by (auto simp: Graph_init_def)
  with add_segments_spec [OF assms(2) g(2)] show ?thesis
    by (auto simp: create_topology_graph_def)
qed

section \<open>Connectivity\<close>

definition strongly_connected :: "graph \<Rightarrow> bool" where
  "strongly_connected g \<longleftrightarrow>
     (\<forall>u \<in> vertices g. \<forall>v \<in> vertices g. (u, v) \<in> (set (edges g))\<^sup>*)"

text \<open>What the search reports about one master.\<close>

definition master_error :: "(string set \<Rightarrow> string list) \<Rightarrow> graph \<Rightarrow> string \<Rightarrow> topo_error" where
  "master_error it g m = (m, it (reachable_from g m), it (vertices g - reachable_from g m))"

definition connection_errors_spec ::
  "(string set \<Rightarrow> string list) \<Rightarrow> graph \<Rightarrow> topo_error list" where
  "connection_errors_spec it g =
     map (master_error it g)
       (filter (\<lambda>m. \<not> vertices g \<subseteq> reachable_from g m) (sort (it (vertices g))))"

lemma connection_errors_loop_spec:
  assumes "set_iter_ok it" and "graph_ok g" and "set ms \<subseteq> vertices g" and "[] \<notin> set ms"
  shows "connection_errors_loop it g ms =
    Some (Inr (map (master_error it g) (filter (\<lambda>m. \<not> vertices g \<subseteq> reachable_from g m) ms)))"
  using assms(3,4)
proof (induction ms)
  case (Cons m ms)
  then have "bfs it g (Some m) = Some (Inr (reachable_from g m))"
    by (intro bfs_from_vertex [OF assms(1,2)]) auto
  with Cons show ?case by (simp add: master_error_def)
qed simp

lemma get_topology_connection_errors_spec:
  assumes "set_iter_ok it" and "graph_ok g" and "[] \<notin> vertices g"
  shows "get_topology_connection_errors it g = Some (Inr (connection_errors_spec it g))"
proof -
  have "finite (vertices g)" using assms(2) by (simp add: graph_ok_def)
  then have "set (sort (it (vertices g))) = vertices g" by (simp add: set_iter_set [OF assms(1)])
  with assms show ?thesis
    by (simp add: get_topology_connection_errors_def connection_errors_spec_def
        connection_errors_loop_spec)
qed

lemma connection_errors_spec_empty_iff:
  assumes "set_iter_ok it" and "graph_ok g"
  shows "connection_errors_spec it g = [] \<longleftrightarrow> strongly_connected g"
proof -
  have "finite (vertices g)" using assms(2) by (simp add: graph_ok_def)
  then have "set (it (vertices g)) = vertices g" by (rule set_iter_set [OF assms(1)])
  then show ?thesis
    by (auto simp: connection_errors_spec_def filter_empty_conv strongly_connected_def
        reachable_from_def)
qed

section \<open>Checks over all suffixes\<close>

definition topology_ok :: "topology_connectivity \<Rightarrow> bool" where
  "topology_ok tc \<longleftrightarrow> (\<forall>(s, g) \<in> set (graphs tc). graph_ok g \<and> [] \<notin> vertices g)"

definition drop_master :: "topology_connectivity \<Rightarrow> string \<Rightarrow> topology_connectivity" where
  "drop_master tc m = tc\<lparr>graphs := map (\<lambda>(s, g). (s, snd (remove_vertex g m))) (graphs tc)\<rparr>"

definition errors_spec ::
  "(string set \<Rightarrow> string list) \<Rightarrow> topology_connectivity \<Rightarrow> (string \<times> topo_error list) list" where
  "errors_spec it tc = map (\<lambda>(s, g). (s, connection_errors_spec it g)) (graphs tc)"

lemma errors_loop_spec:
  assumes it: "set_iter_ok it"
  shows "\<forall>(s, g) \<in> set gs. graph_ok g \<and> [] \<notin> vertices g \<Longrightarrow>
    errors_loop it gs = Some (Inr (map (\<lambda>(s, g). (s, connection_errors_spec it g)) gs))"
  by (induction gs) (auto simp: get_topology_connection_errors_spec [OF it])

lemma topology_errors_spec:
  "set_iter_ok it \<Longrightarrow> topology_ok tc \<Longrightarrow> topology_errors it tc = Some (Inr (errors_spec it tc))"
  by (simp add: topology_errors_def topology_ok_def errors_spec_def errors_loop_spec)

lemma topology_ok_drop_master: "topology_ok tc \<Longrightarrow> topology_ok (drop_master tc m)"
  by (auto simp: topology_ok_def drop_master_def graph_ok_remove_vertex
      ipa_graph.remove_vertex_V)

lemma remove_from_graphs_spec:
  "\<forall>(s, g) \<in> set gs. graph_ok g \<and> [] \<notin> vertices g \<Longrightarrow>
   remove_from_graphs gs m = (Inr (), map (\<lambda>(s, g). (s, snd (remove_vertex g m))) gs)"
proof (induction gs)
  case (Cons p gs)
  obtain s g where p: "p = (s, g)" by (cases p)
  with Cons show ?case
    by (cases "m \<in> vertices g") (simp_all add: remove_vertex_ok remove_vertex_missing)
qed simp

lemma errors_after_master_removal_spec:
  assumes "set_iter_ok it" and "topology_ok tc"
  shows "errors_after_master_removal it tc m =
    (Some (Inr (errors_spec it (drop_master tc m))), tc)"
  using topology_errors_spec [OF assms(1) topology_ok_drop_master [OF assms(2), of m]] assms(2)
  by (simp add: errors_after_master_removal_def topology_ok_def remove_from_graphs_spec
      drop_master_def)

lemma newline_nonempty [simp]: "newline \<noteq> []"
  by (simp add: newline_def)

lemma check_current_loop_ok:
  "\<forall>p \<in> set errs. snd p = [] \<Longrightarrow> check_current_loop [] errs = Inr ()"
  by (induction "[] :: string" errs rule: check_current_loop.induct) simp_all

lemma check_current_loop_err:
  "\<exists>p \<in> set errs. snd p \<noteq> [] \<Longrightarrow> \<exists>m. check_current_loop [] errs = Inl (ValueError m)"
proof (induction errs)
  case (Cons p errs)
  obtain s es where p: "p = (s, es)" by (cases p)
  show ?case
  proof (cases "es = []")
    case True
    with p Cons show ?thesis by simp
  next
    case False
    with p show ?thesis by simp
  qed
qed simp

lemma removal_message_keeps: "acc \<noteq> [] \<Longrightarrow> removal_message acc m errs \<noteq> []"
  by (induction acc m errs rule: removal_message.induct) simp_all

lemma removal_message_empty_iff:
  "removal_message [] m errs = [] \<longleftrightarrow> (\<forall>p \<in> set errs. snd p = [])"
proof (induction errs)
  case (Cons p errs)
  obtain s es where p: "p = (s, es)" by (cases p)
  show ?case
  proof (cases "es = []")
    case True
    with p Cons.IH show ?thesis by simp
  next
    case False
    with p show ?thesis by (simp add: removal_message_keeps)
  qed
qed simp

lemma errors_spec_none_iff:
  assumes "set_iter_ok it" and "topology_ok tc"
  shows "(\<forall>p \<in> set (errors_spec it tc). snd p = []) \<longleftrightarrow>
    (\<forall>(s, g) \<in> set (graphs tc). strongly_connected g)"
  using assms by (fastforce simp: errors_spec_def topology_ok_def connection_errors_spec_empty_iff)

section \<open>Masters by suffix: the dictionary\<close>

definition managed_suffixes_of :: "entry \<Rightarrow> string list" where
  "managed_suffixes_of m =
     (case m ''iparepltopomanagedsuffix_topologysuffix'' of Some (Some l) \<Rightarrow> l | _ \<Rightarrow> [])"

definition add_masters_to :: "entry list option \<Rightarrow> entry list \<Rightarrow> entry list option" where
  "add_masters_to old new = (if new = [] then old else Some (case old of None \<Rightarrow> new | Some l \<Rightarrow> l @ new))"

lemma append_to_suffixes_lookup:
  "map_of (append_to_suffixes d m ss) s = add_masters_to (map_of d s) (replicate (count_list ss s) m)"
  by (induction ss arbitrary: d)
    (auto simp: add_masters_to_def update_conv' replicate_app_Cons_same split: option.splits)

lemma add_masters_to_append [simp]:
  "add_masters_to (add_masters_to old xs) ys = add_masters_to old (xs @ ys)"
  by (simp add: add_masters_to_def split: option.split)

lemma map_masters_loop_lookup:
  "map_of (map_masters_loop d ms) s =
   add_masters_to (map_of d s) (concat (map (\<lambda>m. replicate (count_list (managed_suffixes_of m) s) m) ms))"
proof (induction ms arbitrary: d)
  case (Cons m ms)
  then show ?case
    by (auto simp: managed_suffixes_of_def append_to_suffixes_lookup split: option.splits)
qed (simp add: add_masters_to_def)

section \<open>Properties\<close>

definition sample_master :: "string \<Rightarrow> entry" where
  "sample_master cn =
     [''cn'' \<mapsto> Some [cn], ''iparepltopomanagedsuffix_topologysuffix'' \<mapsto> Some [''domain'']]"

definition sample_segment :: "string \<Rightarrow> string \<Rightarrow> string \<Rightarrow> entry" where
  "sample_segment direction left right = [''iparepltoposegmentdirection'' \<mapsto> Some [direction],
     ''iparepltoposegmentleftnode'' \<mapsto> Some [left], ''iparepltoposegmentrightnode'' \<mapsto> Some [right]]"

text \<open>Two masters, a segment from left to right, and one to a master that is gone.\<close>

definition sample_segments :: "entry list" where
  "sample_segments = [sample_segment ''left-right'' ''a'' ''b'', sample_segment ''both'' ''b'' ''gone'']"

text \<open>
  C16: from well-formed entries the topology graph is built without an error; its vertices are
  the masters and there is an edge from one master to another exactly when some segment
  replicates in that direction: from its left to its right node for left-right, from its right
  to its left node for right-left, both ways for both, and not at all otherwise.
\<close>

theorem create_topology_graph_correct:
  assumes "masters_ok masters" and "segments_ok segments"
  shows "\<exists>g. create_topology_graph masters segments = Inr g \<and> graph_ok g \<and>
    vertices g = master_cns masters \<and>
    set (edges g) = segment_pairs segments \<inter> master_cns masters \<times> master_cns masters"
  by (rule create_topology_graph_spec [OF assms])

theorem create_topology_graph_correct_witness:
  "masters_ok [sample_master ''a'', sample_master ''b''] \<and> segments_ok sample_segments \<and>
   (\<exists>g. create_topology_graph [sample_master ''a'', sample_master ''b''] sample_segments = Inr g \<and>
      vertices g = {''a'', ''b''} \<and> set (edges g) = {(''a'', ''b'')})"
proof -
  have ok: "masters_ok [sample_master ''a'', sample_master ''b'']" "segments_ok sample_segments"
    by (simp_all add: masters_ok_def master_cn_def sample_master_def entry_first_def
        segments_ok_def segment_ends_def sample_segments_def sample_segment_def)
  have "master_cns [sample_master ''a'', sample_master ''b''] = {''a'', ''b''}"
    by (auto simp: master_cns_def master_cn_def sample_master_def entry_first_def)
  moreover have "segment_pairs sample_segments =
      {(''a'', ''b''), (''b'', ''gone''), (''gone'', ''b'')}"
    by (auto simp: segment_pairs_def segment_ends_def sample_segments_def sample_segment_def
        entry_first_def replicates_def)
  ultimately show ?thesis using ok create_topology_graph_correct [OF ok] by auto
qed

text \<open>
  C2: the connectivity search over a well-formed topology graph returns, reports a master
  exactly when some other master cannot be reached from it, together with the masters it
  reaches and those it does not, and reports nothing exactly when every master reaches every
  other one.
\<close>

theorem topology_connection_errors_correct:
  assumes "set_iter_ok set_iter" and "graph_ok g" and "[] \<notin> vertices g"
  shows "\<exists>errs. get_topology_connection_errors set_iter g = Some (Inr errs) \<and>
    (errs = [] \<longleftrightarrow> strongly_connected g) \<and>
    (\<forall>m seen missed. (m, seen, missed) \<in> set errs \<longleftrightarrow>
       m \<in> vertices g \<and> seen = set_iter (reachable_from g m) \<and>
       missed = set_iter (vertices g - reachable_from g m) \<and> \<not> vertices g \<subseteq> reachable_from g m)"
proof -
  have "finite (vertices g)" using assms(2) by (simp add: graph_ok_def)
  then have "set (set_iter (vertices g)) = vertices g" by (rule set_iter_set [OF assms(1)])
  then show ?thesis
    using get_topology_connection_errors_spec [OF assms]
      connection_errors_spec_empty_iff [OF assms(1,2)]
    by (auto simp: connection_errors_spec_def master_error_def)
qed

theorem topology_connection_errors_correct_witness:
  "\<exists>errs. get_topology_connection_errors sorted_list_of_set two_node_graph = Some (Inr errs) \<and>
     (errs = [] \<longleftrightarrow> strongly_connected two_node_graph)"
  using topology_connection_errors_correct [OF set_iter_ok_sorted two_node_graph_ok] by auto

definition sample_topology :: topology_connectivity where
  "sample_topology = \<lparr>graphs = [(''domain'', two_node_graph)]\<rparr>"

lemma sample_topology_ok: "topology_ok sample_topology"
  by (simp add: topology_ok_def sample_topology_def two_node_graph_ok)

text \<open>
  C3: the check made before a master is removed leaves the topology as it was and returns;
  it passes exactly when, for every suffix, the remaining masters still reach one another
  without the removed one, and raises \<open>ValueError\<close> otherwise.
\<close>

theorem check_state_after_removal_correct:
  assumes "set_iter_ok set_iter" and "topology_ok tc"
  shows "\<exists>r. check_state_after_removal set_iter tc master = (Some r, tc) \<and>
    (r = Inr () \<longleftrightarrow>
       (\<forall>(s, g) \<in> set (graphs tc). strongly_connected (snd (remove_vertex g master)))) \<and>
    (r = Inr () \<or> (\<exists>msg. r = Inl (ValueError msg)))"
  using errors_after_master_removal_spec [OF assms, of master]
    errors_spec_none_iff [OF assms(1) topology_ok_drop_master [OF assms(2), of master]]
    removal_message_empty_iff [of master "errors_spec set_iter (drop_master tc master)"]
  by (simp add: check_state_after_removal_def Let_def drop_master_def case_prod_beta)

theorem check_state_after_removal_correct_witness:
  "\<exists>r. check_state_after_removal sorted_list_of_set sample_topology ''a'' = (Some r, sample_topology)"
  using check_state_after_removal_correct [OF set_iter_ok_sorted sample_topology_ok, of "''a''"]
  by blast

text \<open>
  C35: the check of the current topology returns, passes exactly when in every suffix all
  masters reach one another, and raises \<open>ValueError\<close> otherwise.
\<close>

theorem check_current_state_correct:
  assumes "set_iter_ok set_iter" and "topology_ok tc"
  shows "\<exists>r. check_current_state set_iter tc = Some r \<and>
    (r = Inr () \<longleftrightarrow> (\<forall>(s, g) \<in> set (graphs tc). strongly_connected g)) \<and>
    (r = Inr () \<or> (\<exists>msg. r = Inl (ValueError msg)))"
proof (cases "\<forall>p \<in> set (errors_spec set_iter tc). snd p = []")
  case True
  then show ?thesis
    using topology_errors_spec [OF assms] errors_spec_none_iff [OF assms] check_current_loop_ok
    by (simp add: check_current_state_def)
next
  case False
  then obtain msg where "check_current_loop [] (errors_spec set_iter tc) = Inl (ValueError msg)"
    using check_current_loop_err [of "errors_spec set_iter tc"] by blast
  with False show ?thesis
    using topology_errors_spec [OF assms] errors_spec_none_iff [OF assms]
    by (simp add: check_current_state_def)
qed

theorem check_current_state_correct_witness:
  "\<exists>r. check_current_state sorted_list_of_set sample_topology = Some r \<and>
     (r = Inr () \<longleftrightarrow> strongly_connected two_node_graph)"
  using check_current_state_correct [OF set_iter_ok_sorted sample_topology_ok]
  by (auto simp: sample_topology_def)

text \<open>
  grouping the masters by managed suffix gives, for each suffix, the masters that list it,
  in the order of the input (once per time they list it), and no entry for a suffix that no
  master lists; masters without the attribute, or with none set, are skipped.
\<close>

theorem map_masters_to_suffixes_lookup:
  "map_of (map_masters_to_suffixes masters) s =
     (let ms = concat (map (\<lambda>m. replicate (count_list (managed_suffixes_of m) s) m) masters)
      in if ms = [] then None else Some ms)"
  by (simp add: map_masters_to_suffixes_def map_masters_loop_lookup add_masters_to_def Let_def)

end
