(* ===== verification/Py_State.thy ===== *)
theory Py_State
  imports Py_Prelude
begin

text \<open>
  Statements over a mutable object: an action takes the object's state and returns its outcome
  (a value or an exception) with the state it leaves behind, so what a statement changed before
  it raised stays changed. A body of statements is a list of actions run in order up to the
  first exception. The locale \<open>act_relation\<close> lifts a reflexive and transitive relation between
  states before and after from the single statements to the whole body; the components
  interpret it with what their operations never undo.
\<close>

section \<open>Actions\<close>

type_synonym ('s, 'a) act = "'s \<Rightarrow> 'a res \<times> 's"

definition act_ret :: "'a \<Rightarrow> ('s, 'a) act" where
  "act_ret x = (\<lambda>s. (Inr x, s))"

definition act_raise :: "pyexc \<Rightarrow> ('s, 'a) act" where
  "act_raise e = (\<lambda>s. (Inl e, s))"

definition act_bind :: "('s, 'a) act \<Rightarrow> ('a \<Rightarrow> ('s, 'b) act) \<Rightarrow> ('s, 'b) act" where
  "act_bind m f = (\<lambda>s. case m s of (Inl e, s') \<Rightarrow> (Inl e, s') | (Inr x, s') \<Rightarrow> f x s')"

fun act_seq :: "('s, unit) act list \<Rightarrow> ('s, unit) act" where
  "act_seq [] = act_ret ()"
| "act_seq (a # as) = act_bind a (\<lambda>_. act_seq as)"

text \<open>A pure, possibly failing, reading of the state.\<close>

definition act_read :: "('s \<Rightarrow> 'a res) \<Rightarrow> ('s, 'a) act" where
  "act_read f = (\<lambda>s. (f s, s))"

definition act_if :: "('s \<Rightarrow> bool) \<Rightarrow> ('s, 'a) act \<Rightarrow> ('s, 'a) act \<Rightarrow> ('s, 'a) act" where
  "act_if c t e = (\<lambda>s. if c s then t s else e s)"

definition act_when :: "('s \<Rightarrow> bool) \<Rightarrow> ('s, unit) act \<Rightarrow> ('s, unit) act" where
  "act_when c t = act_if c t (act_ret ())"

lemmas act_defs = act_ret_def act_raise_def act_bind_def act_read_def act_if_def act_when_def

lemma act_bind_ret [simp]: "act_bind (act_ret x) f = f x"
  by (simp add: act_defs)

lemma act_bind_InrE:
  assumes "act_bind m f s = (Inr y, t)"
  obtains x u where "m s = (Inr x, u)" and "f x u = (Inr y, t)"
  using assms by (auto simp: act_bind_def split: prod.splits sum.splits)

lemma act_seq_append:
  "act_seq (as @ bs) = act_bind (act_seq as) (\<lambda>_. act_seq bs)"
  by (induction as) (auto simp: act_defs fun_eq_iff split: prod.splits sum.splits)

lemma act_seq_append_Inr:
  assumes "act_seq (as @ bs) s = (Inr (), t)"
  obtains u where "act_seq as s = (Inr (), u)" and "act_seq bs u = (Inr (), t)"
  using assms by (auto simp: act_seq_append act_bind_def split: prod.splits sum.splits)

lemma act_seq_Cons_Inr:
  assumes "act_seq (a # as) s = (Inr (), t)"
  obtains u where "a s = (Inr (), u)" and "act_seq as u = (Inr (), t)"
  using assms by (auto simp: act_bind_def split: prod.splits sum.splits)

section \<open>Relations kept by every statement\<close>

locale act_relation =
  fixes R :: "'s \<Rightarrow> 's \<Rightarrow> bool"
  assumes R_refl [simp]: "R s s"
    and R_trans: "R s t \<Longrightarrow> R t u \<Longrightarrow> R s u"
begin

definition keeps :: "('s, 'a) act \<Rightarrow> bool" where
  "keeps m \<longleftrightarrow> (\<forall>s. R s (snd (m s)))"

lemma keepsD: "keeps m \<Longrightarrow> m s = (r, t) \<Longrightarrow> R s t"
  by (metis keeps_def snd_conv)

lemma keepsI: "(\<And>s. R s (snd (m s))) \<Longrightarrow> keeps m"
  by (simp add: keeps_def)

lemma keeps_ret: "keeps (act_ret x)"
  and keeps_raise: "keeps (act_raise e)"
  and keeps_read: "keeps (act_read f)"
  by (simp_all add: keeps_def act_defs)

lemma keeps_if: "keeps t \<Longrightarrow> keeps e \<Longrightarrow> keeps (act_if c t e)"
  by (simp add: keeps_def act_defs)

lemma keeps_when: "keeps t \<Longrightarrow> keeps (act_when c t)"
  by (simp add: keeps_def act_defs)

lemma keeps_bind: "keeps m \<Longrightarrow> (\<And>x. keeps (f x)) \<Longrightarrow> keeps (act_bind m f)"
  unfolding keeps_def act_bind_def
  by (auto split: prod.splits sum.splits) (metis R_trans snd_conv)+

lemma keeps_seq_Nil: "keeps (act_seq [])"
  by (simp add: keeps_ret)

lemma keeps_seq_Cons: "keeps a \<Longrightarrow> keeps (act_seq as) \<Longrightarrow> keeps (act_seq (a # as))"
  by (simp add: keeps_bind)

lemmas keeps_intros = keeps_ret keeps_raise keeps_read keeps_if keeps_when keeps_bind
  keeps_seq_Nil keeps_seq_Cons

end

section \<open>Exceptions a statement can raise\<close>

definition raises_only :: "(pyexc \<Rightarrow> bool) \<Rightarrow> ('s, 'a) act \<Rightarrow> bool" where
  "raises_only P m \<longleftrightarrow> (\<forall>s x. fst (m s) = Inl x \<longrightarrow> P x)"

lemma raises_onlyD: "raises_only P m \<Longrightarrow> m s = (Inl x, t) \<Longrightarrow> P x"
  by (metis fst_conv raises_only_def)

lemma raises_ret: "raises_only P (act_ret x)"
  and raises_raise: "P e \<Longrightarrow> raises_only P (act_raise e)"
  and raises_read: "(\<And>s x. f s = Inl x \<Longrightarrow> P x) \<Longrightarrow> raises_only P (act_read f)"
  by (simp_all add: raises_only_def act_defs)

lemma raises_bind:
  "raises_only P m \<Longrightarrow> (\<And>x. raises_only P (f x)) \<Longrightarrow> raises_only P (act_bind m f)"
  unfolding raises_only_def act_bind_def
  by (auto split: prod.splits sum.splits) (metis fst_conv)+

lemma raises_seq: "(\<And>a. a \<in> set as \<Longrightarrow> raises_only P a) \<Longrightarrow> raises_only P (act_seq as)"
  by (induction as) (auto intro: raises_ret raises_bind)

lemmas raises_intros = raises_ret raises_raise raises_read raises_bind raises_seq

end
