(* ===== verification/Base_NameSpace.thy ===== *)
theory Base_NameSpace
  imports Py_State
begin

text \<open>
  \<^verbatim>\<open>src/ipalib/base.py\<close>: the lockable objects (\<open>ReadOnly\<close>, \<open>lock\<close>, \<open>islocked\<close>), the
  member-name check (\<open>check_name\<close> with \<open>constants.NAME_REGEX\<close>) and the ordered, read-only
  \<open>NameSpace\<close> in which plugins, commands, parameters and objects are kept.

  A member is a pair of its name (the value of the name attribute) and the object. The class
  attributes of a \<open>NameSpace\<close> all start with an underscore, so the assertion that a member
  name is not yet an attribute can only fail for a name that the duplicate check rejects.
\<close>

section \<open>ReadOnly\<close>

record 'v readonly =
  locked :: bool
  attrs :: "string \<rightharpoonup> 'v"

definition ReadOnly_init :: "'v readonly" where
  "ReadOnly_init = \<lparr>locked = False, attrs = Map.empty\<rparr>"

definition ro_lock :: "('v readonly, unit) act" where
  "ro_lock = (\<lambda>obj.
     if locked obj then (Inl (AssertionError ''__lock__() can only be called once''), obj)
     else (Inr (), obj\<lparr>locked := True\<rparr>))"

definition ro_setattr :: "string \<Rightarrow> 'v \<Rightarrow> ('v readonly, unit) act" where
  "ro_setattr name value = (\<lambda>obj.
     if locked obj then (Inl (AttributeError ''locked: cannot set %s.%s to %r''), obj)
     else (Inr (), obj\<lparr>attrs := (attrs obj)(name \<mapsto> value)\<rparr>))"

definition ro_delattr :: "string \<Rightarrow> ('v readonly, unit) act" where
  "ro_delattr name = (\<lambda>obj.
     if locked obj then (Inl (AttributeError ''locked: cannot delete %s.%s''), obj)
     else if attrs obj name = None then (Inl (AttributeError name), obj)
     else (Inr (), obj\<lparr>attrs := (attrs obj)(name := None)\<rparr>))"

definition lock :: "('v readonly, unit) act" where
  "lock = (\<lambda>obj.
     if locked obj then (Inl (AssertionError ''already locked: %r''), obj)
     else (case ro_lock obj of
             (Inr _, o') \<Rightarrow>
               if locked o' then (Inr (), o') else (Inl (AssertionError ''failed to lock: %r''), o')
           | r \<Rightarrow> r))"

definition islocked :: "'v readonly \<Rightarrow> bool" where
  "islocked obj = locked obj"

section \<open>check_name\<close>

definition is_lower_az :: "char \<Rightarrow> bool" where
  "is_lower_az c \<longleftrightarrow> c \<in> set ''abcdefghijklmnopqrstuvwxyz''"

text \<open>
  \<open>^[a-z][_a-z0-9]*[a-z0-9]$|^[a-z]$\<close>; the anchor \<open>$\<close> also matches before a final newline.
\<close>

definition name_core :: "string \<Rightarrow> bool" where
  "name_core s \<longleftrightarrow>
     (case s of
        [] \<Rightarrow> False
      | [c] \<Rightarrow> is_lower_az c
      | c # cs \<Rightarrow>
          is_lower_az c \<and>
          list_all (\<lambda>x. x = CHR ''_'' \<or> is_lower_az x \<or> is_ascii_digit x) (butlast cs) \<and>
          (is_lower_az (last cs) \<or> is_ascii_digit (last cs)))"

definition NAME_REGEX :: "string \<Rightarrow> bool" where
  "NAME_REGEX s \<longleftrightarrow> name_core s \<or> (s \<noteq> [] \<and> last s = CHR 0x0A \<and> name_core (butlast s))"

text \<open>A name given as something else than a \<open>str\<close> is \<open>None\<close> here.\<close>

definition check_name :: "string option \<Rightarrow> string res" where
  "check_name name =
     (case name of
        None \<Rightarrow> Inl (TypeError ''%s: need a %r; got %r (a %r)'')
      | Some s \<Rightarrow>
          if \<not> NAME_REGEX s then Inl (ValueError ''name must match %s; got %s'') else Inr s)"

section \<open>NameSpace\<close>

record 'm namespace =
  ns_sort :: bool
  ns_members :: "(string \<times> 'm) list"
  ns_names :: "string list"
  ns_map :: "(string \<times> 'm) list"
  ns_object :: "(string \<times> 'm) readonly"

text \<open>The loop over the members: check the name, refuse a duplicate, store and set.\<close>

fun ns_fill ::
  "(string \<times> 'm) list \<Rightarrow> (string \<times> 'm) readonly \<Rightarrow> (string \<times> 'm) list
    \<Rightarrow> ((string \<times> 'm) list \<times> (string \<times> 'm) readonly) res" where
  "ns_fill mp ob [] = Inr (mp, ob)"
| "ns_fill mp ob (m # ms) =
     rbind (check_name (Some (fst m))) (\<lambda>name.
       if name \<in> fst ` set mp then Inl (AttributeError ''cannot override %s.%s value %r with %r'')
       else if attrs ob name \<noteq> None then Inl (AssertionError ''Ouch! Has attribute %r'')
       else (case ro_setattr name m ob of
               (Inl e, _) \<Rightarrow> Inl e
             | (Inr _, ob') \<Rightarrow> ns_fill (mp @ [(name, snd m)]) ob' ms))"

definition NameSpace_init :: "(string \<times> 'm) list \<Rightarrow> bool option \<Rightarrow> 'm namespace res" where
  "NameSpace_init members sort_arg =
     (case sort_arg of
        None \<Rightarrow> Inl (TypeError ''%s: need a %r; got %r (a %r)'')
      | Some srt \<Rightarrow>
          let ms = (if srt then sort_key fst members else members) in
          rbind (ns_fill [] ReadOnly_init ms) (\<lambda>(mp, ob).
            case lock ob of
              (Inl e, _) \<Rightarrow> Inl e
            | (Inr _, ob') \<Rightarrow>
                Inr \<lparr>ns_sort = srt, ns_members = ms, ns_names = map fst ms, ns_map = mp,
                     ns_object = ob'\<rparr>))"

definition ns_len :: "'m namespace \<Rightarrow> nat" where
  "ns_len ns = length (ns_members ns)"

definition ns_iter :: "'m namespace \<Rightarrow> string list" where
  "ns_iter ns = ns_names ns"

definition ns_call :: "'m namespace \<Rightarrow> 'm list" where
  "ns_call ns = map snd (ns_members ns)"

text \<open>An index: a string, an object with a \<open>__name__\<close>, an integer, a slice, or anything else.\<close>

datatype ns_key = NKStr string | NKNamed string | NKInt int | NKSlice "int option" "int option" | NKOther

definition ns_key_name :: "ns_key \<Rightarrow> string option" where
  "ns_key_name k = (case k of NKStr s \<Rightarrow> Some s | NKNamed s \<Rightarrow> Some s | _ \<Rightarrow> None)"

definition ns_contains :: "'m namespace \<Rightarrow> ns_key \<Rightarrow> bool" where
  "ns_contains ns k =
     (case ns_key_name k of Some s \<Rightarrow> s \<in> fst ` set (ns_map ns) | None \<Rightarrow> False)"

datatype 'm ns_item = OneMember 'm | Members "'m list"

definition ns_getitem :: "'m namespace \<Rightarrow> ns_key \<Rightarrow> 'm ns_item res" where
  "ns_getitem ns k =
     (case ns_key_name k of
        Some s \<Rightarrow>
          (case map_of (ns_map ns) s of Some m \<Rightarrow> Inr (OneMember m) | None \<Rightarrow> Inl (KeyError s))
      | None \<Rightarrow>
          (case k of
             NKInt i \<Rightarrow> rbind (py_nth (ns_call ns) i) (\<lambda>m. Inr (OneMember m))
           | NKSlice i j \<Rightarrow> Inr (Members (py_slice (ns_call ns) i j))
           | _ \<Rightarrow> Inl (TypeError ''%s: need a %r; got %r (a %r)'')))"

definition ns_todict :: "'m namespace \<Rightarrow> (string \<times> 'm) list" where
  "ns_todict ns = ns_map ns"

section \<open>Lemmas\<close>

text \<open>A locked object is never changed again.\<close>

definition ro_rel :: "'v readonly \<Rightarrow> 'v readonly \<Rightarrow> bool" where
  "ro_rel obj o' \<longleftrightarrow> (locked obj \<longrightarrow> o' = obj)"

interpretation ro: act_relation "ro_rel :: 'v readonly \<Rightarrow> 'v readonly \<Rightarrow> bool"
  by unfold_locales (auto simp: ro_rel_def)

lemma ro_keeps:
  "ro.keeps ro_lock" "ro.keeps (ro_setattr n v)" "ro.keeps (ro_delattr n)" "ro.keeps lock"
  by (auto simp: ro.keeps_def ro_rel_def ro_lock_def ro_setattr_def ro_delattr_def lock_def)

lemma lock_unlocked: "\<not> locked obj \<Longrightarrow> lock obj = (Inr (), obj\<lparr>locked := True\<rparr>)"
  by (simp add: lock_def ro_lock_def)

text \<open>The members stored so far, as dictionary and as attributes.\<close>

definition ns_stored :: "(string \<times> 'm) list \<Rightarrow> (string \<times> 'm) readonly \<Rightarrow> bool" where
  "ns_stored mp ob \<longleftrightarrow>
     \<not> locked ob \<and> (\<forall>n. attrs ob n = map_option (Pair n) (map_of mp n))"

lemma ns_stored_snoc:
  assumes "ns_stored mp ob" and "n \<notin> fst ` set mp"
  shows "ns_stored (mp @ [(n, m)]) (ob\<lparr>attrs := (attrs ob)(n \<mapsto> (n, m))\<rparr>)"
proof -
  have "map_of mp n = None" using assms(2) by (simp add: map_of_eq_None_iff)
  with assms(1) show ?thesis by (auto simp: ns_stored_def map_add_def split: option.split)
qed

lemma ns_fill_cases:
  assumes "ns_stored mp ob"
  shows "case ns_fill mp ob ms of
      Inr (mp', ob') \<Rightarrow>
        mp' = mp @ ms \<and> ns_stored mp' ob' \<and> list_all (\<lambda>m. NAME_REGEX (fst m)) ms \<and>
        distinct (map fst ms) \<and> fst ` set mp \<inter> fst ` set ms = {}
    | Inl (ValueError _) \<Rightarrow> \<not> list_all (\<lambda>m. NAME_REGEX (fst m)) ms
    | Inl (AttributeError _) \<Rightarrow> \<not> (distinct (map fst ms) \<and> fst ` set mp \<inter> fst ` set ms = {})
    | Inl _ \<Rightarrow> False"
  using assms
proof (induction ms arbitrary: mp ob)
  case (Cons m ms)
  obtain n x where m: "m = (n, x)" by (cases m)
  show ?case
  proof (cases "NAME_REGEX n \<and> n \<notin> fst ` set mp")
    case True
    let ?ob = "ob\<lparr>attrs := (attrs ob)(n \<mapsto> (n, x))\<rparr>"
    have "map_of mp n = None" using True by (simp add: map_of_eq_None_iff)
    then have "attrs ob n = None" "\<not> locked ob" using Cons.prems by (simp_all add: ns_stored_def)
    then have "ns_fill mp ob (m # ms) = ns_fill (mp @ [(n, x)]) ?ob ms"
      using True by (simp add: m check_name_def ro_setattr_def)
    with Cons.IH [OF ns_stored_snoc [OF Cons.prems, of n x]] True show ?thesis
      by (auto simp: m split: sum.splits pyexc.splits)
  next
    case False
    then show ?thesis by (auto simp: m check_name_def)
  qed
qed simp

lemma distinct_map_sort_key [simp]:
  "distinct (map f (sort_key g xs)) \<longleftrightarrow> distinct (map f xs)"
  by (rule mset_eq_imp_distinct_iff) simp

lemma ns_stored_init: "ns_stored [] ReadOnly_init"
  by (simp add: ns_stored_def ReadOnly_init_def)

lemma NameSpace_init_ok:
  assumes "list_all (\<lambda>m. NAME_REGEX (fst m)) members" and "distinct (map fst members)"
  shows "\<exists>ns. NameSpace_init members (Some srt) = Inr ns \<and>
    ns_members ns = (if srt then sort_key fst members else members) \<and>
    ns_names ns = map fst (ns_members ns) \<and> ns_map ns = ns_members ns \<and>
    locked (ns_object ns) \<and> (\<forall>n. attrs (ns_object ns) n = map_option (Pair n) (map_of members n))"
proof -
  let ?ms = "if srt then sort_key fst members else members"
  have "set ?ms = set members" by auto
  with assms have ok: "list_all (\<lambda>m. NAME_REGEX (fst m)) ?ms" "distinct (map fst ?ms)"
    by (simp_all add: list_all_iff)
  obtain ob where ob: "ns_fill [] ReadOnly_init ?ms = Inr (?ms, ob)" "ns_stored ?ms ob"
    using ns_fill_cases [OF ns_stored_init, of ?ms] ok
    by (auto split: sum.splits pyexc.splits)
  have "map_of ?ms = map_of members"
    using assms(2) ok(2) \<open>set ?ms = set members\<close> by (intro map_of_eqI) auto
  with ob show ?thesis
    by (auto simp: NameSpace_init_def Let_def lock_unlocked ns_stored_def)
qed

section \<open>Properties\<close>

text \<open>
  An object that has been locked keeps every attribute: setting or deleting one, and
  locking again, raise and leave the object as it was; locking an unlocked object succeeds.
\<close>

theorem locked_object_is_immutable:
  "(locked obj \<longrightarrow>
      ro_setattr n v obj = (Inl (AttributeError ''locked: cannot set %s.%s to %r''), obj) \<and>
      ro_delattr n obj = (Inl (AttributeError ''locked: cannot delete %s.%s''), obj) \<and>
      lock obj = (Inl (AssertionError ''already locked: %r''), obj)) \<and>
   (\<not> locked obj \<longrightarrow> lock obj = (Inr (), obj\<lparr>locked := True\<rparr>))"
  by (simp add: ro_setattr_def ro_delattr_def lock_def ro_lock_def)

theorem locked_object_is_immutable_witness:
  "ro_setattr ''a'' (1 :: int) \<lparr>locked = True, attrs = Map.empty\<rparr> =
     (Inl (AttributeError ''locked: cannot set %s.%s to %r''), \<lparr>locked = True, attrs = Map.empty\<rparr>)"
  using locked_object_is_immutable [of "\<lparr>locked = True, attrs = Map.empty\<rparr>" "''a''" "1 :: int"] by simp

text \<open>
  C36: a name space is built exactly when all member names are valid and pairwise different;
  otherwise the constructor raises \<open>ValueError\<close> (an invalid name) or \<open>AttributeError\<close> (a
  duplicate). The built name space is locked, iterates over its names in alphabetical order
  (or in the given order with \<open>sort=False\<close>), and every member is found by its name, as an
  item and as an attribute.
\<close>

theorem namespace_construction_correct:
  "case NameSpace_init members (Some srt) of
     Inr ns \<Rightarrow>
       list_all (\<lambda>m. NAME_REGEX (fst m)) members \<and> distinct (map fst members) \<and>
       islocked (ns_object ns) \<and> ns_len ns = length members \<and>
       ns_iter ns = (if srt then sort (map fst members) else map fst members) \<and>
       (\<forall>n m. (n, m) \<in> set members \<longleftrightarrow> ns_getitem ns (NKStr n) = Inr (OneMember m)) \<and>
       (\<forall>n. ns_contains ns (NKStr n) \<longleftrightarrow> n \<in> fst ` set members) \<and>
       (\<forall>n m. attrs (ns_object ns) n = Some (n, m) \<longleftrightarrow> (n, m) \<in> set members)
   | Inl (ValueError _) \<Rightarrow> \<not> list_all (\<lambda>m. NAME_REGEX (fst m)) members
   | Inl (AttributeError _) \<Rightarrow> \<not> distinct (map fst members)
   | Inl _ \<Rightarrow> False"
proof (cases "list_all (\<lambda>m. NAME_REGEX (fst m)) members \<and> distinct (map fst members)")
  case True
  let ?ms = "if srt then sort_key fst members else members"
  obtain ns where ns: "NameSpace_init members (Some srt) = Inr ns" "ns_members ns = ?ms"
      "ns_names ns = map fst ?ms" "ns_map ns = ?ms" "locked (ns_object ns)"
      "\<And>n. attrs (ns_object ns) n = map_option (Pair n) (map_of members n)"
    using NameSpace_init_ok [of members srt] True by auto
  have perm: "set ?ms = set members" "length ?ms = length members" by auto
  have "distinct (map fst ?ms)" using True by simp
  then have "map_of ?ms n = Some m \<longleftrightarrow> (n, m) \<in> set members" for n m
    using perm(1) by (metis map_of_eq_Some_iff)
  moreover have "map fst ?ms = (if srt then sort (map fst members) else map fst members)"
    by (auto intro!: properties_for_sort [symmetric])
  moreover have "map_of members n = Some m \<longleftrightarrow> (n, m) \<in> set members" for n m
    using True by (simp add: map_of_eq_Some_iff)
  ultimately show ?thesis
    using True ns perm
    by (auto simp: islocked_def ns_len_def ns_iter_def ns_getitem_def ns_key_name_def
        ns_contains_def image_iff split: option.splits dest: eq_key_imp_eq_value)
next
  case False
  let ?ms = "if srt then sort_key fst members else members"
  have "set ?ms = set members" by auto
  then have same: "list_all (\<lambda>m. NAME_REGEX (fst m)) ?ms = list_all (\<lambda>m. NAME_REGEX (fst m)) members"
    "distinct (map fst ?ms) = distinct (map fst members)"
    by (simp_all add: list_all_iff)
  then obtain e where e: "ns_fill [] ReadOnly_init ?ms = Inl e"
    using ns_fill_cases [OF ns_stored_init, of ?ms] False by (auto split: sum.splits)
  then have "NameSpace_init members (Some srt) = Inl e"
    by (simp add: NameSpace_init_def Let_def)
  with e same show ?thesis
    using ns_fill_cases [OF ns_stored_init, of ?ms] by (auto split: pyexc.splits)
qed

end
