(* ===== verification/DN_Names.thy ===== *)
theory DN_Names
  imports Py_Prelude
begin

text \<open>
  LDAP distinguished names, \<^verbatim>\<open>src/ipapython/dn.py\<close>: attribute value assertions (\<open>AVA\<close>),
  relative distinguished names (\<open>RDN\<close>) and distinguished names (\<open>DN\<close>) in the raw
  OpenLDAP form the classes keep, their constructors on every kind of argument, indexing,
  comparison, hashing, concatenation and the substring-like searches.

  Python's dynamically typed arguments are the datatype \<open>dn_arg\<close>. The DN parser and printer
  of python-ldap (\<open>str2dn\<close>, \<open>dn2str\<close>) and the built-in string hash are parameters.
  A parsed value is a string (the model has no \<open>None\<close> value).
\<close>

section \<open>Data\<close>

text \<open>Attribute, value and flags: \<open>[attr, value, flags]\<close>.\<close>

type_synonym raw_ava = "string \<times> string \<times> int"
type_synonym raw_rdn = "raw_ava list"
type_synonym raw_dn = "raw_rdn list"

text \<open>A scalar given for an attribute or a value; \<open>IObj s\<close> is an object whose \<open>str()\<close> is \<open>s\<close>.\<close>

datatype ava_input = IStr string | IBytes | IObj string

text \<open>
  Object identifiers of an X.509 name: a \<open>NameOID\<close> constant by its name, or one written
  with its dotted string.
\<close>

datatype oid = NameOID string | ObjectIdentifier string

datatype dn_arg =
    AStr string
  | ABytes
  | ASeq "ava_input list"
  | AAVA raw_ava
  | ARDN raw_rdn
  | ADN raw_dn
  | AName "(oid \<times> ava_input) list list"
  | AOther

text \<open>The argument lists \<open>get_ava\<close> distinguishes by their length.\<close>

datatype ava_args =
    Args3 string string int
  | Args2 ava_input ava_input
  | Args1 dn_arg
  | ArgsN

datatype index_key = KInt int | KSlice "int option" "int option" | KStr string | KOther

section \<open>Helpers\<close>

definition adjust_indices :: "int \<Rightarrow> int \<Rightarrow> int \<Rightarrow> int \<times> int" where
  "adjust_indices start stop len =
     (let stop = (if stop > len then len
                  else if stop < 0 then (let e = stop + len in if e < 0 then 0 else e)
                  else stop);
          start = (if start < 0 then (let s = start + len in if s < 0 then 0 else s) else start)
      in (start, stop))"

definition normalize_ava_input :: "ava_input \<Rightarrow> string res" where
  "normalize_ava_input val =
     (case val of
        IBytes \<Rightarrow> Inl (TypeError ''expected str, got bytes: %r'')
      | IObj s \<Rightarrow> Inr s
      | IStr s \<Rightarrow> Inr s)"

definition str2rdn :: "(string \<Rightarrow> raw_dn option) \<Rightarrow> string \<Rightarrow> raw_rdn res" where
  "str2rdn str2dn value =
     (case str2dn value of
        None \<Rightarrow> Inl (ValueError ''malformed AVA string'')
      | Some rdns \<Rightarrow>
          if length rdns \<noteq> 1 then Inl (ValueError ''multiple RDN's specified by'')
          else py_nth rdns 0)"

definition get_ava :: "(string \<Rightarrow> raw_dn option) \<Rightarrow> ava_args \<Rightarrow> raw_ava res" where
  "get_ava str2dn args =
     (case args of
        Args3 a v f \<Rightarrow> Inr (a, v, f)
      | Args2 a v \<Rightarrow>
          rbind (normalize_ava_input a) (\<lambda>a. rbind (normalize_ava_input v) (\<lambda>v. Inr (a, v, 0)))
      | Args1 arg \<Rightarrow>
          (case arg of
             AAVA ava \<Rightarrow> Inr ava
           | ASeq l \<Rightarrow>
               (case l of
                  [a, v] \<Rightarrow>
                    rbind (normalize_ava_input a) (\<lambda>a.
                    rbind (normalize_ava_input v) (\<lambda>v. Inr (a, v, 0)))
                | _ \<Rightarrow> Inl (ValueError ''tuple or list must be 2-valued, not''))
           | AStr s \<Rightarrow>
               rbind (str2rdn str2dn s) (\<lambda>rdn.
                 if length rdn > 1 then Inl (TypeError ''multiple AVA's specified by'')
                 else py_nth rdn 0)
           | _ \<Rightarrow> Inl (TypeError
               ''with 1 argument, argument must be str, unicode, tuple or list, got %s instead''))
      | ArgsN \<Rightarrow> Inl (TypeError ''invalid number of arguments. 1-3 allowed''))"

definition ava_key :: "raw_ava \<Rightarrow> string \<times> string" where
  "ava_key ava = (py_lower (fst ava), py_lower (fst (snd ava)))"

definition sort_avas :: "raw_rdn \<Rightarrow> raw_rdn" where
  "sort_avas rdn = (if length rdn \<le> 1 then rdn else sort_key ava_key rdn)"

definition rdn_key :: "raw_rdn \<Rightarrow> nat \<times> (string \<times> string) list" where
  "rdn_key rdn = (length rdn, map ava_key rdn)"

definition cmp_rdns :: "raw_rdn \<Rightarrow> raw_rdn \<Rightarrow> int" where
  "cmp_rdns a b =
     (let key_a = rdn_key a; key_b = rdn_key b in
      if key_a = key_b then 0 else if key_a < key_b then -1 else 1)"

section \<open>AVA\<close>

definition AVA_init :: "(string \<Rightarrow> raw_dn option) \<Rightarrow> ava_args \<Rightarrow> raw_ava res" where
  "AVA_init str2dn args = get_ava str2dn args"

definition AVA_str :: "(raw_dn \<Rightarrow> string) \<Rightarrow> raw_ava \<Rightarrow> string" where
  "AVA_str dn2str ava = dn2str [[ava]]"

definition AVA_getitem :: "raw_ava \<Rightarrow> index_key \<Rightarrow> string res" where
  "AVA_getitem ava key =
     (case ava of (attr, value, _) \<Rightarrow>
        if key = KInt 0 then Inr attr
        else if key = KInt 1 then Inr value
        else if key = KStr attr then Inr value
        else Inl (KeyError '' not found in ''))"

definition AVA_hash :: "(string \<Rightarrow> int) \<Rightarrow> (raw_dn \<Rightarrow> string) \<Rightarrow> raw_ava \<Rightarrow> int" where
  "AVA_hash hash dn2str ava = hash (py_lower (AVA_str dn2str ava))"

definition AVA_eq :: "(string \<Rightarrow> raw_dn option) \<Rightarrow> raw_ava \<Rightarrow> dn_arg \<Rightarrow> bool" where
  "AVA_eq str2dn ava other =
     (case other of
        AStr s \<Rightarrow>
          (case AVA_init str2dn (Args1 (AStr s)) of
             Inl _ \<Rightarrow> False
           | Inr other_ava \<Rightarrow> ava_key ava = ava_key other_ava)
      | AAVA other_ava \<Rightarrow> ava_key ava = ava_key other_ava
      | _ \<Rightarrow> False)"

definition AVA_lt :: "raw_ava \<Rightarrow> dn_arg \<Rightarrow> bool res" where
  "AVA_lt ava other =
     (case other of
        AAVA other_ava \<Rightarrow> Inr (ava_key ava < ava_key other_ava)
      | _ \<Rightarrow> Inl (TypeError ''expected AVA but got %s''))"

section \<open>RDN\<close>

definition RDN_init :: "(string \<Rightarrow> raw_dn option) \<Rightarrow> dn_arg list \<Rightarrow> raw_rdn res" where
  "RDN_init str2dn args =
     (case args of
        [AStr s] \<Rightarrow> rbind (str2rdn str2dn s) (\<lambda>avas. Inr (sort_avas avas))
      | [ARDN rdn] \<Rightarrow> Inr rdn
      | [] \<Rightarrow> Inr []
      | _ \<Rightarrow> rbind (rmap (\<lambda>arg. get_ava str2dn (Args1 arg)) args) (\<lambda>avas. Inr (sort_avas avas)))"

definition RDN_str :: "(raw_dn \<Rightarrow> string) \<Rightarrow> raw_rdn \<Rightarrow> string" where
  "RDN_str dn2str rdn = dn2str [rdn]"

datatype rdn_item = ItemAVA raw_ava | ItemAVAs "raw_ava list" | ItemValue string

definition RDN_getitem :: "raw_rdn \<Rightarrow> index_key \<Rightarrow> rdn_item res" where
  "RDN_getitem rdn key =
     (case key of
        KInt i \<Rightarrow> rbind (py_nth rdn i) (\<lambda>ava. Inr (ItemAVA ava))
      | KSlice i j \<Rightarrow> Inr (ItemAVAs (py_slice rdn i j))
      | KStr k \<Rightarrow>
          (case find (\<lambda>ava. k = fst ava) rdn of
             Some ava \<Rightarrow> Inr (ItemValue (fst (snd ava)))
           | None \<Rightarrow> Inl (KeyError '' not found in ''))
      | KOther \<Rightarrow> Inl (TypeError ''unsupported type for RDN indexing''))"

definition RDN_attr :: "raw_rdn \<Rightarrow> string res" where
  "RDN_attr rdn =
     (if length rdn = 0 then Inl (IndexError ''No AVA's in this RDN'')
      else Inr (fst (rdn ! 0)))"

definition RDN_value :: "raw_rdn \<Rightarrow> string res" where
  "RDN_value rdn =
     (if length rdn = 0 then Inl (IndexError ''No AVA's in this RDN'')
      else Inr (fst (snd (rdn ! 0))))"

definition RDN_hash :: "(string \<Rightarrow> int) \<Rightarrow> (raw_dn \<Rightarrow> string) \<Rightarrow> raw_rdn \<Rightarrow> int" where
  "RDN_hash hash dn2str rdn = hash (py_lower (RDN_str dn2str rdn))"

definition RDN_eq :: "(string \<Rightarrow> raw_dn option) \<Rightarrow> raw_rdn \<Rightarrow> dn_arg \<Rightarrow> bool" where
  "RDN_eq str2dn rdn other =
     (case other of
        AStr s \<Rightarrow>
          (case RDN_init str2dn [AStr s] of
             Inl _ \<Rightarrow> False
           | Inr other_rdn \<Rightarrow> rdn_key rdn = rdn_key other_rdn)
      | ARDN other_rdn \<Rightarrow> rdn_key rdn = rdn_key other_rdn
      | _ \<Rightarrow> False)"

definition RDN_lt :: "raw_rdn \<Rightarrow> dn_arg \<Rightarrow> bool res" where
  "RDN_lt rdn other =
     (case other of
        ARDN other_rdn \<Rightarrow> Inr (rdn_key rdn < rdn_key other_rdn)
      | _ \<Rightarrow> Inl (TypeError ''expected RDN but got %s''))"

definition RDN_add :: "(string \<Rightarrow> raw_dn option) \<Rightarrow> raw_rdn \<Rightarrow> dn_arg \<Rightarrow> raw_rdn res" where
  "RDN_add str2dn rdn other =
     rbind (RDN_init str2dn [ARDN rdn]) (\<lambda>result.
     rbind (case other of
              ARDN o_rdn \<Rightarrow> Inr (result @ o_rdn)
            | AAVA ava \<Rightarrow> Inr (result @ [ava])
            | AStr s \<Rightarrow> rbind (RDN_init str2dn [AStr s]) (\<lambda>o_rdn. Inr (result @ o_rdn))
            | _ \<Rightarrow> Inl (TypeError ''expected RDN, AVA or basestring but got %s''))
       (\<lambda>result. Inr (sort_avas result)))"

section \<open>DN: construction and access\<close>

definition ATTR_NAME_BY_OID :: "oid \<Rightarrow> string option" where
  "ATTR_NAME_BY_OID = map_of
     [(NameOID ''COMMON_NAME'', ''CN''),
      (NameOID ''COUNTRY_NAME'', ''C''),
      (NameOID ''LOCALITY_NAME'', ''L''),
      (NameOID ''STATE_OR_PROVINCE_NAME'', ''ST''),
      (NameOID ''ORGANIZATION_NAME'', ''O''),
      (NameOID ''ORGANIZATIONAL_UNIT_NAME'', ''OU''),
      (NameOID ''SERIAL_NUMBER'', ''serialNumber''),
      (NameOID ''SURNAME'', ''SN''),
      (NameOID ''GIVEN_NAME'', ''givenName''),
      (NameOID ''TITLE'', ''title''),
      (NameOID ''GENERATION_QUALIFIER'', ''generationQualifier''),
      (NameOID ''DN_QUALIFIER'', ''dnQualifier''),
      (NameOID ''PSEUDONYM'', ''pseudonym''),
      (NameOID ''DOMAIN_COMPONENT'', ''DC''),
      (NameOID ''EMAIL_ADDRESS'', ''E''),
      (NameOID ''JURISDICTION_COUNTRY_NAME'', ''incorporationCountry''),
      (NameOID ''JURISDICTION_LOCALITY_NAME'', ''incorporationLocality''),
      (NameOID ''JURISDICTION_STATE_OR_PROVINCE_NAME'', ''incorporationState''),
      (NameOID ''BUSINESS_CATEGORY'', ''businessCategory''),
      (ObjectIdentifier ''2.5.4.9'', ''STREET''),
      (ObjectIdentifier ''2.5.4.17'', ''postalCode''),
      (ObjectIdentifier ''0.9.2342.19200300.100.1.1'', ''UID''),
      (ObjectIdentifier ''2.5.4.97'', ''organizationIdentifier'')]"

text \<open>
  What the DN constructor takes from outside: the parser of python-ldap and the
  \<open>dotted_string\<close> of an object identifier of the \<open>cryptography\<close> package.
\<close>

record dn_lib =
  lib_str2dn :: "string \<Rightarrow> raw_dn option"
  lib_dotted :: "oid \<Rightarrow> string"

definition name_ava :: "dn_lib \<Rightarrow> oid \<times> ava_input \<Rightarrow> raw_ava res" where
  "name_ava lib ava =
     (case ava of (o_id, value) \<Rightarrow>
        get_ava (lib_str2dn lib)
          (Args2 (IStr (case ATTR_NAME_BY_OID o_id of
                          Some nm \<Rightarrow> nm | None \<Rightarrow> lib_dotted lib o_id)) value))"

definition rdns_from_value :: "dn_lib \<Rightarrow> dn_arg \<Rightarrow> raw_dn res" where
  "rdns_from_value lib value =
     (case value of
        AStr s \<Rightarrow>
          (case lib_str2dn lib s of
             None \<Rightarrow> Inl (ValueError ''malformed RDN string'')
           | Some rdns \<Rightarrow> Inr (map sort_avas rdns))
      | ADN rdns \<Rightarrow> Inr rdns
      | ASeq l \<Rightarrow> rbind (get_ava (lib_str2dn lib) (Args1 (ASeq l))) (\<lambda>ava. Inr [[ava]])
      | AAVA a \<Rightarrow> rbind (get_ava (lib_str2dn lib) (Args1 (AAVA a))) (\<lambda>ava. Inr [[ava]])
      | ARDN rdn \<Rightarrow> Inr [rdn]
      | AName rdns \<Rightarrow>
          rbind (rmap (rmap (name_ava lib)) rdns) (\<lambda>rdns. Inr (map sort_avas (rev rdns)))
      | _ \<Rightarrow> Inl (TypeError ''must be str, unicode, tuple, Name, RDN or DN, got %s instead''))"

definition rdns_from_sequence :: "dn_lib \<Rightarrow> dn_arg list \<Rightarrow> raw_dn res" where
  "rdns_from_sequence lib sq = rbind (rmap (rdns_from_value lib) sq) (\<lambda>rs. Inr (concat rs))"

definition DN_init :: "dn_lib \<Rightarrow> dn_arg list \<Rightarrow> raw_dn res" where
  "DN_init lib args = rdns_from_sequence lib args"

definition ldap_text :: "(raw_dn \<Rightarrow> string) \<Rightarrow> raw_dn \<Rightarrow> string" where
  "ldap_text dn2str d = dn2str d"

definition x500_text :: "(raw_dn \<Rightarrow> string) \<Rightarrow> raw_dn \<Rightarrow> string" where
  "x500_text dn2str d = dn2str (rev d)"

datatype dn_item = ItemRDN raw_rdn | ItemDN raw_dn | ItemVal string

definition DN_getitem :: "raw_dn \<Rightarrow> index_key \<Rightarrow> dn_item res" where
  "DN_getitem d key =
     (case key of
        KInt i \<Rightarrow> rbind (py_nth d i) (\<lambda>rdn. Inr (ItemRDN rdn))
      | KSlice i j \<Rightarrow> Inr (ItemDN (py_slice d i j))
      | KStr k \<Rightarrow>
          (case find (\<lambda>ava. k = fst ava) (concat d) of
             Some ava \<Rightarrow> Inr (ItemVal (fst (snd ava)))
           | None \<Rightarrow> Inl (KeyError '' not found in ''))
      | KOther \<Rightarrow> Inl (TypeError ''unsupported type for DN indexing''))"

text \<open>The text that is hashed: attributes, values, AVAs and RDNs under distinct separators.\<close>

definition DN_hash_text :: "raw_dn \<Rightarrow> string" where
  "DN_hash_text d =
     py_join '';,'' (map (\<lambda>rdn.
       py_join ''++'' (map (\<lambda>(atype, avalue, _). py_join ''=='' [atype, avalue]) rdn)) d)"

definition DN_hash :: "(string \<Rightarrow> int) \<Rightarrow> raw_dn \<Rightarrow> int" where
  "DN_hash hash d = hash (py_lower (DN_hash_text d))"

section \<open>DN: comparison\<close>

text \<open>The loop of \<open>_cmp_sequence\<close>: an index past the end of either list raises.\<close>

function cmp_sequence_loop :: "raw_dn \<Rightarrow> raw_dn \<Rightarrow> int \<Rightarrow> int \<Rightarrow> int \<Rightarrow> int res" where
  "cmp_sequence_loop d pattern pat_len self_idx pat_idx =
     (if pat_idx < pat_len then
        rbind (py_nth d self_idx) (\<lambda>a.
        rbind (py_nth pattern pat_idx) (\<lambda>b.
          let r = cmp_rdns a b in
          if r \<noteq> 0 then Inr r
          else cmp_sequence_loop d pattern pat_len (self_idx + 1) (pat_idx + 1)))
      else Inr 0)"
  by pat_completeness auto
termination
  by (relation "measure (\<lambda>(d, pattern, pat_len, self_idx, pat_idx). nat (pat_len - pat_idx))") auto

declare cmp_sequence_loop.simps [simp del]

definition cmp_sequence :: "raw_dn \<Rightarrow> raw_dn \<Rightarrow> int \<Rightarrow> int \<Rightarrow> int res" where
  "cmp_sequence d pattern self_start pat_len =
     cmp_sequence_loop d pattern pat_len self_start 0"

definition DN_eq_DN :: "raw_dn \<Rightarrow> raw_dn \<Rightarrow> bool res" where
  "DN_eq_DN d other =
     (if length d \<noteq> length other then Inr False
      else rbind (cmp_sequence d other 0 (int (length d))) (\<lambda>r. Inr (r = 0)))"

text \<open>
  Comparing with a string, RDN or AVA goes through the constructor, and any exception on the
  way makes the answer \<open>False\<close>.
\<close>

definition DN_eq :: "dn_lib \<Rightarrow> raw_dn \<Rightarrow> dn_arg \<Rightarrow> bool res" where
  "DN_eq lib d other =
     (let coerced = (case rbind (DN_init lib [other]) (DN_eq_DN d) of Inl _ \<Rightarrow> Inr False | r \<Rightarrow> r)
      in (case other of
            AStr _ \<Rightarrow> coerced
          | ARDN _ \<Rightarrow> coerced
          | AAVA _ \<Rightarrow> coerced
          | ADN o_dn \<Rightarrow> DN_eq_DN d o_dn
          | _ \<Rightarrow> Inr False))"

definition DN_lt :: "raw_dn \<Rightarrow> dn_arg \<Rightarrow> bool res" where
  "DN_lt d other =
     (case other of
        ADN o_dn \<Rightarrow>
          if length d \<noteq> length o_dn then Inr (length d < length o_dn)
          else rbind (cmp_sequence d o_dn 0 (int (length d))) (\<lambda>r. Inr (r < 0))
      | _ \<Rightarrow> Inl (TypeError ''expected DN but got %s''))"

definition DN_add :: "dn_lib \<Rightarrow> raw_dn \<Rightarrow> dn_arg \<Rightarrow> raw_dn res" where
  "DN_add lib d other = DN_init lib [ADN d, other]"

section \<open>DN: searching\<close>

definition maxsize :: int where
  "maxsize = 2 ^ 63 - 1"

text \<open>A pattern that is an RDN is first made a DN.\<close>

definition as_pattern :: "dn_arg \<Rightarrow> raw_dn option" where
  "as_pattern arg = (case arg of ARDN rdn \<Rightarrow> Some [rdn] | ADN d \<Rightarrow> Some d | _ \<Rightarrow> None)"

definition tailmatch :: "raw_dn \<Rightarrow> dn_arg \<Rightarrow> int \<Rightarrow> int \<Rightarrow> int \<Rightarrow> bool res" where
  "tailmatch d pattern start stop direction =
     (case as_pattern pattern of
        None \<Rightarrow> Inl (TypeError ''expected DN or RDN but got %s'')
      | Some pat \<Rightarrow>
          let pat_len = int (length pat);
              self_len = int (length d);
              (start, stop) = adjust_indices start stop self_len
          in if direction < 0 \<and> start + pat_len > self_len then Inr False
             else if \<not> direction < 0 \<and> (stop - start < pat_len \<or> start > self_len) then Inr False
             else
               let start = (if \<not> direction < 0 \<and> stop - pat_len \<ge> start
                            then stop - pat_len else start)
               in if stop - start \<ge> pat_len
                  then rbind (cmp_sequence d pat start pat_len) (\<lambda>r. Inr (r = 0))
                  else Inr False)"

text \<open>A tuple of patterns is tried in order until one matches.\<close>

fun tailmatch_any :: "raw_dn \<Rightarrow> dn_arg list \<Rightarrow> int \<Rightarrow> int \<Rightarrow> int \<Rightarrow> bool res" where
  "tailmatch_any d [] start stop direction = Inr False"
| "tailmatch_any d (p # ps) start stop direction =
     rbind (tailmatch d p start stop direction) (\<lambda>b.
       if b then Inr True else tailmatch_any d ps start stop direction)"

datatype patterns = One dn_arg | Many "dn_arg list"

definition startswith :: "raw_dn \<Rightarrow> patterns \<Rightarrow> int \<Rightarrow> int \<Rightarrow> bool res" where
  "startswith d pats start stop =
     (case pats of
        Many ps \<Rightarrow> tailmatch_any d ps start stop (-1)
      | One p \<Rightarrow> tailmatch d p start stop (-1))"

definition endswith :: "raw_dn \<Rightarrow> patterns \<Rightarrow> int \<Rightarrow> int \<Rightarrow> bool res" where
  "endswith d pats start stop =
     (case pats of
        Many ps \<Rightarrow> tailmatch_any d ps start stop 1
      | One p \<Rightarrow> tailmatch d p start stop 1)"

text \<open>Scanning upwards from \<open>i\<close> to \<open>stop\<close> (inclusive) for the first match.\<close>

function scan_up :: "raw_dn \<Rightarrow> raw_dn \<Rightarrow> int \<Rightarrow> int \<Rightarrow> int option res" where
  "scan_up d pat i stop =
     (if i \<le> stop then
        rbind (cmp_sequence d pat i (int (length pat))) (\<lambda>r.
          if r = 0 then Inr (Some i) else scan_up d pat (i + 1) stop)
      else Inr None)"
  by pat_completeness auto
termination
  by (relation "measure (\<lambda>(d, pat, i, stop). nat (stop - i + 1))") auto

function scan_down :: "raw_dn \<Rightarrow> raw_dn \<Rightarrow> int \<Rightarrow> int \<Rightarrow> int option res" where
  "scan_down d pat i stop =
     (if i \<ge> stop then
        rbind (cmp_sequence d pat i (int (length pat))) (\<lambda>r.
          if r = 0 then Inr (Some i) else scan_down d pat (i - 1) stop)
      else Inr None)"
  by pat_completeness auto
termination
  by (relation "measure (\<lambda>(d, pat, i, stop). nat (i - stop + 1))") auto

declare scan_up.simps [simp del] scan_down.simps [simp del]

definition DN_contains :: "raw_dn \<Rightarrow> dn_arg \<Rightarrow> bool res" where
  "DN_contains d other =
     (case as_pattern other of
        None \<Rightarrow> Inl (TypeError ''expected DN or RDN but got %s'')
      | Some pat \<Rightarrow>
          rbind (scan_up d pat 0 (int (length d) - int (length pat))) (\<lambda>r. Inr (r \<noteq> None)))"

definition DN_find :: "raw_dn \<Rightarrow> dn_arg \<Rightarrow> int option \<Rightarrow> int option \<Rightarrow> int res" where
  "DN_find d pattern start stop =
     (case pattern of
        ADN pat \<Rightarrow>
          let pat_len = int (length pat);
              self_len = int (length d);
              start = (case start of None \<Rightarrow> 0 | Some i \<Rightarrow> i);
              stop = (case stop of None \<Rightarrow> self_len | Some i \<Rightarrow> i);
              (start, stop) = adjust_indices start stop self_len
          in rbind (scan_up d pat start (max start (stop - pat_len)))
               (\<lambda>r. Inr (case r of None \<Rightarrow> -1 | Some i \<Rightarrow> i))
      | _ \<Rightarrow> Inl (TypeError ''expected DN but got %s''))"

definition DN_index :: "raw_dn \<Rightarrow> dn_arg \<Rightarrow> int option \<Rightarrow> int option \<Rightarrow> int res" where
  "DN_index d pattern start stop =
     rbind (DN_find d pattern start stop)
       (\<lambda>i. if i = -1 then Inl (ValueError ''pattern not found'') else Inr i)"

definition DN_rfind :: "raw_dn \<Rightarrow> dn_arg \<Rightarrow> int option \<Rightarrow> int option \<Rightarrow> int res" where
  "DN_rfind d pattern start stop =
     (case pattern of
        ADN pat \<Rightarrow>
          let pat_len = int (length pat);
              self_len = int (length d);
              start = (case start of None \<Rightarrow> 0 | Some i \<Rightarrow> i);
              stop = (case stop of None \<Rightarrow> self_len | Some i \<Rightarrow> i);
              (start, stop) = adjust_indices start stop self_len
          in rbind (scan_down d pat (max start (min stop (self_len - pat_len))) start)
               (\<lambda>r. Inr (case r of None \<Rightarrow> -1 | Some i \<Rightarrow> i))
      | _ \<Rightarrow> Inl (TypeError ''expected DN but got %s''))"

definition DN_rindex :: "raw_dn \<Rightarrow> dn_arg \<Rightarrow> int option \<Rightarrow> int option \<Rightarrow> int res" where
  "DN_rindex d pattern start stop =
     rbind (DN_rfind d pattern start stop)
       (\<lambda>i. if i = -1 then Inl (ValueError ''pattern not found'') else Inr i)"

section \<open>Comparison keys\<close>

definition dn_keys :: "raw_dn \<Rightarrow> (nat \<times> (string \<times> string) list) list" where
  "dn_keys d = map rdn_key d"

text \<open>The pattern occurs at a position of the DN, up to case.\<close>

definition match_at :: "raw_dn \<Rightarrow> raw_dn \<Rightarrow> nat \<Rightarrow> bool" where
  "match_at d pat i \<longleftrightarrow>
     i + length pat \<le> length d \<and> take (length pat) (drop i (dn_keys d)) = dn_keys pat"

lemma length_dn_keys [simp]: "length (dn_keys d) = length d"
  by (simp add: dn_keys_def)

lemma dn_keys_append [simp]: "dn_keys (d @ e) = dn_keys d @ dn_keys e"
  by (simp add: dn_keys_def)

lemma cmp_rdns_sign:
  "cmp_rdns a b = 0 \<longleftrightarrow> rdn_key a = rdn_key b"
  "cmp_rdns a b < 0 \<longleftrightarrow> rdn_key a < rdn_key b"
  by (auto simp: cmp_rdns_def Let_def)

lemma drop_dn_keys: "i < length d \<Longrightarrow> drop i (dn_keys d) = rdn_key (d ! i) # drop (Suc i) (dn_keys d)"
  by (simp add: dn_keys_def Cons_nth_drop_Suc [symmetric] drop_map)

lemma cmp_sequence_loop_step:
  assumes "k < length pat" and "i < length d"
  shows "cmp_sequence_loop d pat (int (length pat)) (int i) (int k) =
    (if rdn_key (d ! i) = rdn_key (pat ! k)
     then cmp_sequence_loop d pat (int (length pat)) (int (Suc i)) (int (Suc k))
     else Inr (cmp_rdns (d ! i) (pat ! k)))"
  using assms by (subst cmp_sequence_loop.simps) (simp add: cmp_rdns_sign Let_def add.commute)

lemma cmp_sequence_loop_fits:
  assumes "k \<le> length pat" and "i + (length pat - k) \<le> length d"
  shows "\<exists>r. cmp_sequence_loop d pat (int (length pat)) (int i) (int k) = Inr r \<and>
    (r = 0 \<longleftrightarrow> take (length pat - k) (drop i (dn_keys d)) = drop k (dn_keys pat)) \<and>
    (r < 0 \<longleftrightarrow> take (length pat - k) (drop i (dn_keys d)) < drop k (dn_keys pat))"
  using assms
proof (induction "length pat - k" arbitrary: i k)
  case 0
  then show ?case by (subst cmp_sequence_loop.simps) simp
next
  case (Suc n)
  then have lt: "k < length pat" "i < length d" by auto
  have n: "n = length pat - Suc k" "length pat - k = Suc n" using Suc.hyps(2) by simp_all
  have "\<exists>r. cmp_sequence_loop d pat (int (length pat)) (int (Suc i)) (int (Suc k)) = Inr r \<and>
    (r = 0 \<longleftrightarrow> take n (drop (Suc i) (dn_keys d)) = drop (Suc k) (dn_keys pat)) \<and>
    (r < 0 \<longleftrightarrow> take n (drop (Suc i) (dn_keys d)) < drop (Suc k) (dn_keys pat))"
    using Suc.hyps(1) [OF n(1), of "Suc i"] Suc.prems(2) lt n by auto
  then show ?case
    by (auto simp: cmp_sequence_loop_step [OF lt] n(2) drop_dn_keys [OF lt(1)]
        drop_dn_keys [OF lt(2)] cmp_rdns_sign)
qed

lemma cmp_sequence_fits:
  assumes "i + length pat \<le> length d"
  shows "\<exists>r. cmp_sequence d pat (int i) (int (length pat)) = Inr r \<and>
    (r = 0 \<longleftrightarrow> match_at d pat i) \<and>
    (r < 0 \<longleftrightarrow> take (length pat) (drop i (dn_keys d)) < dn_keys pat)"
  using cmp_sequence_loop_fits [of 0 pat i d] assms by (simp add: cmp_sequence_def match_at_def)

lemma cmp_sequence_fits_int:
  assumes "0 \<le> i" and "i + int (length pat) \<le> int (length d)"
  obtains r where "cmp_sequence d pat i (int (length pat)) = Inr r"
    and "r = 0 \<longleftrightarrow> match_at d pat (nat i)"
proof -
  have "nat i + length pat \<le> length d" using assms by linarith
  with cmp_sequence_fits [of "nat i" pat d] assms(1) that show ?thesis by auto
qed

text \<open>Where the DN ends inside a match, the loop runs past its end.\<close>

lemma cmp_sequence_loop_overrun:
  assumes "k < length pat" and "i \<le> length d" and "length d - i < length pat - k"
    and "take (length d - i) (drop k (dn_keys pat)) = drop i (dn_keys d)"
  shows "\<exists>m. cmp_sequence_loop d pat (int (length pat)) (int i) (int k) = Inl (IndexError m)"
  using assms
proof (induction "length d - i" arbitrary: i k)
  case 0
  then show ?case by (subst cmp_sequence_loop.simps) (simp add: py_nth_def)
next
  case (Suc n)
  then have lt: "i < length d" and n: "n = length d - Suc i" "length d - i = Suc n" by auto
  from Suc.prems(4) have "rdn_key (d ! i) = rdn_key (pat ! k)"
    and "take n (drop (Suc k) (dn_keys pat)) = drop (Suc i) (dn_keys d)"
    by (simp_all add: n(2) drop_dn_keys [OF lt] drop_dn_keys [OF Suc.prems(1)])
  with Suc.hyps(1) [OF n(1), of "Suc k"] Suc.prems lt n show ?case
    by (simp add: cmp_sequence_loop_step [OF Suc.prems(1) lt])
qed

lemma DN_eq_DN_keys: "DN_eq_DN d e = Inr (dn_keys d = dn_keys e)"
proof (cases "length d = length e")
  case True
  then show ?thesis
    using cmp_sequence_fits [of 0 e d] by (auto simp: DN_eq_DN_def match_at_def)
next
  case False
  then show ?thesis using length_dn_keys [of d] length_dn_keys [of e]
    by (auto simp: DN_eq_DN_def simp del: length_dn_keys)
qed

lemma DN_lt_keys: "DN_lt d (ADN e) = Inr ((length d, dn_keys d) < (length e, dn_keys e))"
proof (cases "length d = length e")
  case True
  then show ?thesis
    using cmp_sequence_fits [of 0 e d] by (auto simp: DN_lt_def)
qed (auto simp: DN_lt_def)

section \<open>Searching\<close>

lemma scan_up_spec:
  assumes "0 \<le> i" and "stop + int (length pat) \<le> int (length d)"
  shows "\<exists>r. scan_up d pat i stop = Inr r \<and>
    (case r of
       None \<Rightarrow> \<forall>j. i \<le> j \<and> j \<le> stop \<longrightarrow> \<not> match_at d pat (nat j)
     | Some k \<Rightarrow> i \<le> k \<and> k \<le> stop \<and> match_at d pat (nat k) \<and>
         (\<forall>j. i \<le> j \<and> j < k \<longrightarrow> \<not> match_at d pat (nat j)))"
  using assms
proof (induction d pat i stop rule: scan_up.induct)
  case (1 d pat i stop)
  show ?case
  proof (cases "i \<le> stop")
    case True
    obtain c where c: "cmp_sequence d pat i (int (length pat)) = Inr c"
        "c = 0 \<longleftrightarrow> match_at d pat (nat i)"
      using cmp_sequence_fits_int [of i pat d] True "1.prems" by auto
    show ?thesis
    proof (cases "c = 0")
      case True
      with c \<open>i \<le> stop\<close> show ?thesis by (auto simp: scan_up.simps [of d pat i])
    next
      case False
      obtain r where r: "scan_up d pat (i + 1) stop = Inr r"
          "case r of
             None \<Rightarrow> \<forall>j. i + 1 \<le> j \<and> j \<le> stop \<longrightarrow> \<not> match_at d pat (nat j)
           | Some k \<Rightarrow> i + 1 \<le> k \<and> k \<le> stop \<and> match_at d pat (nat k) \<and>
               (\<forall>j. i + 1 \<le> j \<and> j < k \<longrightarrow> \<not> match_at d pat (nat j))"
        using "1.IH" [OF True c(1) False] "1.prems" by auto
      have "scan_up d pat i stop = Inr r"
        using c(1) False True r(1) by (simp add: scan_up.simps [of d pat i])
      moreover have "i \<le> j \<Longrightarrow> i = j \<or> i + 1 \<le> j" for j by auto
      ultimately show ?thesis using r(2) c(2) False by (auto split: option.splits)
    qed
  next
    case False
    then show ?thesis by (auto simp: scan_up.simps [of d pat i])
  qed
qed

lemma scan_down_spec:
  assumes "0 \<le> stop" and "i + int (length pat) \<le> int (length d)"
  shows "\<exists>r. scan_down d pat i stop = Inr r \<and>
    (case r of
       None \<Rightarrow> \<forall>j. stop \<le> j \<and> j \<le> i \<longrightarrow> \<not> match_at d pat (nat j)
     | Some k \<Rightarrow> stop \<le> k \<and> k \<le> i \<and> match_at d pat (nat k) \<and>
         (\<forall>j. k < j \<and> j \<le> i \<longrightarrow> \<not> match_at d pat (nat j)))"
  using assms
proof (induction d pat i stop rule: scan_down.induct)
  case (1 d pat i stop)
  show ?case
  proof (cases "stop \<le> i")
    case True
    obtain c where c: "cmp_sequence d pat i (int (length pat)) = Inr c"
        "c = 0 \<longleftrightarrow> match_at d pat (nat i)"
      using cmp_sequence_fits_int [of i pat d] True "1.prems" by auto
    show ?thesis
    proof (cases "c = 0")
      case True
      with c \<open>stop \<le> i\<close> show ?thesis by (auto simp: scan_down.simps [of d pat i])
    next
      case False
      obtain r where r: "scan_down d pat (i - 1) stop = Inr r"
          "case r of
             None \<Rightarrow> \<forall>j. stop \<le> j \<and> j \<le> i - 1 \<longrightarrow> \<not> match_at d pat (nat j)
           | Some k \<Rightarrow> stop \<le> k \<and> k \<le> i - 1 \<and> match_at d pat (nat k) \<and>
               (\<forall>j. k < j \<and> j \<le> i - 1 \<longrightarrow> \<not> match_at d pat (nat j))"
        using "1.IH" [OF True c(1) False] "1.prems" by auto
      have "scan_down d pat i stop = Inr r"
        using c(1) False True r(1) by (simp add: scan_down.simps [of d pat i])
      moreover have "j \<le> i \<Longrightarrow> i = j \<or> j \<le> i - 1" for j by auto
      ultimately show ?thesis using r(2) c(2) False by (auto split: option.splits)
    qed
  next
    case False
    then show ?thesis by (auto simp: scan_down.simps [of d pat i])
  qed
qed

lemma adjust_indices_bounds:
  assumes "adjust_indices start stop (int n) = (a, b)"
  shows "0 \<le> a" and "0 \<le> b" and "b \<le> int n"
  using assms by (auto simp: adjust_indices_def Let_def split: if_splits)

lemma startswith_spec:
  assumes "as_pattern p = Some pat" and "adjust_indices start stop (int (length d)) = (a, b)"
  shows "startswith d (One p) start stop =
    Inr (a + int (length pat) \<le> b \<and> match_at d pat (nat a))"
proof (cases "a + int (length pat) \<le> b")
  case True
  then obtain r where "cmp_sequence d pat a (int (length pat)) = Inr r"
      "r = 0 \<longleftrightarrow> match_at d pat (nat a)"
    using cmp_sequence_fits_int [of a pat d] adjust_indices_bounds [OF assms(2)] by auto
  with True adjust_indices_bounds [OF assms(2)] assms show ?thesis
    by (simp add: startswith_def tailmatch_def Let_def)
next
  case False
  with adjust_indices_bounds [OF assms(2)] assms show ?thesis
    by (simp add: startswith_def tailmatch_def Let_def)
qed

lemma endswith_spec:
  assumes "as_pattern p = Some pat" and "adjust_indices start stop (int (length d)) = (a, b)"
  shows "endswith d (One p) start stop =
    Inr (a + int (length pat) \<le> b \<and> match_at d pat (nat (b - int (length pat))))"
proof (cases "a + int (length pat) \<le> b")
  case True
  then obtain r where "cmp_sequence d pat (b - int (length pat)) (int (length pat)) = Inr r"
      "r = 0 \<longleftrightarrow> match_at d pat (nat (b - int (length pat)))"
    using cmp_sequence_fits_int [of "b - int (length pat)" pat d]
      adjust_indices_bounds [OF assms(2)] by auto
  with True adjust_indices_bounds [OF assms(2)] assms show ?thesis
    by (simp add: endswith_def tailmatch_def Let_def)
next
  case False
  with adjust_indices_bounds [OF assms(2)] assms show ?thesis
    by (simp add: endswith_def tailmatch_def Let_def)
qed

lemma adjust_indices_default: "int n \<le> maxsize \<Longrightarrow> adjust_indices 0 maxsize (int n) = (0, int n)"
  by (auto simp: adjust_indices_def Let_def maxsize_def)

section \<open>RDNs as sets of AVAs\<close>

lemma map_sort_key: "map f (sort_key f xs) = sort (map f xs)"
  by (rule properties_for_sort [symmetric]) simp_all

lemma rdn_key_sort_avas: "rdn_key (sort_avas xs) = (length xs, sort (map ava_key xs))"
proof (cases "length xs \<le> 1")
  case True
  then show ?thesis by (cases xs) (auto simp: sort_avas_def rdn_key_def)
qed (simp add: sort_avas_def rdn_key_def map_sort_key)

lemma rdn_key_sort_avas_perm:
  "mset xs = mset ys \<Longrightarrow> rdn_key (sort_avas xs) = rdn_key (sort_avas ys)"
proof -
  assume eq: "mset xs = mset ys"
  then have "sort (map ava_key xs) = sort (map ava_key ys)"
    by (intro properties_for_sort) simp_all
  with mset_eq_length [OF eq] show ?thesis by (simp add: rdn_key_sort_avas)
qed

lemma rmap_perm:
  assumes "rmap f xs = Inr ys" and "mset xs' = mset xs"
  shows "\<exists>ys'. rmap f xs' = Inr ys' \<and> mset ys' = mset ys"
proof -
  let ?g = "\<lambda>x. case f x of Inr y \<Rightarrow> y"
  have "list_all2 (\<lambda>x y. f x = Inr y) xs ys" using assms(1) by (simp add: rmap_Inr_iff)
  then have f: "x \<in> set xs \<Longrightarrow> f x = Inr (?g x)" for x
    by (induction rule: list_all2_induct) auto
  then have "ys = map ?g xs" using assms(1) rmap_total [of xs f ?g] by simp
  moreover have "rmap f xs' = Inr (map ?g xs')"
    using f assms(2) by (intro rmap_total) (metis set_mset_mset)
  ultimately show ?thesis using assms(2) by simp
qed

lemma RDN_init_many:
  "length args \<ge> 2 \<Longrightarrow> RDN_init str2dn args =
    rbind (rmap (\<lambda>arg. get_ava str2dn (Args1 arg)) args) (\<lambda>avas. Inr (sort_avas avas))"
  by (cases args rule: list.exhaust; cases "tl args"; cases "hd args")
    (auto simp: RDN_init_def)

lemma RDN_add_rdn: "RDN_add str2dn r (ARDN q) = Inr (sort_avas (r @ q))"
  by (simp add: RDN_add_def RDN_init_def)

section \<open>Hashing\<close>

lemma lower_char_separators [simp]:
  "lower_char CHR '';'' = CHR '';''" "lower_char CHR '','' = CHR '',''"
  "lower_char CHR ''+'' = CHR ''+''" "lower_char CHR ''='' = CHR ''=''"
  by (simp_all add: lower_char_def Let_def)

lemma lower_DN_hash_text:
  "py_lower (DN_hash_text d) =
   py_join '';,'' (map (\<lambda>(n, ks). py_join ''++'' (map (\<lambda>(a, v). py_join ''=='' [a, v]) ks)) (dn_keys d))"
  by (simp add: DN_hash_text_def py_lower_join dn_keys_def rdn_key_def ava_key_def comp_def
      case_prod_beta del: py_join.simps)

section \<open>Properties\<close>

definition sample_base :: raw_dn where
  "sample_base = [[(''dc'', ''example'', 0)], [(''dc'', ''com'', 0)]]"

definition sample_dn :: raw_dn where
  "sample_dn = [[(''uid'', ''Bob'', 0)], [(''DC'', ''Example'', 0)], [(''dc'', ''COM'', 0)]]"

text \<open>
  C17: comparing two DNs never raises; they are equal exactly when their RDN sequences have
  equal case-insensitive keys, and less is the strict linear order on the number of RDNs and
  then on the keys in sequence. So equality is an equivalence and the order is total up to it.
\<close>

theorem dn_comparison_is_key_order:
  "DN_eq lib d (ADN e) = Inr (dn_keys d = dn_keys e) \<and>
   DN_lt d (ADN e) = Inr ((length d, dn_keys d) < (length e, dn_keys e))"
  by (simp add: DN_eq_def DN_eq_DN_keys DN_lt_keys)

text \<open>
  C30: DNs that compare equal have equal hashes, whatever the hash function on strings, although
  they may differ in the case of attributes and values.
\<close>

theorem dn_equal_implies_same_hash:
  assumes "DN_eq lib d (ADN e) = Inr True"
  shows "DN_hash hash d = DN_hash hash e"
  using assms by (simp add: DN_eq_def DN_eq_DN_keys DN_hash_def lower_DN_hash_text)

theorem dn_equal_implies_same_hash_witness:
  "DN_eq \<lparr>lib_str2dn = \<lambda>_. None, lib_dotted = \<lambda>_. []\<rparr> (tl sample_dn) (ADN sample_base) = Inr True \<and>
   DN_hash (\<lambda>s. int (length s)) (tl sample_dn) = DN_hash (\<lambda>s. int (length s)) sample_base"
proof -
  have eq: "DN_eq \<lparr>lib_str2dn = \<lambda>_. None, lib_dotted = \<lambda>_. []\<rparr> (tl sample_dn) (ADN sample_base) =
      Inr True"
    unfolding DN_eq_def DN_eq_DN_keys by code_simp
  show ?thesis using eq dn_equal_implies_same_hash [OF eq, of "\<lambda>s. int (length s)"] by simp
qed

text \<open>
  an RDN is a set of AVAs: giving the constructor its arguments in another order succeeds
  as well and yields an equal RDN, and adding two RDNs in either order yields equal RDNs.
\<close>

theorem rdn_order_of_avas_irrelevant:
  assumes "RDN_init str2dn args = Inr r" and "mset args' = mset args"
  shows "(\<exists>r'. RDN_init str2dn args' = Inr r' \<and> RDN_eq str2dn r (ARDN r')) \<and>
    (\<exists>s s'. RDN_add str2dn p (ARDN q) = Inr s \<and> RDN_add str2dn q (ARDN p) = Inr s' \<and>
       RDN_eq str2dn s (ARDN s'))"
proof
  show "\<exists>r'. RDN_init str2dn args' = Inr r' \<and> RDN_eq str2dn r (ARDN r')"
  proof (cases "length args \<ge> 2")
    case True
    moreover from assms(2) have "length args' = length args" by (rule mset_eq_length)
    ultimately show ?thesis
      using assms rmap_perm [of "\<lambda>arg. get_ava str2dn (Args1 arg)" args _ args']
      by (auto simp: RDN_init_many RDN_eq_def intro!: rdn_key_sort_avas_perm)
  next
    case False
    then have "args' = args"
      using assms(2) by (cases args; cases args') (auto simp: Suc_le_eq dest: mset_eq_length)
    with assms(1) show ?thesis by (simp add: RDN_eq_def)
  qed
  show "\<exists>s s'. RDN_add str2dn p (ARDN q) = Inr s \<and> RDN_add str2dn q (ARDN p) = Inr s' \<and>
       RDN_eq str2dn s (ARDN s')"
    by (simp add: RDN_add_rdn RDN_eq_def rdn_key_sort_avas_perm union_commute)
qed

theorem rdn_order_of_avas_irrelevant_witness:
  "\<exists>r'. RDN_init (\<lambda>_. None) [AAVA (''ou'', ''x'', 0), AAVA (''cn'', ''y'', 0)] = Inr r' \<and>
     RDN_eq (\<lambda>_. None) (sort_avas [(''cn'', ''y'', 0), (''ou'', ''x'', 0)]) (ARDN r')"
proof -
  have "RDN_init (\<lambda>_. None) [AAVA (''cn'', ''y'', 0), AAVA (''ou'', ''x'', 0)] =
      Inr (sort_avas [(''cn'', ''y'', 0), (''ou'', ''x'', 0)])"
    by (simp add: RDN_init_def get_ava_def)
  from rdn_order_of_avas_irrelevant [OF this,
      of "[AAVA (''ou'', ''x'', 0), AAVA (''cn'', ''y'', 0)]"]
  show ?thesis by (simp add: add_mset_commute)
qed

text \<open>
  \<open>startswith\<close> and \<open>endswith\<close> with a DN or RDN pattern and any start and end never raise;
  after the bounds are adjusted they are true exactly when the pattern fits between them and
  occurs, up to case, at the start (respectively up to the end) of that range.
\<close>

theorem dn_startswith_endswith_correct:
  assumes "as_pattern p = Some pat" and "adjust_indices start stop (int (length d)) = (a, b)"
  shows "startswith d (One p) start stop =
      Inr (a + int (length pat) \<le> b \<and> match_at d pat (nat a)) \<and>
    endswith d (One p) start stop =
      Inr (a + int (length pat) \<le> b \<and> match_at d pat (nat (b - int (length pat))))"
  using startswith_spec [OF assms] endswith_spec [OF assms] by simp

theorem dn_startswith_endswith_correct_witness:
  "endswith sample_dn (One (ADN sample_base)) 0 maxsize = Inr True \<and>
   startswith sample_dn (One (ADN sample_base)) 0 maxsize = Inr False"
proof -
  have "adjust_indices 0 maxsize (int (length sample_dn)) = (0, 3)"
    by (simp add: adjust_indices_def maxsize_def sample_dn_def)
  moreover have "match_at sample_dn sample_base 1" "\<not> match_at sample_dn sample_base 0"
    "length sample_base = 2"
    by code_simp+
  ultimately show ?thesis
    using dn_startswith_endswith_correct [of "ADN sample_base" sample_base 0 maxsize sample_dn 0 3]
    by (simp add: as_pattern_def)
qed

text \<open>
  a DN built by putting names in front of a base DN always ends with that base and starts
  with the names, for every length up to the interpreter's limit: the test the server uses to
  place an entry under a container is complete for the names it builds.
\<close>

theorem dn_add_endswith_base:
  assumes "DN_add lib d (ADN base) = Inr e" and "int (length e) \<le> maxsize"
  shows "endswith e (One (ADN base)) 0 maxsize = Inr True \<and>
    startswith e (One (ADN d)) 0 maxsize = Inr True"
proof -
  have e: "e = d @ base"
    using assms(1) by (simp add: DN_add_def DN_init_def rdns_from_sequence_def rdns_from_value_def)
  have "as_pattern (ADN x) = Some x" for x by (simp add: as_pattern_def)
  with startswith_spec [OF _ adjust_indices_default [OF assms(2)], of "ADN d"]
    endswith_spec [OF _ adjust_indices_default [OF assms(2)], of "ADN base"]
  show ?thesis by (simp add: e match_at_def)
qed

theorem dn_add_endswith_base_witness:
  "endswith (take 1 sample_dn @ sample_base) (One (ADN sample_base)) 0 maxsize = Inr True"
  using dn_add_endswith_base [of "\<lparr>lib_str2dn = \<lambda>_. None, lib_dotted = \<lambda>_. []\<rparr>" "take 1 sample_dn"
      sample_base "take 1 sample_dn @ sample_base"]
  by (simp add: DN_add_def DN_init_def rdns_from_sequence_def rdns_from_value_def sample_dn_def
      sample_base_def maxsize_def)

lemma DN_contains_spec:
  assumes "as_pattern p = Some pat"
  shows "DN_contains d p = Inr (\<exists>i. match_at d pat i)"
proof -
  have bound: "match_at d pat i \<Longrightarrow> int i \<le> int (length d) - int (length pat)" for i
    by (simp add: match_at_def)
  obtain r where "scan_up d pat 0 (int (length d) - int (length pat)) = Inr r"
      "case r of
         None \<Rightarrow> \<forall>j. 0 \<le> j \<and> j \<le> int (length d) - int (length pat) \<longrightarrow> \<not> match_at d pat (nat j)
       | Some k \<Rightarrow> match_at d pat (nat k)"
    using scan_up_spec [of 0 "int (length d) - int (length pat)" pat d]
    by (auto split: option.splits)
  with bound assms show ?thesis
    by (auto simp: DN_contains_def split: option.splits) (metis nat_int of_nat_0_le_iff)
qed

text \<open>
  the membership test \<open>pattern in dn\<close> never raises for a DN or RDN and is true exactly when
  the pattern occurs at some position, up to case.
\<close>

theorem dn_contains_correct:
  assumes "as_pattern p = Some pat"
  shows "DN_contains d p = Inr (\<exists>i. match_at d pat i)"
  using assms by (rule DN_contains_spec)

theorem dn_contains_correct_witness:
  "DN_contains sample_dn (ADN sample_base) = Inr True"
proof -
  have "match_at sample_dn sample_base 1" by code_simp
  with dn_contains_correct [of "ADN sample_base" sample_base sample_dn] show ?thesis
    by (auto simp: as_pattern_def)
qed

text \<open>
  where the pattern fits between the adjusted bounds, \<open>find\<close> returns the lowest position in
  the range at which it occurs, or -1 when there is none.
\<close>

theorem dn_find_lowest:
  assumes "adjust_indices (case start of None \<Rightarrow> 0 | Some i \<Rightarrow> i)
      (case stop of None \<Rightarrow> int (length d) | Some i \<Rightarrow> i) (int (length d)) = (a, b)"
    and "a + int (length pat) \<le> b"
  shows "\<exists>r. DN_find d (ADN pat) start stop = Inr r \<and>
    (if r = -1 then \<forall>j. a \<le> j \<and> j + int (length pat) \<le> b \<longrightarrow> \<not> match_at d pat (nat j)
     else a \<le> r \<and> r + int (length pat) \<le> b \<and> match_at d pat (nat r) \<and>
       (\<forall>j. a \<le> j \<and> j < r \<longrightarrow> \<not> match_at d pat (nat j)))"
proof -
  have ab: "0 \<le> a" "b \<le> int (length d)" using adjust_indices_bounds [OF assms(1)] by auto
  have "max a (b - int (length pat)) = b - int (length pat)" using assms(2) by simp
  moreover obtain r where "scan_up d pat a (b - int (length pat)) = Inr r"
      "case r of
       None \<Rightarrow> \<forall>j. a \<le> j \<and> j \<le> b - int (length pat) \<longrightarrow> \<not> match_at d pat (nat j)
     | Some k \<Rightarrow> a \<le> k \<and> k \<le> b - int (length pat) \<and> match_at d pat (nat k) \<and>
         (\<forall>j. a \<le> j \<and> j < k \<longrightarrow> \<not> match_at d pat (nat j))"
    using scan_up_spec [of a "b - int (length pat)" pat d] ab by auto
  ultimately show ?thesis using assms(1) ab(1)
    by (auto simp: DN_find_def Let_def split: option.splits)
qed

theorem dn_find_lowest_witness:
  "DN_find sample_dn (ADN sample_base) None None = Inr 1"
proof -
  have m: "match_at sample_dn sample_base 1" "\<not> match_at sample_dn sample_base 0"
    "length sample_base = 2" "length sample_dn = 3"
    by code_simp+
  obtain r where r: "DN_find sample_dn (ADN sample_base) None None = Inr r"
      "if r = -1 then \<forall>j. 0 \<le> j \<and> j + 2 \<le> 3 \<longrightarrow> \<not> match_at sample_dn sample_base (nat j)
       else 0 \<le> r \<and> r + 2 \<le> 3 \<and> match_at sample_dn sample_base (nat r)"
    using dn_find_lowest [where d = sample_dn and pat = sample_base and start = None and stop = None
        and a = 0 and b = 3] m(3,4)
    by (auto simp: adjust_indices_def split: if_splits)
  have "r \<noteq> -1"
  proof
    assume "r = -1"
    with r(2) have "\<forall>j. 0 \<le> j \<and> j + 2 \<le> 3 \<longrightarrow> \<not> match_at sample_dn sample_base (nat j)" by simp
    from spec [OF this, of 1] m(1) show False by simp
  qed
  moreover have "r \<noteq> 0" using r(2) m(2) by auto
  ultimately have "r = 1" using r(2) by auto
  with r(1) show ?thesis by simp
qed

text \<open>
  with default bounds \<open>rfind\<close> returns, for a pattern no longer than the DN, the highest
  position at which the pattern occurs, or -1 when there is none.
\<close>

theorem dn_rfind_highest:
  assumes "length pat \<le> length d"
  shows "\<exists>r. DN_rfind d (ADN pat) None None = Inr r \<and>
    (if r = -1 then \<forall>i. \<not> match_at d pat i
     else 0 \<le> r \<and> match_at d pat (nat r) \<and> (\<forall>i. match_at d pat i \<longrightarrow> i \<le> nat r))"
proof -
  let ?top = "int (length d) - int (length pat)"
  have start: "adjust_indices 0 (int (length d)) (int (length d)) = (0, int (length d))"
    "max 0 (min (int (length d)) ?top) = ?top"
    using assms by (auto simp: adjust_indices_def)
  have bound: "match_at d pat i \<Longrightarrow> int i \<le> ?top" for i by (simp add: match_at_def)
  obtain r where r: "scan_down d pat ?top 0 = Inr r"
      "case r of
       None \<Rightarrow> \<forall>j. 0 \<le> j \<and> j \<le> ?top \<longrightarrow> \<not> match_at d pat (nat j)
     | Some k \<Rightarrow> 0 \<le> k \<and> k \<le> ?top \<and> match_at d pat (nat k) \<and>
         (\<forall>j. k < j \<and> j \<le> ?top \<longrightarrow> \<not> match_at d pat (nat j))"
    using scan_down_spec [of 0 ?top pat d] by auto
  show ?thesis
  proof (cases r)
    case None
    then have "\<not> match_at d pat i" for i
      using r(2) bound [of i] by (auto dest: spec [of _ "int i"])
    with None r(1) start show ?thesis by (simp add: DN_rfind_def)
  next
    case (Some k)
    then have "match_at d pat i \<Longrightarrow> i \<le> nat k" for i
      using r(2) bound [of i] by (auto dest: spec [of _ "int i"] simp: not_le [symmetric])
    with Some r start show ?thesis by (auto simp: DN_rfind_def)
  qed
qed

theorem dn_rfind_highest_witness:
  "\<exists>r. DN_rfind sample_dn (ADN sample_base) None None = Inr r \<and> 1 \<le> nat r"
proof -
  have m: "match_at sample_dn sample_base 1" "length sample_base \<le> length sample_dn"
    by code_simp+
  then show ?thesis using dn_rfind_highest [OF m(2)] by (auto split: if_splits)
qed

text \<open>
  C32: a pattern longer than the DN makes \<open>find\<close> raise \<open>IndexError\<close> instead of returning -1 when
  the whole DN is, up to case, the beginning of the pattern: the scan is started once even
  where the pattern cannot fit, and the comparison runs past the end of the DN.
\<close>

theorem dn_find_overrun_raises:
  assumes "length d < length pat" and "take (length d) (dn_keys pat) = dn_keys d"
  shows "\<exists>m. DN_find d (ADN pat) None None = Inl (IndexError m)"
proof -
  obtain m where "cmp_sequence d pat 0 (int (length pat)) = Inl (IndexError m)"
    using cmp_sequence_loop_overrun [of 0 pat 0 d] assms le_less_trans [OF le0 assms(1)]
    by (auto simp: cmp_sequence_def)
  with assms(1) show ?thesis
    by (simp add: DN_find_def adjust_indices_def Let_def scan_up.simps [of d pat 0])
qed

theorem dn_find_overrun_raises_witness:
  "\<exists>m. DN_find [[(''cn'', ''a'', 0)]] (ADN [[(''cn'', ''a'', 0)], [(''dc'', ''b'', 0)]]) None None =
     Inl (IndexError m)"
  by (rule dn_find_overrun_raises) (simp_all add: dn_keys_def)

text \<open>
  C33: \<open>rfind\<close> bounds the position of the pattern by \<open>end\<close>, not its last RDN: with an explicit
  \<open>end\<close> at or after the occurrence it returns a position from which the pattern reaches past
  \<open>end\<close>, where \<open>find\<close> with the same bounds keeps the pattern inside the range.
\<close>

theorem dn_rfind_ignores_pattern_length:
  assumes "match_at d pat i" and "i \<le> e" and "e < i + length pat"
    and "\<And>j. i < j \<Longrightarrow> j \<le> e \<Longrightarrow> \<not> match_at d pat j"
  shows "DN_rfind d (ADN pat) None (Some (int e)) = Inr (int i)"
proof -
  let ?top = "min (int e) (int (length d) - int (length pat))"
  have fit: "i + length pat \<le> length d" using assms(1) by (simp add: match_at_def)
  have start: "adjust_indices 0 (int e) (int (length d)) = (0, min (int e) (int (length d)))"
    "max 0 (min (min (int e) (int (length d))) (int (length d) - int (length pat))) = ?top"
    using fit assms(2) by (auto simp: adjust_indices_def)
  have "?top + int (length pat) \<le> int (length d)" by simp
  then obtain r where r: "scan_down d pat ?top 0 = Inr r"
      "case r of
       None \<Rightarrow> \<forall>j. 0 \<le> j \<and> j \<le> ?top \<longrightarrow> \<not> match_at d pat (nat j)
     | Some k \<Rightarrow> 0 \<le> k \<and> k \<le> ?top \<and> match_at d pat (nat k) \<and>
         (\<forall>j. k < j \<and> j \<le> ?top \<longrightarrow> \<not> match_at d pat (nat j))"
    using scan_down_spec [of 0 ?top pat d, OF order.refl] by blast
  have top: "int i \<le> ?top" using fit assms(2) by simp
  then obtain k where k: "r = Some k" using r(2) assms(1)
    by (auto split: option.splits dest: spec [of _ "int i"])
  have "\<not> k < int i" using r(2) k top assms(1) by (auto dest: spec [of _ "int i"])
  moreover have "\<not> int i < k"
  proof
    assume "int i < k"
    then have "i < nat k" "nat k \<le> e" "match_at d pat (nat k)" using r(2) k by auto
    with assms(4) show False by blast
  qed
  ultimately have "k = int i" by simp
  with r(1) k start show ?thesis by (simp add: DN_rfind_def)
qed

theorem dn_rfind_ignores_pattern_length_witness:
  "DN_rfind sample_dn (ADN sample_base) None (Some 1) = Inr 1 \<and> length sample_base = 2"
proof -
  have "match_at sample_dn sample_base 1" "length sample_base = 2" by code_simp+
  with dn_rfind_ignores_pattern_length [of sample_dn sample_base 1 1] show ?thesis by simp
qed

end
