(* ===== verification/Env_Config.thy ===== *)
theory Env_Config
  imports Base_NameSpace DN_Names
begin

text \<open>
  \<^verbatim>\<open>src/ipalib/config.py\<close>: the process environment \<open>Env\<close>, a dictionary in which every
  variable is set at most once, filled in three phases (\<open>_bootstrap\<close>, \<open>_finalize_core\<close>,
  \<open>_finalize\<close>) and then locked.

  The values an \<open>Env\<close> may hold are the datatype \<open>env_value\<close>; \<open>EFloat s\<close> is the float that
  prints as \<open>s\<close> and \<open>EOther\<close> an object of any other type (the class \<open>object\<close> that
  \<open>DEFAULT_CONFIG\<close> uses as a placeholder). What the code asks of the operating system, of
  \<open>configparser\<close> and \<open>urllib.parse\<close>, and the DN parser and printer, are the fields of the
  parameter \<open>env_os\<close>. A method is an action on the state: what it set before it raised stays
  set. Decimal texts longer than the interpreter's conversion limit are not distinguished.
\<close>

section \<open>Values and the outside world\<close>

datatype env_value =
    EStr string
  | EInt int
  | EFloat string
  | EBool bool
  | ENone
  | EDN raw_dn
  | EOther

record url =
  scheme :: string
  netloc :: string
  uripath :: string
  params :: string
  query :: string
  fragment :: string

text \<open>What \<open>RawConfigParser.read\<close> does with a file, and the items of \<open>[global]\<close> it then has.\<close>

datatype config_file = ParsingError | ReadRaises pyexc | GlobalItems "(string \<times> string) list"

record env_os =
  os_ipalib_file :: string
  os_script :: string
  os_home :: string
  os_fips :: bool
  os_IPA_CONFDIR :: "string option"
  os_USER_CACHE_PATH :: string
  os_isfile :: "env_value \<Rightarrow> bool"
  os_isdir :: "string \<Rightarrow> bool"
  os_config :: "string \<Rightarrow> config_file"
  os_urlparse :: "string \<Rightarrow> url res"
  os_urlunparse :: "url \<Rightarrow> string"
  os_dnlib :: dn_lib
  os_dn2str :: "raw_dn \<Rightarrow> string"

definition env_truth :: "env_value \<Rightarrow> bool" where
  "env_truth v =
     (case v of
        EStr s \<Rightarrow> s \<noteq> []
      | EInt i \<Rightarrow> i \<noteq> 0
      | EFloat s \<Rightarrow> s \<noteq> ''0.0'' \<and> s \<noteq> ''-0.0''
      | EBool b \<Rightarrow> b
      | ENone \<Rightarrow> False
      | EDN d \<Rightarrow> d \<noteq> []
      | EOther \<Rightarrow> True)"

text \<open>\<open>str(v)\<close>, which both \<open>%s\<close> and \<open>format\<close> use.\<close>

definition env_str :: "env_os \<Rightarrow> env_value \<Rightarrow> string" where
  "env_str os v =
     (case v of
        EStr s \<Rightarrow> s
      | EInt i \<Rightarrow> int_to_dec i
      | EFloat s \<Rightarrow> s
      | EBool b \<Rightarrow> if b then ''True'' else ''False''
      | ENone \<Rightarrow> ''None''
      | EDN d \<Rightarrow> ldap_text (os_dn2str os) d
      | EOther \<Rightarrow> ''<object>'')"

text \<open>\<open>posixpath.join\<close>, \<open>dirname\<close> and \<open>isabs\<close>; a value that is no path raises.\<close>

definition path_join2 :: "string \<Rightarrow> string \<Rightarrow> string" where
  "path_join2 p b =
     (if is_prefix_of ''/'' b then b
      else if p = [] \<or> last p = CHR ''/'' then p @ b
      else p @ ''/'' @ b)"

definition path_join :: "env_value \<Rightarrow> string list \<Rightarrow> string res" where
  "path_join v parts =
     (case v of
        EStr p \<Rightarrow> Inr (foldl path_join2 p parts)
      | _ \<Rightarrow> Inl (TypeError ''expected str, bytes or os.PathLike object''))"

definition path_dirname :: "string \<Rightarrow> string" where
  "path_dirname p =
     (let head = rev (dropWhile (\<lambda>c. c \<noteq> CHR ''/'') (rev p)) in
      if list_all (\<lambda>c. c = CHR ''/'') head then head
      else rev (dropWhile (\<lambda>c. c = CHR ''/'') (rev head)))"

definition value_dirname :: "env_value \<Rightarrow> string res" where
  "value_dirname v =
     (case v of
        EStr p \<Rightarrow> Inr (path_dirname p)
      | _ \<Rightarrow> Inl (TypeError ''expected str, bytes or os.PathLike object''))"

definition path_isabs :: "env_value \<Rightarrow> bool res" where
  "path_isabs v =
     (case v of
        EStr p \<Rightarrow> Inr (is_prefix_of ''/'' p)
      | _ \<Rightarrow> Inl (TypeError ''expected str, bytes or os.PathLike object''))"

text \<open>\<open>path.isfile\<close> accepts a path or a file descriptor.\<close>

definition path_isfile :: "env_os \<Rightarrow> env_value \<Rightarrow> bool res" where
  "path_isfile os v =
     (case v of
        EStr _ \<Rightarrow> Inr (os_isfile os v)
      | EInt _ \<Rightarrow> Inr (os_isfile os v)
      | EBool _ \<Rightarrow> Inr (os_isfile os v)
      | _ \<Rightarrow> Inl (TypeError ''stat: path should be string, bytes, os.PathLike or integer''))"

section \<open>The dictionary\<close>

record env =
  env_d :: "(string \<times> env_value) list"
  env_done :: "string set"
  env_locked :: bool

text \<open>
  Conversion of a value on assignment. \<open>isdigit\<close> also accepts the superscript digits of
  Latin-1, which \<open>int\<close> then refuses.
\<close>

definition py_int :: "string \<Rightarrow> int res" where
  "py_int s =
     (if s \<noteq> [] \<and> list_all is_ascii_digit s then Inr (dec_to_int s)
      else Inl (ValueError ''invalid literal for int() with base 10''))"

definition env_convert :: "env_os \<Rightarrow> string \<Rightarrow> env_value \<Rightarrow> env_value res" where
  "env_convert os key value =
     rbind
       (case value of
          EStr s \<Rightarrow>
            (let v = py_strip s in
             if v = ''True'' then Inr (EBool True)
             else if v = ''False'' then Inr (EBool False)
             else if v = ''None'' then Inr ENone
             else if v = '''' then Inr ENone
             else if isdigit v then rbind (py_int v) (\<lambda>i. Inr (EInt i))
             else if key = ''basedn'' then rbind (DN_init (os_dnlib os) [AStr v]) (\<lambda>d. Inr (EDN d))
             else Inr (EStr v))
        | v \<Rightarrow> Inr v)
       (\<lambda>v. if v = EOther then Inl (TypeError key) else Inr v)"

definition env_contains :: "string \<Rightarrow> env \<Rightarrow> bool" where
  "env_contains key e \<longleftrightarrow> key \<in> fst ` set (env_d e)"

definition env_setitem :: "env_os \<Rightarrow> string \<Rightarrow> env_value \<Rightarrow> (env, unit) act" where
  "env_setitem os key value = (\<lambda>e.
     if env_locked e then (Inl (AttributeError ''locked: cannot set %s.%s to %r''), e)
     else (case check_name (Some key) of
             Inl x \<Rightarrow> (Inl x, e)
           | Inr _ \<Rightarrow>
               if env_contains key e
               then (Inl (AttributeError ''cannot override %s.%s value %r with %r''), e)
               else (case env_convert os key value of
                       Inl x \<Rightarrow> (Inl x, e)
                     | Inr v \<Rightarrow> (Inr (), e\<lparr>env_d := env_d e @ [(key, v)]\<rparr>))))"

definition env_setattr :: "env_os \<Rightarrow> string \<Rightarrow> env_value \<Rightarrow> (env, unit) act" where
  "env_setattr os name value = env_setitem os name value"

definition env_getitem :: "string \<Rightarrow> (env, env_value) act" where
  "env_getitem key = act_read (\<lambda>e.
     case map_of (env_d e) key of None \<Rightarrow> Inl (KeyError key) | Some v \<Rightarrow> Inr v)"

text \<open>Reading a variable as an attribute.\<close>

definition env_attr :: "string \<Rightarrow> (env, env_value) act" where
  "env_attr key = act_read (\<lambda>e.
     case map_of (env_d e) key of None \<Rightarrow> Inl (AttributeError key) | Some v \<Rightarrow> Inr v)"

definition env_delattr :: "string \<Rightarrow> (env, unit) act" where
  "env_delattr name = act_raise (AttributeError ''locked: cannot delete %s.%s'')"

definition env_lock :: "(env, unit) act" where
  "env_lock = (\<lambda>e.
     if env_locked e then (Inl (PlainException ''%s.__lock__() already called''), e)
     else (Inr (), e\<lparr>env_locked := True\<rparr>))"

definition env_len :: "env \<Rightarrow> nat" where
  "env_len e = length (env_d e)"

definition env_iter :: "env \<Rightarrow> string list" where
  "env_iter e = sort (map fst (env_d e))"

section \<open>Merging\<close>

text \<open>The loop over the items: set what is not set yet, and count.\<close>

fun env_merge_loop :: "env_os \<Rightarrow> (string \<times> env_value) list \<Rightarrow> nat \<Rightarrow> (env, nat) act" where
  "env_merge_loop os [] i = act_ret i"
| "env_merge_loop os ((key, value) # kw) i =
     act_if (\<lambda>e. \<not> env_contains key e)
       (act_bind (env_setitem os key value) (\<lambda>_. env_merge_loop os kw (i + 1)))
       (env_merge_loop os kw i)"

definition env_merge :: "env_os \<Rightarrow> (string \<times> env_value) list \<Rightarrow> (env, nat \<times> nat) act" where
  "env_merge os kw = act_bind (env_merge_loop os kw 0) (\<lambda>i. act_ret (i, length kw))"

definition Env_init :: "env_os \<Rightarrow> (string \<times> env_value) list \<Rightarrow> unit res \<times> env" where
  "Env_init os initialize =
     (let e = \<lparr>env_d = [], env_done = {}, env_locked = False\<rparr> in
      if initialize \<noteq> [] then act_bind (env_merge os initialize) (\<lambda>_. act_ret ()) e
      else (Inr (), e))"

definition env_merge_from_file ::
  "env_os \<Rightarrow> env_value \<Rightarrow> (env, (nat \<times> nat) option) act" where
  "env_merge_from_file os config_file =
     act_bind (act_read (\<lambda>_. path_isfile os config_file)) (\<lambda>isf.
       if \<not> isf then act_ret None
       else (case config_file of
               EStr f \<Rightarrow>
                 (case os_config os f of
                    ParsingError \<Rightarrow> act_ret None
                  | ReadRaises x \<Rightarrow> act_raise x
                  | GlobalItems items \<Rightarrow>
                      if length items = 0 then act_ret (Some (0, 0))
                      else act_bind (env_merge_loop os (map (apsnd EStr) items) 0) (\<lambda>i.
                           act_bind (act_when (\<lambda>e. \<not> env_contains ''config_loaded'' e)
                             (env_setitem os ''config_loaded'' (EBool True))) (\<lambda>_.
                           act_ret (Some (i, length items)))))
             | _ \<Rightarrow> act_raise (TypeError ''object is not iterable'')))"

definition env_join :: "string \<Rightarrow> string list \<Rightarrow> (env, env_value) act" where
  "env_join key parts = act_read (\<lambda>e.
     case map_of (env_d e) key of
       None \<Rightarrow> Inr ENone
     | Some ENone \<Rightarrow> Inr ENone
     | Some v \<Rightarrow> rbind (path_join v parts) (\<lambda>p. Inr (EStr p)))"

section \<open>Phases\<close>

definition env_doing :: "string \<Rightarrow> (env, unit) act" where
  "env_doing name = (\<lambda>e.
     if name \<in> env_done e then (Inl (PlainException ''%s.%s() already called''), e)
     else (Inr (), e\<lparr>env_done := insert name (env_done e)\<rparr>))"

definition env_isdone :: "string \<Rightarrow> env \<Rightarrow> bool" where
  "env_isdone name e \<longleftrightarrow> name \<in> env_done e"

definition env_do_if_not_done :: "string \<Rightarrow> (env, unit) act \<Rightarrow> (env, unit) act" where
  "env_do_if_not_done name m = act_when (\<lambda>e. \<not> env_isdone name e) m"

text \<open>\<open>if 'key' not in self: self.key = ...\<close>\<close>

definition env_default :: "env_os \<Rightarrow> string \<Rightarrow> (env, env_value) act \<Rightarrow> (env, unit) act" where
  "env_default os key m =
     act_when (\<lambda>e. \<not> env_contains key e) (act_bind m (\<lambda>v. env_setattr os key v))"

definition EnvironmentError :: "string \<Rightarrow> pyexc" where
  "EnvironmentError m = PublicError ''EnvironmentError'' m"

text \<open>The branch that chooses \<open>confdir\<close>.\<close>

definition env_choose_confdir :: "env_os \<Rightarrow> (env, env_value) act" where
  "env_choose_confdir os =
     act_bind (env_attr ''env_confdir'') (\<lambda>ec.
       if ec \<noteq> ENone then
         act_bind (act_read (\<lambda>_. path_isabs ec)) (\<lambda>isabs.
           if \<not> isabs \<or> \<not> (case ec of EStr p \<Rightarrow> os_isdir os p | _ \<Rightarrow> False)
           then act_raise (EnvironmentError ''IPA_CONFDIR env var must be an absolute path to an existing directory, got {}.'')
           else act_ret ec)
       else act_bind (env_attr ''in_tree'') (\<lambda>it.
         if env_truth it then env_attr ''dot_ipa'' else act_ret (EStr ''/etc/ipa'')))"

definition env_bootstrap_runtime :: "env_os \<Rightarrow> (env, unit) act list" where
  "env_bootstrap_runtime os =
     [env_setattr os ''ipalib'' (EStr (path_dirname (os_ipalib_file os))),
      act_bind (env_attr ''ipalib'') (\<lambda>v. act_bind (act_read (\<lambda>_. value_dirname v)) (\<lambda>p.
        env_setattr os ''site_packages'' (EStr p))),
      env_setattr os ''script'' (EStr (os_script os)),
      act_bind (env_attr ''script'') (\<lambda>v. act_bind (act_read (\<lambda>_. value_dirname v)) (\<lambda>p.
        env_setattr os ''bin'' (EStr p))),
      env_setattr os ''home'' (if \<not> is_prefix_of ''~'' (os_home os) then EStr (os_home os) else ENone),
      env_setattr os ''fips_mode'' (EBool (os_fips os))]"

definition env_bootstrap_fill :: "env_os \<Rightarrow> (env, unit) act list" where
  "env_bootstrap_fill os =
     [env_default os ''in_tree'' (act_bind (env_attr ''site_packages'') (\<lambda>v.
        act_bind (act_read (\<lambda>_. path_join v [''ipasetup.py.in''])) (\<lambda>p.
        act_ret (EBool (os_isfile os (EStr p)))))),
      act_bind (env_attr ''in_tree'') (\<lambda>it.
        act_when (\<lambda>e. env_truth it \<and> \<not> env_contains ''mode'' e)
          (env_setattr os ''mode'' (EStr ''developer''))),
      env_default os ''dot_ipa'' (env_join ''home'' [''.ipa'']),
      env_default os ''context'' (act_ret (EStr ''default'')),
      env_setattr os ''env_confdir''
        (case os_IPA_CONFDIR os of None \<Rightarrow> ENone | Some s \<Rightarrow> EStr s),
      act_bind (env_attr ''env_confdir'') (\<lambda>ec.
        act_when (\<lambda>e. env_contains ''confdir'' e \<and> ec \<noteq> ENone)
          (act_raise (EnvironmentError ''IPA_CONFDIR env cannot be set because explicit confdir is used''))),
      env_default os ''confdir'' (env_choose_confdir os),
      env_default os ''conf'' (act_bind (env_attr ''context'') (\<lambda>c.
        env_join ''confdir'' [env_str os c @ ''.conf''])),
      env_default os ''conf_default'' (env_join ''confdir'' [''default.conf'']),
      env_default os ''nss_dir'' (env_join ''confdir'' [''nssdb'']),
      env_default os ''cache_dir'' (act_ret (EStr (path_join2 (os_USER_CACHE_PATH os) ''ipa''))),
      env_default os ''tls_ca_cert'' (env_join ''confdir'' [''ca.crt'']),
      act_bind (env_attr ''tls_ca_cert'') (\<lambda>v. act_bind (act_read (\<lambda>_. path_isabs v)) (\<lambda>a.
        if a then act_ret ()
        else act_raise (EnvironmentError ''tls_ca_cert has to be an absolute path to a CA certificate, got {}''))),
      env_default os ''plugins_on_demand'' (act_bind (env_attr ''context'') (\<lambda>c.
        act_ret (EBool (c = EStr ''cli''))))]"

definition env_bootstrap :: "env_os \<Rightarrow> (string \<times> env_value) list \<Rightarrow> (env, unit) act" where
  "env_bootstrap os overrides = act_seq
     ([env_doing ''_bootstrap''] @ env_bootstrap_runtime os @
      [act_bind (env_merge os overrides) (\<lambda>_. act_ret ())] @ env_bootstrap_fill os)"

text \<open>A URI taken from a variable or, when it is not set, from the defaults.\<close>

definition env_uri :: "string \<Rightarrow> (string \<times> env_value) list \<Rightarrow> (env, env_value) act" where
  "env_uri key defaults =
     act_if (env_contains key) (env_attr key)
       (act_ret (case map_of defaults key of None \<Rightarrow> ENone | Some v \<Rightarrow> v))"

definition value_urlparse :: "env_os \<Rightarrow> env_value \<Rightarrow> url res" where
  "value_urlparse os v =
     (case v of
        EStr s \<Rightarrow> os_urlparse os s
      | _ \<Rightarrow> Inl (AttributeError ''decode''))"

definition derive_xmlrpc_uri :: "env_os \<Rightarrow> (env, unit) act" where
  "derive_xmlrpc_uri os =
     act_when (\<lambda>e. \<not> env_contains ''xmlrpc_uri'' e \<and> env_contains ''server'' e)
       (act_bind (env_attr ''server'') (\<lambda>v.
         env_setattr os ''xmlrpc_uri'' (EStr (''https://'' @ env_str os v @ ''/ipa/xml''))))"

definition derive_ldap_uri :: "env_os \<Rightarrow> (env, unit) act" where
  "derive_ldap_uri os =
     act_when (\<lambda>e. \<not> env_contains ''ldap_uri'' e \<and> env_contains ''server'' e)
       (act_bind (env_attr ''server'') (\<lambda>v.
         env_setattr os ''ldap_uri'' (EStr (''ldap://'' @ env_str os v))))"

definition derive_jsonrpc_uri :: "env_os \<Rightarrow> (string \<times> env_value) list \<Rightarrow> (env, unit) act" where
  "derive_jsonrpc_uri os defaults =
     act_when (\<lambda>e. \<not> env_contains ''jsonrpc_uri'' e)
       (act_bind (env_uri ''xmlrpc_uri'' defaults) (\<lambda>v.
         if env_truth v
         then act_bind (act_read (\<lambda>_. value_urlparse os v)) (\<lambda>u.
           env_setattr os ''jsonrpc_uri''
             (EStr (os_urlunparse os (u\<lparr>uripath := py_replace_first ''/xml'' ''/json'' (uripath u)\<rparr>))))
         else act_ret ()))"

definition derive_server :: "env_os \<Rightarrow> (string \<times> env_value) list \<Rightarrow> (env, unit) act" where
  "derive_server os defaults =
     act_when (\<lambda>e. \<not> env_contains ''server'' e)
       (act_bind (env_uri ''jsonrpc_uri'' defaults) (\<lambda>v.
         if env_truth v
         then act_bind (act_read (\<lambda>_. value_urlparse os v)) (\<lambda>u.
           env_setattr os ''server'' (EStr (netloc u)))
         else act_ret ()))"

definition env_derive_uris :: "env_os \<Rightarrow> (string \<times> env_value) list \<Rightarrow> (env, unit) act" where
  "env_derive_uris os defaults = act_seq
     [derive_xmlrpc_uri os, derive_ldap_uri os, derive_jsonrpc_uri os defaults,
      derive_server os defaults]"

definition TLS_VERSIONS :: "string list" where
  "TLS_VERSIONS = [''ssl2'', ''ssl3'', ''tls1.0'', ''tls1.1'', ''tls1.2'', ''tls1.3'']"

definition TLS_VERSION_DEFAULT_MIN :: env_value where
  "TLS_VERSION_DEFAULT_MIN = ENone"

definition TLS_VERSION_DEFAULT_MAX :: env_value where
  "TLS_VERSION_DEFAULT_MAX = ENone"

definition tls_known :: "env_value \<Rightarrow> bool" where
  "tls_known v \<longleftrightarrow> v = ENone \<or> v \<in> EStr ` set TLS_VERSIONS"

text \<open>\<open>tls_version_max < tls_version_min\<close>, compared as texts.\<close>

definition tls_below :: "env_value \<Rightarrow> env_value \<Rightarrow> bool res" where
  "tls_below a b =
     (case (a, b) of
        (EStr s, EStr t) \<Rightarrow> Inr (s < t)
      | _ \<Rightarrow> Inl (TypeError ''< not supported between instances''))"

definition env_check_tls :: "env_os \<Rightarrow> (env, unit) act list" where
  "env_check_tls os =
     [env_default os ''tls_version_min'' (act_ret TLS_VERSION_DEFAULT_MIN),
      act_bind (env_attr ''tls_version_min'') (\<lambda>v.
        if tls_known v then act_ret ()
        else act_raise (EnvironmentError ''Unknown TLS version {ver} set in tls_version_min.'')),
      env_default os ''tls_version_max'' (act_ret TLS_VERSION_DEFAULT_MAX),
      act_bind (env_attr ''tls_version_max'') (\<lambda>v.
        if tls_known v then act_ret ()
        else act_raise (EnvironmentError ''Unknown TLS version {ver} set in tls_version_max.'')),
      act_bind (env_attr ''tls_version_min'') (\<lambda>lo. act_bind (env_attr ''tls_version_max'') (\<lambda>hi.
        if lo \<noteq> ENone \<and> hi \<noteq> ENone
        then act_bind (act_read (\<lambda>_. tls_below hi lo)) (\<lambda>b.
          if b then act_raise (EnvironmentError ''tls_version_min is set to a higher TLS version than tls_version_max.'')
          else act_ret ())
        else act_ret ()))]"

text \<open>The forced server: whether the URIs have been derived from it.\<close>

definition env_forced_server :: "env_os \<Rightarrow> (string \<times> env_value) list \<Rightarrow> (env, bool) act" where
  "env_forced_server os defaults =
     act_if (\<lambda>e. env_contains ''forced_server'' e \<and> \<not> env_contains ''server'' e)
       (act_bind (env_getitem ''forced_server'') (\<lambda>v.
        act_bind (env_setattr os ''server'' v) (\<lambda>_.
        act_bind (env_derive_uris os defaults) (\<lambda>_. act_ret True))))
       (act_ret False)"

definition env_merge_files :: "env_os \<Rightarrow> (env, unit) act" where
  "env_merge_files os =
     act_when (\<lambda>e. map_of (env_d e) ''mode'' \<noteq> Some (EStr ''dummy''))
       (act_bind (env_attr ''conf'') (\<lambda>c. act_bind (env_merge_from_file os c) (\<lambda>_.
        act_bind (env_attr ''conf_default'') (\<lambda>c. act_bind (env_merge_from_file os c) (\<lambda>_.
        act_ret ())))))"

text \<open>\<open>self.realm.lower()\<close> and \<open>self.domain.split('.')\<close>.\<close>

definition value_lower :: "env_value \<Rightarrow> env_value res" where
  "value_lower v =
     (case v of EStr s \<Rightarrow> Inr (EStr (py_lower s)) | _ \<Rightarrow> Inl (AttributeError ''lower''))"

definition value_domain_dn :: "env_os \<Rightarrow> env_value \<Rightarrow> env_value res" where
  "value_domain_dn os v =
     (case v of
        EStr s \<Rightarrow>
          rbind (DN_init (os_dnlib os) (map (\<lambda>dc. ASeq [IStr ''dc'', IStr dc]) (py_split (CHR ''.'') s)))
            (\<lambda>d. Inr (EDN d))
      | _ \<Rightarrow> Inl (AttributeError ''split''))"

definition env_core_fill :: "env_os \<Rightarrow> (env, unit) act list" where
  "env_core_fill os =
     [env_default os ''in_server'' (act_bind (env_attr ''context'') (\<lambda>c.
        act_ret (EBool (c = EStr ''server'')))),
      env_default os ''logdir''
        (act_bind (env_attr ''in_tree'') (\<lambda>it.
           if env_truth it then env_join ''dot_ipa'' [''log'']
           else act_bind (env_attr ''in_server'') (\<lambda>srv.
             if \<not> env_truth srv then env_join ''dot_ipa'' [''log'']
             else act_ret (EStr ''/var/log/ipa'')))),
      env_default os ''log'' (act_bind (env_attr ''context'') (\<lambda>c.
        env_join ''logdir'' [env_str os c @ ''.log''])),
      act_bind (env_attr ''in_server'') (\<lambda>srv. act_bind (env_attr ''context'') (\<lambda>c.
        act_when (\<lambda>e. env_truth srv \<and> c = EStr ''installer'' \<and>
            \<not> (case map_of (env_d e) ''config_loaded'' of None \<Rightarrow> False | Some v \<Rightarrow> env_truth v))
          (act_seq
            [env_default os ''realm'' (act_ret (EStr ''UNCONFIGURED.INVALID'')),
             env_default os ''domain'' (act_bind (env_attr ''realm'') (\<lambda>r.
               act_read (\<lambda>_. value_lower r)))]))),
      act_when (\<lambda>e. \<not> env_contains ''basedn'' e \<and> env_contains ''domain'' e)
        (act_bind (env_attr ''domain'') (\<lambda>v. act_bind (act_read (\<lambda>_. value_domain_dn os v)) (\<lambda>d.
           env_setattr os ''basedn'' d)))]"

definition env_finalize_core :: "env_os \<Rightarrow> (string \<times> env_value) list \<Rightarrow> (env, unit) act" where
  "env_finalize_core os defaults =
     act_bind (env_doing ''_finalize_core'') (\<lambda>_.
     act_bind (env_do_if_not_done ''_bootstrap'' (env_bootstrap os [])) (\<lambda>_.
     act_bind (env_forced_server os defaults) (\<lambda>uris_derived. act_seq
       ([env_merge_files os] @ env_core_fill os @
        [if \<not> uris_derived then env_derive_uris os defaults else act_ret (),
         act_bind (env_merge os defaults) (\<lambda>_. act_ret ())] @
        env_check_tls os))))"

definition env_finalize :: "env_os \<Rightarrow> (string \<times> env_value) list \<Rightarrow> (env, unit) act" where
  "env_finalize os lastchance = act_seq
     [env_doing ''_finalize'',
      env_do_if_not_done ''_finalize_core'' (env_finalize_core os []),
      act_bind (env_merge os lastchance) (\<lambda>_. act_ret ()),
      env_lock]"

section \<open>Nothing is ever overwritten\<close>

text \<open>
  The order all operations move up in: variables that are set keep their value, a phase that
  was started stays started, a locked environment does not change its variables, and names
  stay valid and unique.
\<close>

definition env_wf :: "env \<Rightarrow> bool" where
  "env_wf e \<longleftrightarrow>
     distinct (map fst (env_d e)) \<and> list_all (\<lambda>(k, v). NAME_REGEX k \<and> v \<noteq> EOther) (env_d e)"

definition env_le :: "env \<Rightarrow> env \<Rightarrow> bool" where
  "env_le e e' \<longleftrightarrow>
     (\<exists>new. env_d e' = env_d e @ new \<and> (env_locked e \<longrightarrow> new = [])) \<and>
     env_done e \<subseteq> env_done e' \<and> (env_locked e \<longrightarrow> env_locked e') \<and> (env_wf e \<longrightarrow> env_wf e')"

interpretation ev: act_relation env_le
proof
  show "env_le s u" if "env_le s t" "env_le t u" for s t u
    using that by (auto simp: env_le_def)
qed (simp add: env_le_def)

lemma env_convert_no_other: "env_convert os k v = Inr w \<Longrightarrow> w \<noteq> EOther"
  by (auto simp: env_convert_def split: if_splits)

lemma keeps_setitem [intro, simp]: "ev.keeps (env_setitem os k v)"
  by (rule ev.keepsI)
    (auto simp: env_setitem_def env_le_def env_wf_def env_contains_def check_name_def
      dest: env_convert_no_other split: sum.splits)

lemma keeps_reads [intro, simp]:
  "ev.keeps (env_setattr os k v)" "ev.keeps (env_getitem k)" "ev.keeps (env_attr k)"
  "ev.keeps (env_delattr k)" "ev.keeps (env_join k ps)"
  by (auto simp: env_setattr_def env_getitem_def env_attr_def env_delattr_def env_join_def
      ev.keeps_read ev.keeps_raise)

lemma keeps_lock_doing [intro, simp]: "ev.keeps env_lock" "ev.keeps (env_doing n)"
  by (auto simp: ev.keeps_def env_lock_def env_doing_def env_le_def env_wf_def)

lemmas keeps_basic = keeps_reads keeps_lock_doing

lemmas ev_intros = ev.keeps_intros keeps_setitem keeps_basic

lemma keeps_default [intro, simp]: "ev.keeps m \<Longrightarrow> ev.keeps (env_default os k m)"
  by (auto simp: env_default_def intro!: ev_intros)

lemma keeps_merge_loop [intro, simp]: "ev.keeps (env_merge_loop os kw i)"
  by (induction os kw i rule: env_merge_loop.induct) (auto intro!: ev_intros)

lemma keeps_merge [intro, simp]: "ev.keeps (env_merge os kw)"
  by (auto simp: env_merge_def intro!: ev_intros)

lemma keeps_merge_from_file [intro, simp]: "ev.keeps (env_merge_from_file os f)"
  unfolding env_merge_from_file_def
  by (auto intro!: ev_intros split: env_value.splits config_file.splits)

lemma keeps_derive [intro, simp]:
  "ev.keeps (derive_xmlrpc_uri os)" "ev.keeps (derive_ldap_uri os)"
  "ev.keeps (derive_jsonrpc_uri os defaults)" "ev.keeps (derive_server os defaults)"
  unfolding derive_xmlrpc_uri_def derive_ldap_uri_def derive_jsonrpc_uri_def derive_server_def env_uri_def
  by (auto intro!: ev_intros)

lemma keeps_derive_uris [intro, simp]: "ev.keeps (env_derive_uris os defaults)"
  unfolding env_derive_uris_def by (intro ev_intros keeps_derive)

lemma keeps_choose_confdir [intro, simp]: "ev.keeps (env_choose_confdir os)"
  unfolding env_choose_confdir_def by (auto intro!: ev_intros)

lemma keeps_seqI: "(\<And>a. a \<in> set as \<Longrightarrow> ev.keeps a) \<Longrightarrow> ev.keeps (act_seq as)"
  by (induction as) (auto intro: ev_intros)

lemma keeps_bootstrap_runtime: "a \<in> set (env_bootstrap_runtime os) \<Longrightarrow> ev.keeps a"
  unfolding env_bootstrap_runtime_def by (auto intro!: ev_intros)

lemma keeps_bootstrap_fill: "a \<in> set (env_bootstrap_fill os) \<Longrightarrow> ev.keeps a"
  unfolding env_bootstrap_fill_def by (auto intro!: ev_intros keeps_default)

lemma keeps_bootstrap [intro, simp]: "ev.keeps (env_bootstrap os overrides)"
  unfolding env_bootstrap_def
  by (rule keeps_seqI)
    (auto intro!: ev_intros dest: keeps_bootstrap_runtime keeps_bootstrap_fill)

lemma keeps_core_fill: "a \<in> set (env_core_fill os) \<Longrightarrow> ev.keeps a"
  unfolding env_core_fill_def
  by (auto intro!: ev_intros keeps_default keeps_seqI)

lemma keeps_check_tls: "a \<in> set (env_check_tls os) \<Longrightarrow> ev.keeps a"
  unfolding env_check_tls_def by (auto intro!: ev_intros keeps_default)

lemma keeps_forced_server [intro, simp]: "ev.keeps (env_forced_server os defaults)"
  unfolding env_forced_server_def by (auto intro!: ev_intros)

lemma keeps_merge_files [intro, simp]: "ev.keeps (env_merge_files os)"
  unfolding env_merge_files_def by (auto intro!: ev_intros)

lemma keeps_do_if_not_done [intro, simp]: "ev.keeps m \<Longrightarrow> ev.keeps (env_do_if_not_done n m)"
  unfolding env_do_if_not_done_def by (rule ev.keeps_when)

lemma keeps_finalize_core [intro, simp]: "ev.keeps (env_finalize_core os defaults)"
  unfolding env_finalize_core_def
  by (intro ev.keeps_bind keeps_basic keeps_do_if_not_done keeps_bootstrap keeps_forced_server keeps_seqI)
    (auto intro!: ev_intros dest: keeps_core_fill keeps_check_tls)

lemma keeps_finalize [intro, simp]: "ev.keeps (env_finalize os lastchance)"
  unfolding env_finalize_def by (rule keeps_seqI) (auto intro!: ev_intros keeps_do_if_not_done)

lemma env_le_value: "env_le e e' \<Longrightarrow> map_of (env_d e) k = Some v \<Longrightarrow> map_of (env_d e') k = Some v"
  by (auto simp: env_le_def)

lemma env_le_contains: "env_le e e' \<Longrightarrow> env_contains k e \<Longrightarrow> env_contains k e'"
  by (auto simp: env_le_def env_contains_def)

lemma env_contains_iff: "env_contains k e \<longleftrightarrow> (\<exists>v. map_of (env_d e) k = Some v)"
  by (metis env_contains_def map_of_eq_None_iff not_Some_eq)

lemma act_bind_Inr:
  assumes "act_bind m f s = (Inr y, t)"
  obtains x u where "m s = (Inr x, u)" and "f x u = (Inr y, t)"
  using assms by (auto simp: act_bind_def split: prod.splits sum.splits)

section \<open>What a successful statement has done\<close>

lemma env_setitem_Inr:
  assumes "env_setitem os k v e = (Inr (), e')"
  shows "\<exists>w. env_convert os k v = Inr w \<and> \<not> env_contains k e \<and> \<not> env_locked e \<and> NAME_REGEX k \<and>
    e' = e\<lparr>env_d := env_d e @ [(k, w)]\<rparr>"
  using assms by (auto simp: env_setitem_def check_name_def split: if_splits sum.splits)

lemma env_setitem_value:
  assumes "env_setitem os k v e = (Inr (), e')"
  shows "map_of (env_d e') k' =
    (if k' = k then (case env_convert os k v of Inr w \<Rightarrow> Some w | Inl _ \<Rightarrow> None)
     else map_of (env_d e) k')"
  using env_setitem_Inr [OF assms]
  by (auto simp: env_contains_def map_add_def map_of_eq_None_iff [symmetric] split: option.splits)

text \<open>What a variable is after merging: an earlier value wins.\<close>

definition merged :: "env_os \<Rightarrow> (string \<times> env_value) list \<Rightarrow> env \<Rightarrow> string \<Rightarrow> env_value option" where
  "merged os kw e k =
     (case map_of (env_d e) k of
        Some v \<Rightarrow> Some v
      | None \<Rightarrow>
          (case map_of kw k of
             None \<Rightarrow> None
           | Some v \<Rightarrow> (case env_convert os k v of Inr w \<Rightarrow> Some w | Inl _ \<Rightarrow> None)))"

lemma env_merge_loop_Inr:
  assumes "env_merge_loop os kw i e = (Inr n, e')"
  shows "map_of (env_d e') k = merged os kw e k \<and> n + env_len e = i + env_len e' \<and>
    env_done e' = env_done e \<and> env_locked e' = env_locked e \<and>
    (map_of (env_d e) k = None \<longrightarrow> (\<forall>v. map_of kw k = Some v \<longrightarrow> (\<exists>w. env_convert os k v = Inr w)))"
  using assms
proof (induction os kw i arbitrary: e rule: env_merge_loop.induct)
  case (1 os i)
  then show ?case by (simp add: act_ret_def merged_def split: option.split)
next
  case (2 os key val kw i)
  show ?case
  proof (cases "env_contains key e")
    case True
    then obtain v where "map_of (env_d e) key = Some v" by (auto simp: env_contains_iff)
    with 2(2) [of e] 2(3) True show ?thesis
      by (auto simp: act_if_def merged_def split: option.splits)
  next
    case False
    then obtain u where u: "env_setitem os key val e = (Inr (), u)"
        "env_merge_loop os kw (i + 1) u = (Inr n, e')"
      using 2(3) by (auto simp: act_if_def elim: act_bind_Inr)
    from env_setitem_Inr [OF u(1)] obtain w where w: "env_convert os key val = Inr w"
        "u = e\<lparr>env_d := env_d e @ [(key, w)]\<rparr>" by blast
    have "map_of (env_d e) key = None" using False by (simp add: env_contains_iff)
    then show ?thesis using 2(1) [OF u(2)] env_setitem_value [OF u(1), of k] w
      by (auto simp: merged_def env_len_def split: option.splits)
  qed
qed

lemma env_merge_Inr:
  assumes "env_merge os kw e = (Inr r, e')"
  shows "map_of (env_d e') k = merged os kw e k \<and> r = (env_len e' - env_len e, length kw) \<and>
    env_done e' = env_done e \<and>
    (map_of (env_d e) k = None \<longrightarrow> (\<forall>v. map_of kw k = Some v \<longrightarrow> (\<exists>w. env_convert os k v = Inr w)))"
proof -
  from assms obtain n where n: "env_merge_loop os kw 0 e = (Inr n, e')" "r = (n, length kw)"
    by (auto simp: env_merge_def act_ret_def elim!: act_bind_Inr)
  from env_merge_loop_Inr [OF n(1), of k] n(2) show ?thesis by auto
qed

lemma env_attr_Inr: "env_attr k e = (Inr v, e') \<Longrightarrow> e' = e \<and> map_of (env_d e) k = Some v"
  by (auto simp: env_attr_def act_read_def split: option.splits)

lemma env_default_Inr:
  assumes "env_default os k m e = (Inr (), e')"
  shows "env_contains k e'"
  using assms
  by (auto simp: env_default_def act_when_def act_if_def act_ret_def env_setattr_def env_contains_def
      split: if_splits elim!: act_bind_Inr dest!: env_setitem_Inr)

lemma act_ret_Inr: "act_ret x e = (Inr y, e') \<longleftrightarrow> x = y \<and> e = e'"
  by (auto simp: act_ret_def)

lemma act_raise_Inr: "act_raise x e \<noteq> (Inr y, e')"
  by (auto simp: act_raise_def)

lemma act_bind_ret_unit_Inr: "act_bind m (\<lambda>_. act_ret ()) e = (Inr (), e') \<longleftrightarrow> (\<exists>x. m e = (Inr x, e'))"
  by (auto simp: act_ret_def act_bind_def split: prod.splits sum.splits)

lemma env_check_tls_Inr:
  assumes "act_seq (env_check_tls os) e = (Inr (), e')"
  shows "\<exists>lo hi. map_of (env_d e') ''tls_version_min'' = Some lo \<and>
    map_of (env_d e') ''tls_version_max'' = Some hi \<and> tls_known lo \<and> tls_known hi \<and>
    (lo \<noteq> ENone \<longrightarrow> hi \<noteq> ENone \<longrightarrow> tls_below hi lo = Inr False)"
proof -
  let ?as = "env_check_tls os"
  from assms obtain u1 u2 u3 u4 where
    u: "(?as ! 1) u1 = (Inr (), u2)" "(?as ! 2) u2 = (Inr (), u3)" "(?as ! 3) u3 = (Inr (), u4)"
      "(?as ! 4) u4 = (Inr (), e')"
    unfolding env_check_tls_def
    by (elim act_seq_Cons_Inr) (simp add: act_ret_Inr)
  have "length ?as = 5" by (simp add: env_check_tls_def)
  then have k: "ev.keeps (?as ! i)" if "i < 5" for i
    using that keeps_check_tls [of "?as ! i" os] by simp
  have le: "env_le u2 u3" "env_le u3 u4" "env_le u4 e'"
    using u k [of 2] k [of 3] k [of 4] by (auto dest: ev.keepsD)
  from u(1) obtain lo where lo: "map_of (env_d u2) ''tls_version_min'' = Some lo" "tls_known lo"
    by (auto simp: env_check_tls_def act_ret_Inr act_raise_Inr split: if_splits
        elim!: act_bind_Inr dest!: env_attr_Inr)
  from u(3) obtain hi where hi: "map_of (env_d u4) ''tls_version_max'' = Some hi" "tls_known hi"
    by (auto simp: env_check_tls_def act_ret_Inr act_raise_Inr split: if_splits
        elim!: act_bind_Inr dest!: env_attr_Inr)
  have lo4: "map_of (env_d u4) ''tls_version_min'' = Some lo"
    using lo(1) le env_le_value by blast
  from u(4) lo4 hi(1) have "lo \<noteq> ENone \<longrightarrow> hi \<noteq> ENone \<longrightarrow> tls_below hi lo = Inr False"
    by (auto simp: env_check_tls_def act_ret_Inr act_raise_Inr act_read_def split: if_splits
        elim!: act_bind_Inr dest!: env_attr_Inr)
  with lo lo4 hi le(3) env_le_value show ?thesis by blast
qed

lemma env_finalize_core_parts:
  assumes "env_finalize_core os defaults e = (Inr (), e')"
  obtains e1 b e2 e3 e4 e5 where
    "act_bind (env_doing ''_finalize_core'') (\<lambda>_. env_do_if_not_done ''_bootstrap'' (env_bootstrap os [])) e =
       (Inr (), e1)"
    "env_forced_server os defaults e1 = (Inr b, e2)"
    "env_merge_files os e2 = (Inr (), e3)"
    "env_le e3 e4"
    "\<exists>r. env_merge os defaults e4 = (Inr r, e5)"
    "act_seq (env_check_tls os) e5 = (Inr (), e')"
    "env_le e1 e'" "env_le e3 e'" "env_le e5 e'"
proof -
  from assms obtain u1 e1 b e2 where
    1: "env_doing ''_finalize_core'' e = (Inr (), u1)"
      "env_do_if_not_done ''_bootstrap'' (env_bootstrap os []) u1 = (Inr (), e1)"
      "env_forced_server os defaults e1 = (Inr b, e2)"
    and seq: "act_seq ([env_merge_files os] @ (env_core_fill os @ [if \<not> b then env_derive_uris os defaults else act_ret ()]) @
        ([act_bind (env_merge os defaults) (\<lambda>_. act_ret ())] @ env_check_tls os)) e2 = (Inr (), e')"
    unfolding env_finalize_core_def by (auto simp del: act_seq.simps elim!: act_bind_Inr)
  from seq obtain e3 where
    e3: "act_seq [env_merge_files os] e2 = (Inr (), e3)"
      "act_seq ((env_core_fill os @ [if \<not> b then env_derive_uris os defaults else act_ret ()]) @
        ([act_bind (env_merge os defaults) (\<lambda>_. act_ret ())] @ env_check_tls os)) e3 = (Inr (), e')"
    by (rule act_seq_append_Inr)
  from e3(2) obtain e4 where
    e4: "act_seq (env_core_fill os @ [if \<not> b then env_derive_uris os defaults else act_ret ()]) e3 =
        (Inr (), e4)"
      "act_seq ([act_bind (env_merge os defaults) (\<lambda>_. act_ret ())] @ env_check_tls os) e4 = (Inr (), e')"
    by (rule act_seq_append_Inr)
  from e4(2) obtain e5 where
    e5: "act_seq [act_bind (env_merge os defaults) (\<lambda>_. act_ret ())] e4 = (Inr (), e5)"
      "act_seq (env_check_tls os) e5 = (Inr (), e')"
    by (rule act_seq_append_Inr)
  note 2 = e3(1) e4(1) e5
  have "ev.keeps (act_seq (env_core_fill os @ [if \<not> b then env_derive_uris os defaults else act_ret ()]))"
    by (rule keeps_seqI) (auto dest: keeps_core_fill intro: ev_intros split: if_splits)
  with 2(2) have "env_le e3 e4" using ev.keepsD by blast
  moreover have "env_merge_files os e2 = (Inr (), e3)"
    using 2(1) by (auto simp: act_ret_Inr elim!: act_bind_Inr)
  moreover have "\<exists>r. env_merge os defaults e4 = (Inr r, e5)"
    using 2(3) by (auto simp: act_ret_Inr elim!: act_bind_Inr)
  moreover have "act_bind (env_doing ''_finalize_core'')
      (\<lambda>_. env_do_if_not_done ''_bootstrap'' (env_bootstrap os [])) e = (Inr (), e1)"
    using 1(1,2) by (simp add: act_bind_def)
  moreover have "env_le e5 e'"
    using ev.keepsD [OF keeps_seqI 2(4)] keeps_check_tls by blast
  moreover from this have "env_le e3 e'"
    using calculation(1,3) ev.keepsD [OF keeps_merge] ev.R_trans by metis
  moreover from this have "env_le e1 e'"
    using calculation(2) 1(3) ev.keepsD [OF keeps_forced_server] ev.keepsD [OF keeps_merge_files]
      ev.R_trans by metis
  ultimately show thesis using that 1(3) 2(4) by blast
qed

lemma map_of_apsnd: "map_of (map (apsnd f) xs) k = map_option f (map_of xs k)"
  by (induction xs) auto

lemma env_merge_from_file_Inr:
  assumes "env_merge_from_file os (EStr f) e = (Inr r, e')" and "os_isfile os (EStr f)"
    and "os_config os f = GlobalItems items" and "k \<noteq> ''config_loaded''"
  shows "map_of (env_d e') k = merged os (map (apsnd EStr) items) e k \<and>
    (map_of (env_d e) k = None \<longrightarrow>
      (\<forall>s. map_of items k = Some s \<longrightarrow> (\<exists>w. env_convert os k (EStr s) = Inr w)))"
proof (cases "items = []")
  case True
  with assms show ?thesis
    by (auto simp: env_merge_from_file_def path_isfile_def act_read_def act_bind_def act_ret_def
        merged_def split: option.splits)
next
  case False
  with assms obtain i u where u: "env_merge_loop os (map (apsnd EStr) items) 0 e = (Inr i, u)"
      "act_when (\<lambda>e. \<not> env_contains ''config_loaded'' e)
         (env_setitem os ''config_loaded'' (EBool True)) u = (Inr (), e')"
    by (auto simp: env_merge_from_file_def path_isfile_def act_read_def act_ret_Inr elim!: act_bind_Inr)
  have "map_of (env_d e') k = map_of (env_d u) k"
    using u(2) assms(4)
    by (auto simp: act_when_def act_if_def act_ret_def split: if_splits dest: env_setitem_value [where k' = k])
  then show ?thesis
    using env_merge_loop_Inr [OF u(1), of k] by (auto simp: map_of_apsnd)
qed

lemma env_merge_files_Inr:
  assumes "env_merge_files os e = (Inr (), e')" and "map_of (env_d e) ''mode'' \<noteq> Some (EStr ''dummy'')"
    and "map_of (env_d e) ''conf'' = Some (EStr c)" and "map_of (env_d e) ''conf_default'' = Some (EStr cd)"
  shows "\<exists>u r r'. env_merge_from_file os (EStr c) e = (Inr r, u) \<and>
    env_merge_from_file os (EStr cd) u = (Inr r', e')"
proof -
  from assms(1-3) obtain r u r' v where
    u: "env_merge_from_file os (EStr c) e = (Inr r, u)"
       "map_of (env_d u) ''conf_default'' = Some v" "env_merge_from_file os v u = (Inr r', e')"
    by (auto simp: env_merge_files_def act_when_def act_if_def act_ret_Inr
        elim!: act_bind_Inr dest!: env_attr_Inr)
  have "env_le e u" using ev.keepsD [OF keeps_merge_from_file u(1)] .
  with u assms(4) show ?thesis by (auto dest: env_le_value)
qed

section \<open>Operation sequences\<close>

text \<open>Any use of the public operations, whether it raises or not.\<close>

inductive env_step :: "env_os \<Rightarrow> env \<Rightarrow> env \<Rightarrow> bool" for os where
  step_setitem: "env_step os e (snd (env_setitem os k v e))"
| step_setattr: "env_step os e (snd (env_setattr os k v e))"
| step_delattr: "env_step os e (snd (env_delattr k e))"
| step_merge: "env_step os e (snd (env_merge os kw e))"
| step_merge_from_file: "env_step os e (snd (env_merge_from_file os f e))"
| step_bootstrap: "env_step os e (snd (env_bootstrap os kw e))"
| step_finalize_core: "env_step os e (snd (env_finalize_core os kw e))"
| step_finalize: "env_step os e (snd (env_finalize os kw e))"
| step_lock: "env_step os e (snd (env_lock e))"

inductive_simps env_step_simps: "env_step os e e'"

lemma env_step_le: "env_step os e e' \<Longrightarrow> env_le e e'"
  by (induction rule: env_step.induct)
    (metis ev.keeps_def keeps_basic keeps_setitem keeps_merge keeps_merge_from_file keeps_bootstrap
      keeps_finalize_core keeps_finalize)+

lemma env_steps_le: "(env_step os)\<^sup>*\<^sup>* e e' \<Longrightarrow> env_le e e'"
proof (induction rule: rtranclp_induct)
  case (step y z)
  then show ?case using env_step_le ev.R_trans by blast
qed simp

lemma py_strip_id: "s \<noteq> [] \<Longrightarrow> \<not> is_space (hd s) \<Longrightarrow> \<not> is_space (last s) \<Longrightarrow> py_strip s = s"
  by (cases s) (auto simp: py_strip_def last_rev dropWhile_eq_self_iff hd_append hd_rev)

lemma env_convert_xmlrpc:
  "env_convert os ''xmlrpc_uri'' (EStr (''https://'' @ t @ ''/ipa/xml'')) =
     Inr (EStr (''https://'' @ t @ ''/ipa/xml''))"
proof -
  let ?s = "''https://'' @ t @ ''/ipa/xml''"
  have "py_strip ?s = ?s"
    by (rule py_strip_id) (simp_all add: is_space_def Let_def)
  moreover have "\<not> isdigit ?s" by (simp add: isdigit_def is_ascii_digit_def)
  ultimately show ?thesis by (simp add: env_convert_def Let_def)
qed

lemma act_bind_Inl: "m s = (Inl x, s') \<Longrightarrow> act_bind m f s = (Inl x, s')"
  by (simp add: act_bind_def)

lemma act_when_Inr:
  "act_when c m e = (Inr (), e') \<longleftrightarrow> (if c e then m e = (Inr (), e') else e' = e)"
  by (auto simp: act_when_def act_if_def act_ret_def)

lemma env_doing_Inr:
  "env_doing n e = (Inr (), e') \<longleftrightarrow> n \<notin> env_done e \<and> e' = e\<lparr>env_done := insert n (env_done e)\<rparr>"
  by (auto simp: env_doing_def)

lemma env_finalize_core_done:
  assumes "env_finalize_core os kw e = (Inr (), e')"
  shows "{''_bootstrap'', ''_finalize_core''} \<subseteq> env_done e'"
proof -
  from assms obtain v where
    "act_bind (env_doing ''_finalize_core'') (\<lambda>_. env_do_if_not_done ''_bootstrap'' (env_bootstrap os [])) e =
       (Inr (), v)" and le: "env_le v e'"
    by (rule env_finalize_core_parts)
  then obtain u where
    u: "env_doing ''_finalize_core'' e = (Inr (), u)"
      "env_do_if_not_done ''_bootstrap'' (env_bootstrap os []) u = (Inr (), v)"
    by (auto elim!: act_bind_Inr)
  have "env_le w y" if "env_bootstrap os [] u = (Inr (), y)" "env_doing ''_bootstrap'' u = (Inr (), w)" for w y
  proof -
    have "act_seq (env_bootstrap_runtime os @ [act_bind (env_merge os []) (\<lambda>_. act_ret ())] @
        env_bootstrap_fill os) w = (Inr (), y)"
      using that by (simp add: env_bootstrap_def act_bind_def split: prod.splits sum.splits)
    moreover have "ev.keeps (act_seq (env_bootstrap_runtime os @
        [act_bind (env_merge os []) (\<lambda>_. act_ret ())] @ env_bootstrap_fill os))"
      by (rule keeps_seqI)
        (auto intro!: ev_intros dest: keeps_bootstrap_runtime keeps_bootstrap_fill)
    ultimately show ?thesis using ev.keepsD by blast
  qed
  then have "''_bootstrap'' \<in> env_done v"
    using u(2) by (auto simp: env_do_if_not_done_def act_when_Inr env_isdone_def env_bootstrap_def
        env_doing_Inr env_le_def split: if_splits elim!: act_seq_Cons_Inr)
  moreover have "env_le u v" using u(2) ev.keepsD [OF keeps_do_if_not_done [OF keeps_bootstrap]] by blast
  ultimately show ?thesis using u(1) le by (auto simp: env_doing_Inr env_le_def)
qed

lemma env_merge_contains:
  assumes "env_merge os kw e = (Inr r, e')" and "k \<in> fst ` set kw"
  shows "env_contains k e'"
proof -
  obtain v where "map_of kw k = Some v" using assms(2) by (metis map_of_eq_None_iff not_Some_eq)
  with env_merge_Inr [OF assms(1), of k] show ?thesis
    by (cases "map_of (env_d e) k") (auto simp: env_contains_iff merged_def)
qed

lemma derive_xmlrpc_uri_Inr:
  assumes "derive_xmlrpc_uri os e = (Inr (), e')" and "map_of (env_d e) ''server'' = Some v"
  shows "map_of (env_d e') ''xmlrpc_uri'' =
    (case map_of (env_d e) ''xmlrpc_uri'' of
       Some x \<Rightarrow> Some x | None \<Rightarrow> Some (EStr (''https://'' @ env_str os v @ ''/ipa/xml'')))"
  using assms env_convert_xmlrpc [of os]
  by (auto simp: derive_xmlrpc_uri_def act_when_Inr env_contains_iff env_setattr_def split: if_splits
      elim!: act_bind_Inr dest!: env_attr_Inr env_setitem_value [where k' = "''xmlrpc_uri''"])

lemma derive_ldap_uri_Inr:
  assumes "derive_ldap_uri os e = (Inr (), e')" and "env_contains ''server'' e"
  shows "env_contains ''ldap_uri'' e'"
  using assms
  by (auto simp: derive_ldap_uri_def act_when_Inr env_setattr_def env_contains_def split: if_splits
      elim!: act_bind_Inr dest!: env_setitem_Inr)

lemma env_uri_set: "map_of (env_d e) k = Some x \<Longrightarrow> env_uri k defaults e = (Inr x, e)"
  by (auto simp: env_uri_def act_if_def env_contains_iff env_attr_def act_read_def)

lemma env_setattr_contains: "env_setattr os k v e = (Inr (), e') \<Longrightarrow> env_contains k e'"
  by (auto simp: env_setattr_def env_contains_def dest!: env_setitem_Inr)

lemma derive_jsonrpc_uri_Inr:
  assumes "derive_jsonrpc_uri os defaults e = (Inr (), e')"
    and "map_of (env_d e) ''xmlrpc_uri'' = Some x" and "env_truth x"
  shows "env_contains ''jsonrpc_uri'' e'"
  using assms(1,3) env_uri_set [OF assms(2), of defaults]
  by (auto simp: derive_jsonrpc_uri_def act_when_Inr act_bind_def [of "env_uri k d" for k d]
      split: if_splits elim!: act_bind_Inr dest: env_setattr_contains)

lemma derive_server_Inr:
  assumes "derive_server os defaults e = (Inr (), e')"
    and "map_of (env_d e) ''jsonrpc_uri'' = Some x" and "env_truth x"
  shows "env_contains ''server'' e'"
  using assms(1,3) env_uri_set [OF assms(2), of defaults]
  by (auto simp: derive_server_def act_when_Inr act_bind_def [of "env_uri k d" for k d]
      split: if_splits elim!: act_bind_Inr dest: env_setattr_contains)

text \<open>A concrete world and environment for the examples.\<close>

definition sample_os :: env_os where
  "sample_os =
     \<lparr>os_ipalib_file = ''/usr/lib/ipalib/config.py'', os_script = ''/usr/bin/ipa'', os_home = ''/root'',
      os_fips = False, os_IPA_CONFDIR = None, os_USER_CACHE_PATH = ''/root/.cache'',
      os_isfile = (\<lambda>v. v = EStr ''/a'' \<or> v = EStr ''/b''), os_isdir = (\<lambda>_. False),
      os_config = (\<lambda>f. if f = ''/a'' then GlobalItems [(''debug'', '' True '')]
                     else GlobalItems [(''debug'', ''False''), (''verbose'', ''2'')]),
      os_urlparse = (\<lambda>s. Inr \<lparr>scheme = ''https'', netloc = ''srv'', uripath = ''/ipa/xml'', params = [],
                              query = [], fragment = []\<rparr>),
      os_urlunparse = (\<lambda>u. ''https://srv'' @ uripath u),
      os_dnlib = \<lparr>lib_str2dn = \<lambda>_. None, lib_dotted = \<lambda>_. []\<rparr>, os_dn2str = (\<lambda>_. [])\<rparr>"

definition sample_env :: env where
  "sample_env =
     \<lparr>env_d = [(''conf'', EStr ''/a''), (''conf_default'', EStr ''/b''), (''context'', EStr ''cli''),
               (''in_tree'', EBool False), (''dot_ipa'', EStr ''/root/.ipa''), (''server'', EStr ''srv'')],
      env_done = {''_bootstrap''}, env_locked = False\<rparr>"

section \<open>Properties\<close>

text \<open>
  C26: every variable is set at most once. Over any sequence of operations, raising or not, a
  variable that has a value keeps it, names stay valid and unique, and once the environment
  is locked it stays locked and its variables never change again.
\<close>

theorem env_variables_are_set_once:
  assumes "(env_step os)\<^sup>*\<^sup>* e e'" and "env_wf e"
  shows "(\<forall>k v. map_of (env_d e) k = Some v \<longrightarrow> map_of (env_d e') k = Some v) \<and> env_wf e' \<and>
    (env_locked e \<longrightarrow> env_locked e' \<and> env_d e' = env_d e)"
  using env_steps_le [OF assms(1)] assms(2) by (auto simp: env_le_def)

theorem env_variables_are_set_once_witness:
  "map_of (env_d (snd (env_finalize sample_os [] sample_env))) ''context'' = Some (EStr ''cli'')"
proof -
  have "(env_step sample_os)\<^sup>*\<^sup>* sample_env (snd (env_finalize sample_os [] sample_env))"
    by (rule r_into_rtranclp) (rule step_finalize)
  moreover have "env_wf sample_env" by code_simp
  ultimately show ?thesis
    using env_variables_are_set_once [of sample_os sample_env] by (simp add: sample_env_def)
qed


text \<open>
  a merge that succeeds sets exactly the given variables that had no value, to the
  converted values, keeps all others, and returns how many it set and how many it was given.
\<close>

theorem env_merge_adds_missing:
  assumes "env_merge os kw e = (Inr (num_set, num_total), e')"
  shows "num_set = env_len e' - env_len e \<and> num_total = length kw \<and>
    (\<forall>k. map_of (env_d e') k =
       (case map_of (env_d e) k of
          Some v \<Rightarrow> Some v
        | None \<Rightarrow>
            (case map_of kw k of
               None \<Rightarrow> None
             | Some v \<Rightarrow> (case env_convert os k v of Inr w \<Rightarrow> Some w | Inl _ \<Rightarrow> None))))"
  using env_merge_Inr [OF assms] by (simp add: merged_def)

theorem env_merge_adds_missing_witness:
  "\<exists>e'. env_merge sample_os [(''server'', EStr ''x''), (''wait'', EStr '' 12 '')] sample_env = (Inr (1, 2), e') \<and>
     map_of (env_d e') ''server'' = Some (EStr ''srv'') \<and> map_of (env_d e') ''wait'' = Some (EInt 12)"
proof -
  let ?kw = "[(''server'', EStr ''x''), (''wait'', EStr '' 12 '')]"
  let ?e = "snd (env_merge sample_os ?kw sample_env)"
  have r: "env_merge sample_os ?kw sample_env = (Inr (1, 2), ?e)"
    by (rule prod_eqI) (simp_all, code_simp)
  have "env_convert sample_os ''wait'' (EStr '' 12 '') = Inr (EInt 12)" by code_simp
  with env_merge_adds_missing [OF r] have
    "map_of (env_d ?e) ''server'' = Some (EStr ''srv'') \<and> map_of (env_d ?e) ''wait'' = Some (EInt 12)"
    by (simp add: sample_env_def)
  with r show ?thesis by blast
qed


text \<open>
  C27: the order of precedence of \<open>_finalize_core\<close> after the bootstrap. A variable that is
  already set (from the command line) keeps its value; otherwise the context's configuration
  file wins over the default configuration file, and every default is set in the end.
\<close>

theorem env_precedence:
  assumes "env_finalize_core os defaults e = (Inr (), e')"
    and "''_bootstrap'' \<in> env_done e"
    and "\<not> env_contains ''forced_server'' e \<or> env_contains ''server'' e"
    and "map_of (env_d e) ''mode'' \<noteq> Some (EStr ''dummy'')"
    and "map_of (env_d e) ''conf'' = Some (EStr c)" and "os_isfile os (EStr c)"
    and "os_config os c = GlobalItems items"
    and "map_of (env_d e) ''conf_default'' = Some (EStr cd)" and "os_isfile os (EStr cd)"
    and "os_config os cd = GlobalItems default_items"
    and "k \<noteq> ''config_loaded''"
  shows "case map_of (env_d e) k of
      Some v \<Rightarrow> map_of (env_d e') k = Some v
    | None \<Rightarrow>
        (case map_of items k of
           Some s \<Rightarrow> \<exists>w. env_convert os k (EStr s) = Inr w \<and> map_of (env_d e') k = Some w
         | None \<Rightarrow>
             (case map_of default_items k of
                Some s \<Rightarrow> \<exists>w. env_convert os k (EStr s) = Inr w \<and> map_of (env_d e') k = Some w
              | None \<Rightarrow> k \<in> fst ` set defaults \<longrightarrow> env_contains k e'))"
proof -
  from assms(1) obtain e1 b e2 e3 e4 e5 where
    1: "act_bind (env_doing ''_finalize_core'')
          (\<lambda>_. env_do_if_not_done ''_bootstrap'' (env_bootstrap os [])) e = (Inr (), e1)"
      "env_forced_server os defaults e1 = (Inr b, e2)" "env_merge_files os e2 = (Inr (), e3)"
    and le: "env_le e3 e4" "env_le e3 e'" "env_le e5 e'" and m: "\<exists>r. env_merge os defaults e4 = (Inr r, e5)"
      "act_seq (env_check_tls os) e5 = (Inr (), e')"
    by (rule env_finalize_core_parts)
  have "env_d e1 = env_d e"
    using 1(1) assms(2)
    by (auto simp: env_doing_Inr env_do_if_not_done_def act_when_Inr env_isdone_def elim!: act_bind_Inr)
  moreover from this have "e2 = e1"
    using 1(2) assms(3) by (auto simp: env_forced_server_def act_if_def act_ret_def env_contains_def split: if_splits)
  ultimately have d: "env_d e2 = env_d e" by simp
  obtain u r r' where u: "env_merge_from_file os (EStr c) e2 = (Inr r, u)"
      "env_merge_from_file os (EStr cd) u = (Inr r', e3)"
    using env_merge_files_Inr [OF 1(3), of c cd] assms(4,5,8) d by auto
  note f = env_merge_from_file_Inr [OF u(1) assms(6,7,11)] env_merge_from_file_Inr [OF u(2) assms(9,10,11)]
  from m(1) obtain r5 where m5: "env_merge os defaults e4 = (Inr r5, e5)" by blast
  have dflt: "env_contains k e'" if "k \<in> fst ` set defaults"
    using env_merge_contains [OF m5 that] le(3) env_le_contains by blast
  have final: "map_of (env_d e') k = Some v" if "map_of (env_d e3) k = Some v" for v
    using that by (rule env_le_value [OF le(2)])
  show ?thesis
  proof (cases "map_of (env_d e) k")
    case None
    show ?thesis
    proof (cases "map_of items k")
      case None': None
      show ?thesis
        using f d dflt final None None'
        by (cases "map_of default_items k") (auto simp: merged_def map_of_apsnd)
    next
      case (Some s)
      with f(1) d None obtain w where "env_convert os k (EStr s) = Inr w" by auto
      with f d final None Some show ?thesis by (simp add: merged_def map_of_apsnd)
    qed
  next
    case (Some v)
    with f d final show ?thesis by (simp add: merged_def)
  qed
qed

theorem env_precedence_witness:
  "map_of (env_d (snd (env_finalize_core sample_os [(''verbose'', EInt 0)] sample_env))) ''debug'' =
     Some (EBool True)"
proof -
  let ?r = "env_finalize_core sample_os [(''verbose'', EInt 0)] sample_env"
  have r: "?r = (Inr (), snd ?r)" by (rule prod_eqI) (simp_all, code_simp)
  have c: "env_convert sample_os ''debug'' (EStr '' True '') = Inr (EBool True)" by code_simp
  have o: "os_isfile sample_os (EStr ''/a'')" "os_isfile sample_os (EStr ''/b'')"
    "os_config sample_os ''/a'' = GlobalItems [(''debug'', '' True '')]"
    "os_config sample_os ''/b'' = GlobalItems [(''debug'', ''False''), (''verbose'', ''2'')]"
    by (simp_all add: sample_os_def)
  show ?thesis
    using env_precedence [OF r _ _ _ _ o(1,3) _ o(2,4), where k = "''debug''"] c
    by (simp add: sample_env_def env_contains_def)
qed


text \<open>
  when \<open>_finalize_core\<close> succeeds the TLS version bounds are set, each is unset
  (\<open>None\<close>) or a known version, and the minimum is not above the maximum in the order of
  \<open>TLS_VERSIONS\<close>.
\<close>

theorem env_tls_bounds_ordered:
  assumes "env_finalize_core os defaults e = (Inr (), e')"
  shows "\<exists>lo hi. map_of (env_d e') ''tls_version_min'' = Some lo \<and>
    map_of (env_d e') ''tls_version_max'' = Some hi \<and> tls_known lo \<and> tls_known hi \<and>
    (\<forall>i < length TLS_VERSIONS. \<forall>j < length TLS_VERSIONS.
       lo = EStr (TLS_VERSIONS ! i) \<and> hi = EStr (TLS_VERSIONS ! j) \<longrightarrow> i \<le> j)"
proof -
  have srt: "sorted_wrt (<) TLS_VERSIONS" by code_simp
  obtain e5 where "act_seq (env_check_tls os) e5 = (Inr (), e')"
    using assms by (rule env_finalize_core_parts)
  from env_check_tls_Inr [OF this] obtain lo hi where
    r: "map_of (env_d e') ''tls_version_min'' = Some lo" "map_of (env_d e') ''tls_version_max'' = Some hi"
      "tls_known lo" "tls_known hi" "lo \<noteq> ENone \<longrightarrow> hi \<noteq> ENone \<longrightarrow> tls_below hi lo = Inr False"
    by blast
  have "i \<le> j" if "i < length TLS_VERSIONS" "j < length TLS_VERSIONS"
    "lo = EStr (TLS_VERSIONS ! i)" "hi = EStr (TLS_VERSIONS ! j)" for i j
    using that r(5) sorted_wrt_nth_less [OF srt, of j i] by (auto simp: tls_below_def intro: leI)
  with r show ?thesis by blast
qed

theorem env_tls_bounds_ordered_witness:
  "\<exists>lo. map_of (env_d (snd (env_finalize_core sample_os [] sample_env))) ''tls_version_min'' = Some lo \<and>
     tls_known lo"
proof -
  let ?r = "env_finalize_core sample_os [] sample_env"
  have r: "?r = (Inr (), snd ?r)" by (rule prod_eqI) (simp_all, code_simp)
  from env_tls_bounds_ordered [OF r] show ?thesis by blast
qed


text \<open>
  finalizing a fresh environment runs all three phases and locks it; afterwards calling any
  phase again raises and changes nothing.
\<close>

theorem env_phases_run_once:
  assumes "env_finalize os lastchance e = (Inr (), e')" and "env_done e = {}"
  shows "env_locked e' \<and>
    env_bootstrap os kw e' = (Inl (PlainException ''%s.%s() already called''), e') \<and>
    env_finalize_core os kw e' = (Inl (PlainException ''%s.%s() already called''), e') \<and>
    env_finalize os kw e' = (Inl (PlainException ''%s.%s() already called''), e') \<and>
    env_setitem os k v e' = (Inl (AttributeError ''locked: cannot set %s.%s to %r''), e')"
proof -
  from assms obtain u1 u2 u3 where
    u: "env_doing ''_finalize'' e = (Inr (), u1)"
      "env_do_if_not_done ''_finalize_core'' (env_finalize_core os []) u1 = (Inr (), u2)"
      "act_bind (env_merge os lastchance) (\<lambda>_. act_ret ()) u2 = (Inr (), u3)"
      "env_lock u3 = (Inr (), e')"
    unfolding env_finalize_def by (elim act_seq_Cons_Inr) (simp add: act_ret_Inr)
  have "env_finalize_core os [] u1 = (Inr (), u2)"
    using u(1,2) assms(2) by (simp add: env_doing_Inr env_do_if_not_done_def act_when_Inr env_isdone_def)
  then have "{''_bootstrap'', ''_finalize_core''} \<subseteq> env_done u2" "env_le u1 u2"
    by (rule env_finalize_core_done, rule ev.keepsD [OF keeps_finalize_core])
  moreover have "env_done u3 = env_done u2"
  proof -
    from u(3) obtain r where "env_merge os lastchance u2 = (Inr r, u3)"
      by (auto simp: act_bind_ret_unit_Inr)
    from env_merge_Inr [OF this] show ?thesis by blast
  qed
  ultimately have "{''_bootstrap'', ''_finalize_core'', ''_finalize''} \<subseteq> env_done e'" "env_locked e'"
    using u(1,4) by (auto simp: env_doing_Inr env_le_def env_lock_def split: if_splits)
  then have "env_doing n e' = (Inl (PlainException ''%s.%s() already called''), e')"
    if "n \<in> {''_bootstrap'', ''_finalize_core'', ''_finalize''}" for n
    using that by (auto simp: env_doing_def)
  then show ?thesis using \<open>env_locked e'\<close>
    by (simp add: env_bootstrap_def env_finalize_core_def env_finalize_def env_setitem_def act_bind_Inl)
qed

theorem env_phases_run_once_witness:
  "env_locked (snd (env_finalize sample_os [] \<lparr>env_d = [], env_done = {}, env_locked = False\<rparr>))"
proof -
  let ?r = "env_finalize sample_os [] \<lparr>env_d = [], env_done = {}, env_locked = False\<rparr>"
  have r: "?r = (Inr (), snd ?r)" by (rule prod_eqI) (simp_all, code_simp)
  from env_phases_run_once [OF r] show ?thesis by simp
qed


text \<open>
  deriving URIs. When \<open>server\<close> is set, \<open>ldap_uri\<close> is set afterwards, and \<open>xmlrpc_uri\<close> keeps
  its value or is the documented one; when \<open>server\<close> or \<open>xmlrpc_uri\<close> is given, \<open>jsonrpc_uri\<close> is
  set afterwards unless \<open>xmlrpc_uri\<close> was explicitly empty, and then \<open>server\<close> is set unless
  \<open>jsonrpc_uri\<close> is empty.
\<close>

theorem env_derive_uris_complete:
  assumes "env_derive_uris os defaults e = (Inr (), e')"
  shows "(\<forall>v. map_of (env_d e) ''server'' = Some v \<longrightarrow>
      env_contains ''ldap_uri'' e' \<and>
      map_of (env_d e') ''xmlrpc_uri'' =
        (case map_of (env_d e) ''xmlrpc_uri'' of
           Some x \<Rightarrow> Some x | None \<Rightarrow> Some (EStr (''https://'' @ env_str os v @ ''/ipa/xml'')))) \<and>
    ((env_contains ''server'' e \<or> env_contains ''xmlrpc_uri'' e) \<and>
      map_option env_truth (map_of (env_d e) ''xmlrpc_uri'') \<noteq> Some False \<longrightarrow>
      (\<exists>j. map_of (env_d e') ''jsonrpc_uri'' = Some j \<and> (env_truth j \<longrightarrow> env_contains ''server'' e')))"
proof -
  from assms obtain u1 u2 u3 where
    u: "derive_xmlrpc_uri os e = (Inr (), u1)" "derive_ldap_uri os u1 = (Inr (), u2)"
      "derive_jsonrpc_uri os defaults u2 = (Inr (), u3)" "derive_server os defaults u3 = (Inr (), e')"
    unfolding env_derive_uris_def by (elim act_seq_Cons_Inr) (simp add: act_ret_Inr)
  have le: "env_le e u1" "env_le u1 u2" "env_le u2 u3" "env_le u3 e'"
    using u by (auto intro: ev.keepsD [OF keeps_derive(1)] ev.keepsD [OF keeps_derive(2)]
        ev.keepsD [OF keeps_derive(3)] ev.keepsD [OF keeps_derive(4)])
  have late: "env_le u2 e'" "env_le u1 e'" using le ev.R_trans by blast+
  have srv: "env_contains ''ldap_uri'' e' \<and> map_of (env_d e') ''xmlrpc_uri'' =
        (case map_of (env_d e) ''xmlrpc_uri'' of
           Some x \<Rightarrow> Some x | None \<Rightarrow> Some (EStr (''https://'' @ env_str os v @ ''/ipa/xml'')))"
    if "map_of (env_d e) ''server'' = Some v" for v
    using derive_xmlrpc_uri_Inr [OF u(1) that] derive_ldap_uri_Inr [OF u(2)]
      env_le_contains [OF late(1)] env_le_contains [OF le(1)] env_le_value [OF late(2)] that
    by (auto simp: env_contains_iff split: option.splits)
  have "\<exists>x. map_of (env_d u2) ''xmlrpc_uri'' = Some x \<and> env_truth x"
    if c: "env_contains ''server'' e \<or> env_contains ''xmlrpc_uri'' e"
      "map_option env_truth (map_of (env_d e) ''xmlrpc_uri'') \<noteq> Some False"
  proof (cases "map_of (env_d e) ''xmlrpc_uri''")
    case None
    then obtain v where "map_of (env_d e) ''server'' = Some v" using c by (auto simp: env_contains_iff)
    from derive_xmlrpc_uri_Inr [OF u(1) this] None have
      "map_of (env_d u1) ''xmlrpc_uri'' = Some (EStr (''https://'' @ env_str os v @ ''/ipa/xml''))" by simp
    from env_le_value [OF le(2) this] show ?thesis by (simp add: env_truth_def)
  next
    case (Some x)
    with c(2) env_le_value [OF le(2) env_le_value [OF le(1) Some]] show ?thesis by simp
  qed
  then have "\<exists>j. map_of (env_d e') ''jsonrpc_uri'' = Some j \<and> (env_truth j \<longrightarrow> env_contains ''server'' e')"
    if c: "env_contains ''server'' e \<or> env_contains ''xmlrpc_uri'' e"
      "map_option env_truth (map_of (env_d e) ''xmlrpc_uri'') \<noteq> Some False"
  proof -
    from \<open>_ \<Longrightarrow> _ \<Longrightarrow> \<exists>x. _\<close> [OF c] obtain j where j: "map_of (env_d u3) ''jsonrpc_uri'' = Some j"
      using derive_jsonrpc_uri_Inr [OF u(3)] by (auto simp: env_contains_iff)
    from derive_server_Inr [OF u(4) j] env_le_value [OF le(4) j] show ?thesis by blast
  qed
  with srv show ?thesis by simp
qed

theorem env_derive_uris_complete_witness:
  "map_of (env_d (snd (env_derive_uris sample_os [] sample_env))) ''xmlrpc_uri'' =
     Some (EStr ''https://srv/ipa/xml'')"
proof -
  let ?r = "env_derive_uris sample_os [] sample_env"
  have r: "?r = (Inr (), snd ?r)" by (rule prod_eqI) (simp_all, code_simp)
  from env_derive_uris_complete [OF r] show ?thesis by (simp add: sample_env_def env_str_def)
qed

end
