(* ===== verification/Kerberos_Principal.thy ===== *)
theory Kerberos_Principal
  imports Py_Prelude
begin

text \<open>
  Kerberos principal names, \<^verbatim>\<open>src/ipapython/kerberos.py\<close>, with the escaping helpers of
  \<^verbatim>\<open>src/ipapython/ipautil.py\<close>: splitting a principal at unescaped separators, class
  \<open>Principal\<close> with its constructor, predicates, accessors and comparisons, and its printed
  form. The main result is that printing and parsing are inverse exactly up to a component
  that ends in a backslash.
\<close>

section \<open>Escaping and splitting\<close>

abbreviation backslash :: char where
  "backslash \<equiv> CHR 0x5C"

text \<open>
  The sequences the code escapes are \<open>@\<close> and \<open>/\<close>, which mean themselves in a regular
  expression, so the substitution of the escaped sequence is a plain replacement.
\<close>

definition unescape_seq :: "string \<Rightarrow> string list \<Rightarrow> string list" where
  "unescape_seq sq args = map (py_replace (backslash # sq) sq) args"

definition escape_seq :: "string \<Rightarrow> string list \<Rightarrow> string list" where
  "escape_seq sq args = map (py_replace sq (backslash # sq)) args"

text \<open>
  \<open>re.split\<close> by a separator that does not follow a backslash; the flag says whether the
  character before the rest of the string is one.
\<close>

fun split_unescaped :: "char \<Rightarrow> bool \<Rightarrow> string \<Rightarrow> string list" where
  "split_unescaped sep after_bs [] = [[]]"
| "split_unescaped sep after_bs (x # xs) =
     (if x = sep \<and> \<not> after_bs then [] # split_unescaped sep (x = backslash) xs
      else (case split_unescaped sep (x = backslash) xs of
              [] \<Rightarrow> [[x]] | p # ps \<Rightarrow> (x # p) # ps))"

definition REALM_SPLIT_RE :: "string \<Rightarrow> string list" where
  "REALM_SPLIT_RE s = split_unescaped (CHR ''@'') False s"

definition COMPONENT_SPLIT_RE :: "string \<Rightarrow> string list" where
  "COMPONENT_SPLIT_RE s = split_unescaped (CHR ''/'') False s"

definition parse_princ_name_and_realm :: "string \<Rightarrow> string option \<Rightarrow> (string \<times> string option) res"
  where
  "parse_princ_name_and_realm princ realm =
     (let realm_and_name = REALM_SPLIT_RE princ in
      if length realm_and_name > 2
      then Inl (ValueError ''Principal is not in <name>@<realm> format'')
      else
        rbind (py_nth realm_and_name 0) (\<lambda>principal_name.
          let parsed_realm = (case py_nth realm_and_name 1 of Inr r \<Rightarrow> Some r | Inl _ \<Rightarrow> realm)
          in Inr (principal_name, parsed_realm)))"

definition split_principal_name :: "string \<Rightarrow> string list" where
  "split_principal_name principal_name = COMPONENT_SPLIT_RE principal_name"

section \<open>The class\<close>

record principal =
  components :: "string list"
  realm :: "string option"

datatype principal_arg =
    ArgBytes
  | ArgText string
  | ArgPrincipal principal
  | ArgSequence "string list"

definition parse_from_text :: "string \<Rightarrow> string option \<Rightarrow> (string list \<times> string option) res" where
  "parse_from_text princ rlm =
     rbind (parse_princ_name_and_realm princ rlm) (\<lambda>(principal_name, parsed_realm).
       let principal_name = hd (unescape_seq ''@'' [principal_name]);
           parsed_realm =
             (case parsed_realm of None \<Rightarrow> None | Some r \<Rightarrow> Some (hd (unescape_seq ''@'' [r])));
           name_components = split_principal_name principal_name;
           name_components = unescape_seq ''/'' name_components
       in Inr (name_components, parsed_realm))"

definition Principal_init :: "principal_arg \<Rightarrow> string option \<Rightarrow> principal res" where
  "Principal_init cs rlm =
     (case cs of
        ArgBytes \<Rightarrow> Inl (TypeError ''Cannot create a principal object from bytes: {!r}'')
      | ArgText s \<Rightarrow>
          rbind (parse_from_text s rlm) (\<lambda>(c, r). Inr \<lparr>components = c, realm = r\<rparr>)
      | ArgPrincipal p \<Rightarrow>
          Inr \<lparr>components = components p,
               realm = (if rlm = None then realm p else rlm)\<rparr>
      | ArgSequence l \<Rightarrow> Inr \<lparr>components = l, realm = rlm\<rparr>)"

definition principal_str :: "principal \<Rightarrow> string" where
  "principal_str p =
     (let name_components = escape_seq ''/'' (components p);
          name_components = escape_seq ''@'' name_components;
          principal_string = py_join ''/'' name_components
      in (case realm p of
            None \<Rightarrow> principal_string
          | Some r \<Rightarrow> py_join ''@'' [principal_string, hd (escape_seq ''@'' [r])]))"

definition principal_eq :: "principal \<Rightarrow> principal \<Rightarrow> bool" where
  "principal_eq p q \<longleftrightarrow> components p = components q \<and> realm p = realm q"

definition principal_ne :: "principal \<Rightarrow> principal \<Rightarrow> bool" where
  "principal_ne p q \<longleftrightarrow> \<not> principal_eq p q"

definition principal_lt :: "principal \<Rightarrow> principal \<Rightarrow> bool" where
  "principal_lt p q \<longleftrightarrow> principal_str p < principal_str q"

definition principal_le :: "principal \<Rightarrow> principal \<Rightarrow> bool" where
  "principal_le p q \<longleftrightarrow> principal_lt p q \<or> principal_eq p q"

definition principal_gt :: "principal \<Rightarrow> principal \<Rightarrow> bool" where
  "principal_gt p q \<longleftrightarrow> \<not> principal_le p q"

definition principal_ge :: "principal \<Rightarrow> principal \<Rightarrow> bool" where
  "principal_ge p q \<longleftrightarrow> principal_gt p q \<or> principal_eq p q"

definition is_user :: "principal \<Rightarrow> bool" where
  "is_user p \<longleftrightarrow> length (components p) = 1"

definition is_enterprise :: "principal \<Rightarrow> bool" where
  "is_enterprise p \<longleftrightarrow> is_user p \<and> CHR ''@'' \<in> set (components p ! 0)"

definition is_service :: "principal \<Rightarrow> bool" where
  "is_service p \<longleftrightarrow> length (components p) > 1"

definition is_host :: "principal \<Rightarrow> bool" where
  "is_host p \<longleftrightarrow> is_service p \<and> length (components p) = 2 \<and> components p ! 0 = ''host''"

definition username :: "principal \<Rightarrow> string res" where
  "username p =
     (if is_user p then py_nth (components p) 0
      else Inl (ValueError ''User name is defined only for user and enterprise principals''))"

definition upn_suffix :: "principal \<Rightarrow> string res" where
  "upn_suffix p =
     (if \<not> is_enterprise p then Inl (ValueError ''Only enterprise principals have UPN suffix'')
      else rbind (py_nth (components p) 0) (\<lambda>c. py_nth (py_split (CHR ''@'') c) 1))"

definition hostname :: "principal \<Rightarrow> string res" where
  "hostname p =
     (if \<not> (is_host p \<or> is_service p)
      then Inl (ValueError ''hostname is defined for host and service principals'')
      else py_nth (components p) (-1))"

definition service_name :: "principal \<Rightarrow> string res" where
  "service_name p =
     (if \<not> is_service p
      then Inl (ValueError ''Only service principals have meaningful service name'')
      else Inr (py_join ''/'' (escape_seq ''/'' (py_slice (components p) None (Some (-1))))))"

section \<open>Escaping and splitting: lemmas\<close>

text \<open>Escaping one character: a backslash before every occurrence.\<close>

definition esc :: "char \<Rightarrow> string \<Rightarrow> string" where
  "esc c s = concat (map (\<lambda>x. if x = c then [backslash, c] else [x]) s)"

definition unesc :: "char \<Rightarrow> string \<Rightarrow> string" where
  "unesc c s = py_replace [backslash, c] [c] s"

lemma escape_seq_char: "escape_seq [c] args = map (esc c) args"
  by (simp add: escape_seq_def esc_def py_replace_char)

lemma unescape_seq_char: "unescape_seq [c] args = map (unesc c) args"
  by (simp add: unescape_seq_def unesc_def)

lemma esc_simps [simp]:
  "esc c [] = []"
  "esc c (x # s) = (if x = c then [backslash, c] else [x]) @ esc c s"
  "esc c (s @ t) = esc c s @ esc c t"
  by (simp_all add: esc_def)

lemma hd_esc_not_sep: "c \<noteq> backslash \<Longrightarrow> take (Suc 0) (esc c s) \<noteq> [c]"
  by (cases s) auto

lemma unesc_simps:
  "unesc c [] = []"
  "unesc c (backslash # c # s) = c # unesc c s"
  "x \<noteq> backslash \<or> take 1 s \<noteq> [c] \<Longrightarrow> unesc c (x # s) = x # unesc c s"
  using py_replace_from_simps(3) [of "[backslash, c]" "[c]" s]
  by (auto simp: unesc_def py_replace_def)

lemma unesc_esc [simp]: "c \<noteq> backslash \<Longrightarrow> unesc c (esc c s) = s"
proof (induction s)
  case (Cons x s)
  then show ?case
    using hd_esc_not_sep [of c s] by (auto simp: unesc_simps)
qed (simp add: unesc_simps)

text \<open>A separator that does not follow a backslash, and the flag after a piece of text.\<close>

fun no_unescaped :: "char \<Rightarrow> bool \<Rightarrow> string \<Rightarrow> bool" where
  "no_unescaped c p [] = True"
| "no_unescaped c p (x # s) = ((x = c \<longrightarrow> p) \<and> no_unescaped c (x = backslash) s)"

definition flag_after :: "bool \<Rightarrow> string \<Rightarrow> bool" where
  "flag_after p s = (if s = [] then p else last s = backslash)"

lemma flag_after_simps [simp]:
  "flag_after p [] = p"
  "flag_after p (x # s) = flag_after (x = backslash) s"
  by (simp_all add: flag_after_def)

lemma split_unescaped_none: "no_unescaped c p s \<Longrightarrow> split_unescaped c p s = [s]"
  by (induction c p s rule: no_unescaped.induct) auto

lemma split_unescaped_first:
  "c \<noteq> backslash \<Longrightarrow> no_unescaped c p s \<Longrightarrow> \<not> flag_after p s \<Longrightarrow>
   split_unescaped c p (s @ c # t) = s # split_unescaped c False t"
  by (induction c p s rule: no_unescaped.induct) auto

lemma no_unescaped_append:
  "no_unescaped c p (s @ t) \<longleftrightarrow> no_unescaped c p s \<and> no_unescaped c (flag_after p s) t"
  by (induction c p s rule: no_unescaped.induct) auto

lemma no_unescaped_esc [simp]: "c \<noteq> backslash \<Longrightarrow> no_unescaped c p (esc c s)"
  by (induction s arbitrary: p) auto

lemma flag_after_esc [simp]: "c \<noteq> backslash \<Longrightarrow> flag_after p (esc c s) = flag_after p s"
  by (induction s arbitrary: p) auto

lemma esc_join: "c \<notin> set sep \<Longrightarrow> py_join sep (map (esc c) xs) = esc c (py_join sep xs)"
proof (induction sep xs rule: py_join.induct)
  case (3 sep x y ys)
  moreover have "c \<notin> set sep \<Longrightarrow> esc c sep = sep" by (induction sep) auto
  ultimately show ?case by simp
qed simp_all

section \<open>Printing and parsing\<close>

text \<open>A component that ends in a backslash would hide the separator printed after it.\<close>

definition principal_printable :: "principal \<Rightarrow> bool" where
  "principal_printable p \<longleftrightarrow>
     components p \<noteq> [] \<and> (\<forall>c \<in> set (components p). \<not> flag_after False c)"

lemma split_join_escaped:
  assumes "cs \<noteq> []" and "\<And>c. c \<in> set cs \<Longrightarrow> \<not> flag_after False c" and "sep \<noteq> backslash"
  shows "split_unescaped sep False (py_join [sep] (map (esc sep) cs)) = map (esc sep) cs"
  using assms(1,2)
proof (induction cs)
  case (Cons c cs)
  show ?case
  proof (cases "cs = []")
    case True
    with assms(3) show ?thesis by (simp add: split_unescaped_none)
  next
    case False
    with Cons assms(3) show ?thesis
      by (simp add: py_join_Cons_nonempty split_unescaped_first)
  qed
qed simp

lemma flag_after_join:
  "cs \<noteq> [] \<Longrightarrow> sep \<noteq> backslash \<Longrightarrow> flag_after False (py_join [sep] cs) = flag_after False (last cs)"
proof (induction cs)
  case (Cons c cs)
  have "sep \<noteq> backslash \<Longrightarrow> flag_after p (c @ sep # t) = flag_after False t" for p t
    by (induction c arbitrary: p) auto
  with Cons show ?case
    by (cases "cs = []") (simp_all add: py_join_Cons_nonempty)
qed simp

lemma principal_str_eq:
  "principal_str p =
     (let name = esc (CHR ''@'') (py_join ''/'' (map (esc (CHR ''/'')) (components p))) in
      case realm p of None \<Rightarrow> name | Some r \<Rightarrow> name @ CHR ''@'' # esc (CHR ''@'') r)"
  by (simp add: principal_str_def escape_seq_char esc_join Let_def del: map_map split: option.split)

lemma realm_split_printed:
  assumes "principal_printable p"
  shows "REALM_SPLIT_RE (principal_str p) =
    (let name = esc (CHR ''@'') (py_join ''/'' (map (esc (CHR ''/'')) (components p))) in
     case realm p of None \<Rightarrow> [name] | Some r \<Rightarrow> [name, esc (CHR ''@'') r])"
proof -
  have "\<not> flag_after False (py_join ''/'' (map (esc (CHR ''/'')) (components p)))"
    using assms by (simp add: principal_printable_def flag_after_join last_map)
  then show ?thesis
    by (simp add: REALM_SPLIT_RE_def principal_str_eq Let_def split_unescaped_none
        split_unescaped_first split: option.split)
qed

lemma parse_printed:
  assumes "principal_printable p"
  shows "parse_from_text (principal_str p) rlm =
    Inr (components p, if realm p = None then map_option (unesc (CHR ''@'')) rlm else realm p)"
proof -
  have "split_principal_name (py_join ''/'' (map (esc (CHR ''/'')) (components p))) =
      map (esc (CHR ''/'')) (components p)"
    using assms by (simp add: split_principal_name_def COMPONENT_SPLIT_RE_def
        principal_printable_def split_join_escaped)
  then show ?thesis
    by (simp add: parse_from_text_def parse_princ_name_and_realm_def realm_split_printed [OF assms]
        Let_def unescape_seq_char py_nth_def comp_def split: option.split)
qed

lemma principal_str_inj:
  assumes "principal_printable p" and "principal_printable q"
    and "principal_str p = principal_str q"
  shows "p = q"
proof -
  have "(components p, realm p) = (components q, realm q)"
    using parse_printed [OF assms(1), of None] parse_printed [OF assms(2), of None] assms(3)
    by (auto split: if_splits)
  then show ?thesis by simp
qed

section \<open>Properties\<close>

definition sample_principal :: principal where
  "sample_principal = \<lparr>components = [''host'', ''a/b@c''], realm = Some ''EXAMPLE.COM''\<rparr>"

lemma sample_principal_printable: "principal_printable sample_principal"
  by (simp add: sample_principal_def principal_printable_def)

text \<open>
  C18: parsing the printed form of a principal gives the principal back, for any realm given
  as a default, when no component ends in a backslash; separators inside components and the
  realm are escaped and restored.
\<close>

theorem principal_print_parse_roundtrip:
  assumes "principal_printable p" and "realm p \<noteq> None \<or> rlm = None"
  shows "Principal_init (ArgText (principal_str p)) rlm = Inr p"
  using parse_printed [OF assms(1), of rlm] assms(2) by (auto simp: Principal_init_def)

theorem principal_print_parse_roundtrip_witness:
  "principal_str sample_principal = ''host/a'' @ [backslash] @ ''/b'' @ [backslash] @ ''@c@EXAMPLE.COM'' \<and>
   Principal_init (ArgText (principal_str sample_principal)) (Some ''OTHER'') = Inr sample_principal"
  using principal_print_parse_roundtrip [OF sample_principal_printable, of "Some ''OTHER''"]
  by (simp add: sample_principal_def principal_str_eq)

text \<open>
  the comparison operators of principals are a total order consistent with equality on
  the principals that print unambiguously: exactly one of less, equal, greater holds, and
  less is transitive.
\<close>

theorem principal_order_total:
  assumes "principal_printable p" and "principal_printable q" and "principal_printable r"
  shows "(principal_lt p q \<or> principal_eq p q \<or> principal_gt p q) \<and>
    \<not> (principal_lt p q \<and> principal_eq p q) \<and> \<not> (principal_gt p q \<and> principal_eq p q) \<and>
    (principal_gt p q \<longleftrightarrow> principal_lt q p) \<and> (principal_ge p q \<longleftrightarrow> principal_le q p) \<and>
    (principal_lt p q \<and> principal_lt q r \<longrightarrow> principal_lt p r)"
proof -
  have "principal_eq p q \<longleftrightarrow> p = q" for p q :: principal
    by (auto simp: principal_eq_def)
  then have eq: "principal_eq p q \<longleftrightarrow> principal_str p = principal_str q"
    "principal_eq q p \<longleftrightarrow> principal_str p = principal_str q"
    using principal_str_inj [OF assms(1,2)] by auto
  show ?thesis
    unfolding principal_ge_def principal_gt_def principal_le_def principal_lt_def eq
    by (simp add: not_less order.order_iff_strict) (metis less_trans neq_iff)
qed

theorem principal_order_total_witness:
  "principal_printable sample_principal \<and>
   (principal_lt sample_principal sample_principal \<or> principal_eq sample_principal sample_principal \<or>
    principal_gt sample_principal sample_principal)"
  using principal_order_total [OF sample_principal_printable sample_principal_printable
      sample_principal_printable] sample_principal_printable
  by blast

text \<open>
  C34: a text with more than one unescaped \<open>@\<close> is rejected with \<open>ValueError\<close>, bytes with
  \<open>TypeError\<close>; every other text parses, to at least one component, and an explicit realm
  argument only fills in a realm the text does not carry.
\<close>

theorem principal_parse_cases:
  "Principal_init ArgBytes rlm = Inl (TypeError ''Cannot create a principal object from bytes: {!r}'') \<and>
   (if length (REALM_SPLIT_RE s) > 2
    then Principal_init (ArgText s) rlm =
      Inl (ValueError ''Principal is not in <name>@<realm> format'')
    else \<exists>p. Principal_init (ArgText s) rlm = Inr p \<and> components p \<noteq> [] \<and>
      (length (REALM_SPLIT_RE s) = 2 \<longrightarrow> realm p = Some (unesc (CHR ''@'') (REALM_SPLIT_RE s ! 1))) \<and>
      (length (REALM_SPLIT_RE s) = 1 \<longrightarrow> realm p = map_option (unesc (CHR ''@'')) rlm))"
proof -
  have ne: "split_unescaped c b t \<noteq> []" for c b t
    by (cases t) (auto split: list.splits)
  then have "0 < length (REALM_SPLIT_RE s)" by (simp add: REALM_SPLIT_RE_def)
  then show ?thesis using ne
    by (auto simp: Principal_init_def parse_from_text_def parse_princ_name_and_realm_def Let_def
        py_nth_def unescape_seq_char split_principal_name_def COMPONENT_SPLIT_RE_def
        split: option.splits)
qed

theorem principal_parse_cases_witness:
  "\<exists>p. Principal_init (ArgText ''bob@EXAMPLE'') None = Inr p \<and> realm p = Some ''EXAMPLE''"
proof -
  have "REALM_SPLIT_RE ''bob@EXAMPLE'' = [''bob'', ''EXAMPLE'']"
    "unesc (CHR ''@'') ''EXAMPLE'' = ''EXAMPLE''"
    by code_simp+
  then show ?thesis using principal_parse_cases [of None "''bob@EXAMPLE''"] by auto
qed

end
