(* ===== verification/Param_Values.thy ===== *)
theory Param_Values
  imports DN_Names Kerberos_Principal
begin

text \<open>
  The values the framework's parameters (\<^verbatim>\<open>src/ipalib/parameters.py\<close>) receive, with the
  built-in operations the parameter classes apply to them: truth, equality, hashability, type
  tests and the conversions \<open>int(x)\<close>, \<open>int(s, base)\<close> and \<open>str(x)\<close>.

  A finite float is a mantissa times a power of two. How a float prints and which texts
  \<open>float()\<close> accepts are parameters of the definitions that use them. \<open>PObj t\<close> is an object of
  any other (hashable, always true) type. Values of \<open>decimal.Decimal\<close> are not modelled, and a
  distinguished name is not compared with a text.
\<close>

datatype pyfloat = Finite int int | Inf bool | NaN

datatype pval =
    PNone
  | PBool bool
  | PInt int
  | PFloat pyfloat
  | PStr string
  | PBytes string
  | PTuple "pval list"
  | PList "pval list"
  | PDN raw_dn
  | PPrincipal principal
  | PObj string

text \<open>The interface to the float routines of the interpreter.\<close>

record float_lib =
  float_str :: "pyfloat \<Rightarrow> string"
  float_of :: "string \<Rightarrow> pyfloat option"

section \<open>Truth and equality\<close>

definition float_zero :: "pyfloat \<Rightarrow> bool" where
  "float_zero f = (case f of Finite m e \<Rightarrow> m = 0 | _ \<Rightarrow> False)"

definition py_truth :: "pval \<Rightarrow> bool" where
  "py_truth v =
     (case v of
        PNone \<Rightarrow> False
      | PBool b \<Rightarrow> b
      | PInt i \<Rightarrow> i \<noteq> 0
      | PFloat f \<Rightarrow> \<not> float_zero f
      | PStr s \<Rightarrow> s \<noteq> []
      | PBytes s \<Rightarrow> s \<noteq> []
      | PTuple l \<Rightarrow> l \<noteq> []
      | PList l \<Rightarrow> l \<noteq> []
      | PDN d \<Rightarrow> d \<noteq> []
      | _ \<Rightarrow> True)"

text \<open>The number a value is equal to, if it is one; \<open>NaN\<close> is equal to nothing.\<close>

definition py_number :: "pval \<Rightarrow> pyfloat option" where
  "py_number v =
     (case v of
        PBool b \<Rightarrow> Some (Finite (if b then 1 else 0) 0)
      | PInt i \<Rightarrow> Some (Finite i 0)
      | PFloat f \<Rightarrow> Some f
      | _ \<Rightarrow> None)"

definition float_eq :: "pyfloat \<Rightarrow> pyfloat \<Rightarrow> bool" where
  "float_eq a b =
     (case (a, b) of
        (Finite m e, Finite n k) \<Rightarrow>
          if e \<ge> k then m * 2 ^ nat (e - k) = n else m = n * 2 ^ nat (k - e)
      | (Inf s, Inf t) \<Rightarrow> s = t
      | _ \<Rightarrow> False)"

fun py_eq :: "pval \<Rightarrow> pval \<Rightarrow> bool" where
  "py_eq (PTuple xs) (PTuple ys) = list_all2 py_eq xs ys"
| "py_eq (PList xs) (PList ys) = list_all2 py_eq xs ys"
| "py_eq (PDN d) (PDN e) = (dn_keys d = dn_keys e)"
| "py_eq (PPrincipal p) (PPrincipal q) = principal_eq p q"
| "py_eq v w =
     (case (py_number v, py_number w) of
        (Some a, Some b) \<Rightarrow> float_eq a b
      | _ \<Rightarrow> v = w)"

fun py_hashable :: "pval \<Rightarrow> bool" where
  "py_hashable (PList _) = False"
| "py_hashable (PTuple xs) = list_all py_hashable xs"
| "py_hashable _ = True"

text \<open>\<open>v in s\<close> for a set \<open>s\<close>, listed here in some order, and for a tuple.\<close>

definition in_set :: "pval \<Rightarrow> pval list \<Rightarrow> bool res" where
  "in_set v s =
     (if py_hashable v then Inr (list_ex (py_eq v) s) else Inl (TypeError ''unhashable type''))"

definition in_tuple :: "pval \<Rightarrow> pval list \<Rightarrow> bool" where
  "in_tuple v s \<longleftrightarrow> list_ex (py_eq v) s"

section \<open>Types\<close>

datatype ptype = TNone | TBool | TInt | TStr | TBytes | TDN | TPrincipal | TObject

text \<open>\<open>isinstance(v, t)\<close>: a bool is an int.\<close>

definition isinstance :: "ptype \<Rightarrow> pval \<Rightarrow> bool" where
  "isinstance t v =
     (case v of
        PNone \<Rightarrow> t = TNone \<or> t = TObject
      | PBool _ \<Rightarrow> t = TBool \<or> t = TInt \<or> t = TObject
      | PInt _ \<Rightarrow> t = TInt \<or> t = TObject
      | PStr _ \<Rightarrow> t = TStr \<or> t = TObject
      | PBytes _ \<Rightarrow> t = TBytes \<or> t = TObject
      | PDN _ \<Rightarrow> t = TDN \<or> t = TObject
      | PPrincipal _ \<Rightarrow> t = TPrincipal \<or> t = TObject
      | _ \<Rightarrow> t = TObject)"

section \<open>Conversions\<close>

text \<open>The value of a digit in a base up to 36.\<close>

definition digit_value :: "char \<Rightarrow> nat option" where
  "digit_value c =
     (let n = (of_char c :: nat) in
      if 48 \<le> n \<and> n \<le> 57 then Some (n - 48)
      else if 97 \<le> n \<and> n \<le> 122 then Some (n - 87)
      else if 65 \<le> n \<and> n \<le> 90 then Some (n - 55)
      else None)"

text \<open>Digits of a base with single underscores between them; \<open>prev\<close> says a digit came last.\<close>

fun digits_value :: "nat \<Rightarrow> bool \<Rightarrow> int \<Rightarrow> string \<Rightarrow> int option" where
  "digits_value base prev acc [] = (if prev then Some acc else None)"
| "digits_value base prev acc (c # cs) =
     (if c = CHR ''_'' then (if prev then digits_value base False acc cs else None)
      else case digit_value c of
             None \<Rightarrow> None
           | Some d \<Rightarrow> if d < base then digits_value base True (acc * int base + int d) cs else None)"

definition base_prefix :: "nat \<Rightarrow> string \<Rightarrow> bool" where
  "base_prefix base s \<longleftrightarrow>
     (let p = py_lower (take 2 s) in
      (base = 16 \<and> p = ''0x'') \<or> (base = 8 \<and> p = ''0o'') \<or> (base = 2 \<and> p = ''0b''))"

text \<open>After a prefix one underscore may come before the first digit.\<close>

definition prefixed_value :: "nat \<Rightarrow> string \<Rightarrow> int option" where
  "prefixed_value base s =
     (let t = drop 2 s in
      digits_value base False 0 (if take 1 t = ''_'' then drop 1 t else t))"

definition unsigned_value :: "nat \<Rightarrow> string \<Rightarrow> int option" where
  "unsigned_value base s =
     (if base = 0 then
        (if base_prefix 16 s then prefixed_value 16 s
         else if base_prefix 8 s then prefixed_value 8 s
         else if base_prefix 2 s then prefixed_value 2 s
         else (case digits_value 10 False 0 s of
                 None \<Rightarrow> None
               | Some i \<Rightarrow> if take 1 s = ''0'' \<and> i \<noteq> 0 then None else Some i))
      else if base_prefix base s then prefixed_value base s
      else digits_value base False 0 s)"

text \<open>\<open>int(s, base)\<close>.\<close>

definition int_of_text :: "nat \<Rightarrow> string \<Rightarrow> int res" where
  "int_of_text base s =
     (let t = py_strip s;
          r = (if take 1 t = ''-'' then map_option uminus (unsigned_value base (drop 1 t))
               else if take 1 t = ''+'' then unsigned_value base (drop 1 t)
               else unsigned_value base t)
      in case r of
           None \<Rightarrow> Inl (ValueError ''invalid literal for int() with base %d: %r'')
         | Some i \<Rightarrow> Inr i)"

text \<open>\<open>int(f)\<close> for a float: truncation towards zero.\<close>

definition int_of_float :: "pyfloat \<Rightarrow> int res" where
  "int_of_float f =
     (case f of
        Finite m e \<Rightarrow>
          Inr (if e \<ge> 0 then m * 2 ^ nat e
               else if m \<ge> 0 then m div 2 ^ nat (- e) else - ((- m) div 2 ^ nat (- e)))
      | Inf _ \<Rightarrow> Inl (OverflowError ''cannot convert float infinity to integer'')
      | NaN \<Rightarrow> Inl (ValueError ''cannot convert float NaN to integer''))"

section \<open>Lemmas\<close>

lemma py_truth_simps [simp]:
  "\<not> py_truth PNone" "py_truth (PBool b) = b" "py_truth (PInt i) = (i \<noteq> 0)"
  "py_truth (PStr s) = (s \<noteq> [])" "py_truth (PBytes s) = (s \<noteq> [])"
  "py_truth (PTuple l) = (l \<noteq> [])" "py_truth (PList l) = (l \<noteq> [])" "py_truth (PDN d) = (d \<noteq> [])"
  "py_truth (PPrincipal p)" "py_truth (PObj t)"
  by (simp_all add: py_truth_def)

lemma digits_value_decimal:
  "list_all (\<lambda>c. 48 \<le> (of_char c :: nat) \<and> (of_char c :: nat) \<le> 57) s \<Longrightarrow> prev \<or> s \<noteq> [] \<Longrightarrow>
   digits_value 10 prev acc s =
     Some (foldl (\<lambda>acc c. acc * 10 + (int (of_char c) - 48)) acc s)"
proof (induction s arbitrary: prev acc)
  case (Cons c s)
  then have "c \<noteq> CHR ''_''" by (auto)
  with Cons show ?case by (auto simp: digit_value_def Let_def of_nat_diff)
qed simp

end
