(* ===== verification/Access_Time.thy ===== *)
theory Access_Time
  imports Py_Prelude
begin

text \<open>
  The access-time language of \<^verbatim>\<open>src/ipalib/parameters.py\<close> (class \<open>AccessTime\<close>): absolute
  ranges of generalized times, and periodic specifications by year, month, week or day. Every
  check raises \<open>ValueError\<close> or, when words are missing, \<open>IndexError\<close>.

  A text is split on white space into words; a check on the words takes the index of the next
  word and returns the index of the last one it read.
\<close>

section \<open>Texts and numbers\<close>

definition ascii_digits :: "string \<Rightarrow> bool" where
  "ascii_digits s \<longleftrightarrow> list_all is_ascii_digit s"

text \<open>
  \<open>isnumeric\<close> accepts, below code point 256, the digits, the superscripts and the fractions;
  \<open>int\<close> accepts only the former.
\<close>

definition isnumeric :: "string \<Rightarrow> bool" where
  "isnumeric s \<longleftrightarrow>
     s \<noteq> [] \<and>
     list_all (\<lambda>c. is_ascii_digit c \<or> of_char c \<in> {178, 179, 185, 188, 189, 190 :: nat}) s"

text \<open>
  \<open>int(t)\<close>, for the texts that reach it: numeric ones, and day names and words, which it
  refuses. White space, signs and underscores, which \<open>int\<close> would accept, cannot occur: every
  text was checked by \<open>isnumeric\<close> or is one of the day names.
\<close>

definition int10 :: "string \<Rightarrow> int res" where
  "int10 s =
     (if s \<noteq> [] \<and> ascii_digits s then Inr (dec_to_int s)
      else Inl (ValueError ''invalid literal for int() with base 10''))"

definition ensure :: "bool \<Rightarrow> string \<Rightarrow> unit res" where
  "ensure b m = (if b then Inr () else Inl (ValueError m))"

text \<open>\<open>s[i:j]\<close> for indices from the start.\<close>

definition sub :: "string \<Rightarrow> nat \<Rightarrow> nat \<Rightarrow> string" where
  "sub s i j = take (j - i) (drop i s)"

text \<open>\<open>str.split()\<close>: the maximal runs without white space.\<close>

function py_words :: "string \<Rightarrow> string list" where
  "py_words s =
     (let t = dropWhile is_space s in
      if t = [] then []
      else takeWhile (\<lambda>c. \<not> is_space c) t # py_words (dropWhile (\<lambda>c. \<not> is_space c) t))"
  by pat_completeness auto
termination
proof (relation "measure length")
  fix s :: string and t assume t: "t = dropWhile is_space s" "t \<noteq> []"
  then have "\<not> is_space (hd t)" by (metis hd_dropWhile)
  with t(2) have "length (dropWhile (\<lambda>c. \<not> is_space c) t) < length t"
    by (cases t) (auto simp: less_Suc_eq_le length_dropWhile_le)
  also have "length t \<le> length s" unfolding t(1) by (rule length_dropWhile_le)
  finally show "(dropWhile (\<lambda>c. \<not> is_space c) t, s) \<in> measure length" by simp
qed simp

declare py_words.simps [simp del]

section \<open>Fields\<close>

definition check_HHMM :: "string \<Rightarrow> unit res" where
  "check_HHMM t =
     rbind (ensure (length t = 4) ''HHMM must be exactly 4 characters long'') (\<lambda>_.
     rbind (ensure (isnumeric t) ''HHMM non-numeric'') (\<lambda>_.
     rbind (int10 (sub t 0 2)) (\<lambda>hh.
     rbind (ensure (0 \<le> hh \<and> hh \<le> 23) ''HH out of range'') (\<lambda>_.
     rbind (int10 (sub t 2 4)) (\<lambda>mm.
     ensure (0 \<le> mm \<and> mm \<le> 59) ''MM out of range'')))))"

definition check_dotw :: "string \<Rightarrow> unit res" where
  "check_dotw t =
     (if isnumeric t
      then rbind (int10 t) (\<lambda>v. ensure (1 \<le> v \<and> v \<le> 7) ''day of the week out of range'')
      else ensure (t \<in> set [''Mon'', ''Tue'', ''Wed'', ''Thu'', ''Fri'', ''Sat'', ''Sun''])
        ''invalid day of the week'')"

definition leap_year :: "int \<Rightarrow> bool" where
  "leap_year y \<longleftrightarrow> y mod 4 = 0 \<and> (y mod 100 \<noteq> 0 \<or> y mod 400 = 0)"

definition check_dotm :: "string \<Rightarrow> int \<Rightarrow> int \<Rightarrow> unit res" where
  "check_dotm t month_num year =
     rbind (ensure (isnumeric t) ''day of the month non-numeric'') (\<lambda>_.
     rbind (int10 t) (\<lambda>v.
       if month_num \<in> {1, 3, 5, 7, 8, 10, 12}
       then ensure (1 \<le> v \<and> v \<le> 31) ''day of the month out of range''
       else if month_num \<in> {4, 6, 9, 11}
       then ensure (1 \<le> v \<and> v \<le> 30) ''day of the month out of range''
       else if month_num = 2
       then (if leap_year year
             then ensure (1 \<le> v \<and> v \<le> 29) ''day of the month out of range''
             else ensure (1 \<le> v \<and> v \<le> 28) ''day of the month out of range'')
       else Inr ()))"

definition check_number :: "string \<Rightarrow> int \<Rightarrow> string \<Rightarrow> string \<Rightarrow> unit res" where
  "check_number t hi nonnum outside =
     rbind (ensure (isnumeric t) nonnum) (\<lambda>_.
     rbind (int10 t) (\<lambda>v. ensure (1 \<le> v \<and> v \<le> hi) outside))"

definition check_wotm :: "string \<Rightarrow> unit res" where
  "check_wotm t = check_number t 6 ''week of the month non-numeric'' ''week of the month out of range''"

definition check_woty :: "string \<Rightarrow> unit res" where
  "check_woty t = check_number t 52 ''week of the year non-numeric'' ''week of the year out of range''"

definition check_doty :: "string \<Rightarrow> unit res" where
  "check_doty t = check_number t 365 ''day of the year non-numeric'' ''day of the year out of range''"

definition check_month_num :: "string \<Rightarrow> unit res" where
  "check_month_num t = check_number t 12 ''month number non-numeric'' ''month number out of range''"

section \<open>Intervals and periods\<close>

fun check_each :: "(string \<Rightarrow> unit res) \<Rightarrow> string list \<Rightarrow> unit res" where
  "check_each f [] = Inr ()"
| "check_each f (v # vs) = rbind (f v) (\<lambda>_. check_each f vs)"

definition check_one_interval :: "(string \<Rightarrow> unit res) \<Rightarrow> string \<Rightarrow> unit res" where
  "check_one_interval check_func i =
     rbind (ensure (i \<noteq> []) ''invalid time range'') (\<lambda>_.
     let vs = py_split (CHR ''-'') i in
     rbind (ensure (length vs \<le> 2) ''invalid time range'') (\<lambda>_.
     rbind (check_each check_func vs) (\<lambda>_.
     if length vs = 2
     then rbind (int10 (vs ! 0)) (\<lambda>a. rbind (int10 (vs ! 1)) (\<lambda>b.
       ensure (a \<le> b) ''invalid time range''))
     else Inr ())))"

definition check_interval :: "string \<Rightarrow> (string \<Rightarrow> unit res) \<Rightarrow> unit res" where
  "check_interval t check_func = check_each (check_one_interval check_func) (py_split (CHR '','') t)"

text \<open>\<open>ts[index]\<close>, for an index from the start.\<close>

definition word :: "string list \<Rightarrow> nat \<Rightarrow> string res" where
  "word ts i = py_nth ts (int i)"

definition check_W_spec :: "string list \<Rightarrow> nat \<Rightarrow> nat res" where
  "check_W_spec ts index =
     rbind (word ts index) (\<lambda>w.
     rbind (ensure (w = ''day'') ''invalid week specifier'') (\<lambda>_.
     rbind (word ts (index + 1)) (\<lambda>v.
     rbind (check_interval v check_dotw) (\<lambda>_. Inr (index + 1)))))"

definition check_M_spec :: "string list \<Rightarrow> nat \<Rightarrow> nat res" where
  "check_M_spec ts index =
     rbind (word ts index) (\<lambda>w.
       if w = ''week'' then
         rbind (word ts (index + 1)) (\<lambda>v.
         rbind (check_interval v check_wotm) (\<lambda>_. check_W_spec ts (index + 2)))
       else if w = ''day'' then
         rbind (word ts (index + 1)) (\<lambda>v.
         rbind (check_interval v (\<lambda>t. check_dotm t 1 4)) (\<lambda>_. Inr (index + 1)))
       else Inl (ValueError ''invalid month specifier''))"

definition check_Y_spec :: "string list \<Rightarrow> nat \<Rightarrow> nat res" where
  "check_Y_spec ts index =
     rbind (word ts index) (\<lambda>w.
       if w = ''month'' then
         rbind (word ts (index + 1)) (\<lambda>v.
         rbind (check_interval v check_month_num) (\<lambda>_. check_M_spec ts (index + 2)))
       else if w = ''week'' then
         rbind (word ts (index + 1)) (\<lambda>v.
         rbind (check_interval v check_woty) (\<lambda>_. check_W_spec ts (index + 2)))
       else if w = ''day'' then
         rbind (word ts (index + 1)) (\<lambda>v.
         rbind (check_interval v check_doty) (\<lambda>_. Inr (index + 1)))
       else Inl (ValueError ''invalid year specifier''))"

section \<open>Absolute times and the whole check\<close>

definition check_generalized :: "string \<Rightarrow> unit res" where
  "check_generalized t =
     rbind (ensure (length t \<in> {10, 12, 14}) ''incomplete generalized time'') (\<lambda>_.
     rbind (ensure (isnumeric t) ''time non-numeric'') (\<lambda>_.
     rbind (check_month_num (sub t 4 6)) (\<lambda>_.
     rbind (int10 (sub t 0 4)) (\<lambda>year_num.
     rbind (int10 (sub t 4 6)) (\<lambda>month_num.
     rbind (check_dotm (sub t 6 8) month_num year_num) (\<lambda>_.
     rbind (if length t \<ge> 12 then check_HHMM (sub t 8 12) else check_HHMM (sub t 8 10 @ ''00'')) (\<lambda>_.
     if length t = 14
     then rbind (int10 (sub t 12 14)) (\<lambda>s. ensure (0 \<le> s \<and> s \<le> 60) ''seconds out of range'')
     else Inr ())))))))"

definition check_absolute :: "string list \<Rightarrow> unit res" where
  "check_absolute ts =
     rbind (ensure (length ts = 4) ''invalid format, must be absolute generalizedTime ~ generalizedTime'') (\<lambda>_.
     rbind (check_generalized (ts ! 1)) (\<lambda>_.
     rbind (ensure (ts ! 2 = ''~'') ''invalid time range separator'') (\<lambda>_.
     rbind (check_generalized (ts ! 3)) (\<lambda>_.
     rbind (int10 (ts ! 1)) (\<lambda>a. rbind (int10 (ts ! 3)) (\<lambda>b.
     ensure (a < b) ''invalid time range''))))))"

definition check_periodic :: "string list \<Rightarrow> unit res" where
  "check_periodic ts =
     rbind (word ts 1) (\<lambda>w.
     rbind (if w = ''yearly'' then check_Y_spec ts 2
            else if w = ''monthly'' then check_M_spec ts 2
            else if w = ''weekly'' then check_W_spec ts 2
            else if w = ''daily'' then Inr 1
            else Inl (ValueError ''period must be yearly, monthy or daily, got %s'')) (\<lambda>index.
     rbind (word ts (index + 1)) (\<lambda>v. check_interval v check_HHMM)))"

definition access_check :: "string \<Rightarrow> unit res" where
  "access_check time =
     (let ts = py_words time in
      rbind (word ts 0) (\<lambda>w.
        if w = ''absolute'' then check_absolute ts
        else if w = ''periodic'' then check_periodic ts
        else Inl (ValueError ''time neither absolute or periodic'')))"

section \<open>Numbers written in decimal\<close>

lemma dec_to_int_append: "dec_to_int (x @ y) = dec_to_int x * 10 ^ length y + dec_to_int y"
proof -
  define f where "f = (\<lambda>acc c. acc * 10 + (int (of_char c) - 48))"
  have step: "f a c = a * 10 + f 0 c" for a c by (simp add: f_def)
  have "foldl f a y = a * 10 ^ length y + foldl f 0 y" for a
  proof (induction y arbitrary: a)
    case (Cons c y)
    have "foldl f a (c # y) = (a * 10 + f 0 c) * 10 ^ length y + foldl f 0 y"
      using Cons [of "f a c"] step [of a c] by simp
    moreover have "foldl f 0 (c # y) = f 0 c * 10 ^ length y + foldl f 0 y"
      using Cons [of "f 0 c"] by simp
    ultimately show ?case by (simp only: length_Cons power_Suc distrib_right mult.assoc add.assoc)
  qed simp
  from this [of "foldl f 0 x"] show ?thesis by (simp add: dec_to_int_def f_def)
qed

lemma dec_to_int_bounds: "ascii_digits s \<Longrightarrow> 0 \<le> dec_to_int s \<and> dec_to_int s < 10 ^ length s"
proof (induction s rule: rev_induct)
  case (snoc c s)
  then have "48 \<le> (of_char c :: nat)" "(of_char c :: nat) \<le> 57" "ascii_digits s"
    by (auto simp: ascii_digits_def is_ascii_digit_code)
  moreover have "dec_to_int [c] = int (of_char c) - 48" by (simp add: dec_to_int_def)
  ultimately show ?case using snoc by (simp add: dec_to_int_append)
qed (simp add: dec_to_int_def)

lemma dec_less_append:
  assumes "ascii_digits (x @ y)" and "ascii_digits (x' @ y')" and "length y = length y'"
  shows "dec_to_int (x @ y) < dec_to_int (x' @ y') \<longleftrightarrow>
    dec_to_int x < dec_to_int x' \<or> (dec_to_int x = dec_to_int x' \<and> dec_to_int y < dec_to_int y')"
proof -
  let ?k = "10 ^ length y :: int"
  have b: "0 \<le> dec_to_int y" "dec_to_int y < ?k" "0 \<le> dec_to_int y'" "dec_to_int y' < ?k"
    using assms dec_to_int_bounds [of y] dec_to_int_bounds [of y'] by (auto simp: ascii_digits_def)
  have lt: "a * ?k + u < c * ?k + w" if "a < c" "u < ?k" "0 \<le> w" for a c u w :: int
  proof -
    have "a * ?k + u < (a + 1) * ?k" using that(2) by (simp add: algebra_simps)
    also have "\<dots> \<le> c * ?k" using that(1) by (intro mult_right_mono) auto
    finally show ?thesis using that(3) by simp
  qed
  consider "dec_to_int x < dec_to_int x'" | "dec_to_int x = dec_to_int x'" | "dec_to_int x' < dec_to_int x"
    by linarith
  then show ?thesis
  proof cases
    case 1
    with lt [OF 1 b(2,3)] show ?thesis by (simp add: dec_to_int_append assms(3))
  next
    case 2
    then show ?thesis by (simp add: dec_to_int_append assms(3))
  next
    case 3
    with lt [OF 3 b(4,1)] show ?thesis by (simp add: dec_to_int_append assms(3))
  qed
qed

section \<open>Errors\<close>

text \<open>The check raises nothing but \<open>ValueError\<close> and \<open>IndexError\<close>.\<close>

definition tame :: "'a res \<Rightarrow> bool" where
  "tame r \<longleftrightarrow> (\<forall>e. r = Inl e \<longrightarrow> (\<exists>m. e = ValueError m \<or> e = IndexError m))"

lemma tame_basic:
  "tame (Inr x)" "tame (Inl (ValueError m))" "tame (ensure b m)" "tame (int10 s)" "tame (word ts i)"
  by (auto simp: tame_def ensure_def int10_def word_def py_nth_def Let_def)

lemma tame_rbind: "tame m \<Longrightarrow> (\<And>x. tame (f x)) \<Longrightarrow> tame (rbind m f)"
  by (cases m) (auto simp: tame_def)

lemma tame_if: "tame a \<Longrightarrow> tame b \<Longrightarrow> tame (if c then a else b)"
  by simp

lemma tame_check_each: "(\<And>x. tame (f x)) \<Longrightarrow> tame (check_each f xs)"
  by (induction xs) (auto intro: tame_basic tame_rbind)

lemmas tame_intros = tame_basic tame_rbind tame_if tame_check_each

lemma tame_check_interval: "(\<And>x. tame (f x)) \<Longrightarrow> tame (check_interval t f)"
  unfolding check_interval_def check_one_interval_def Let_def by (intro tame_intros)

lemma tame_fields:
  "tame (check_HHMM t)" "tame (check_dotw t)" "tame (check_dotm t m y)" "tame (check_wotm t)"
  "tame (check_woty t)" "tame (check_doty t)" "tame (check_month_num t)"
  unfolding check_HHMM_def check_dotw_def check_dotm_def check_wotm_def check_woty_def
    check_doty_def check_month_num_def check_number_def
  by (intro tame_intros)+

lemma tame_W_spec: "tame (check_W_spec ts i)"
  unfolding check_W_spec_def by (intro tame_intros tame_check_interval tame_fields)

lemma tame_M_spec: "tame (check_M_spec ts i)"
  unfolding check_M_spec_def by (intro tame_intros tame_check_interval tame_fields tame_W_spec)

lemma tame_Y_spec: "tame (check_Y_spec ts i)"
  unfolding check_Y_spec_def
  by (intro tame_intros tame_check_interval tame_fields tame_W_spec tame_M_spec)

lemma tame_access_check: "tame (access_check s)"
  unfolding access_check_def check_absolute_def check_periodic_def check_generalized_def Let_def
  by (intro tame_intros tame_check_interval tame_fields tame_W_spec tame_M_spec tame_Y_spec)

section \<open>What an accepted time means\<close>

text \<open>The fields of a generalized time; a field that is not written is 0.\<close>

definition time_key :: "string \<Rightarrow> int \<times> int \<times> int \<times> int \<times> int \<times> int" where
  "time_key t =
     (dec_to_int (sub t 0 4), dec_to_int (sub t 4 6), dec_to_int (sub t 6 8),
      dec_to_int (sub t 8 10), dec_to_int (sub t 10 12), dec_to_int (sub t 12 14))"

definition days_in_month :: "int \<Rightarrow> int \<Rightarrow> int" where
  "days_in_month m y =
     (if m \<in> {4, 6, 9, 11} then 30 else if m = 2 then (if leap_year y then 29 else 28) else 31)"

definition valid_time :: "string \<Rightarrow> bool" where
  "valid_time t \<longleftrightarrow>
     ascii_digits t \<and> length t \<in> {10, 12, 14} \<and>
     (case time_key t of (y, mo, d, h, mi, s) \<Rightarrow>
        1 \<le> mo \<and> mo \<le> 12 \<and> 1 \<le> d \<and> d \<le> days_in_month mo y \<and>
        0 \<le> h \<and> h \<le> 23 \<and> 0 \<le> mi \<and> mi \<le> 59 \<and> 0 \<le> s \<and> s \<le> 60)"

lemma ensure_Inr [simp]: "ensure b m = Inr u \<longleftrightarrow> b"
  by (simp add: ensure_def)

lemma int10_Inr: "int10 s = Inr i \<longleftrightarrow> s \<noteq> [] \<and> ascii_digits s \<and> i = dec_to_int s"
  by (auto simp: int10_def)

lemma check_number_Inr:
  "check_number t hi m1 m2 = Inr () \<Longrightarrow> ascii_digits t \<and> 1 \<le> dec_to_int t \<and> dec_to_int t \<le> hi"
  by (auto simp: check_number_def int10_Inr)

lemma check_HHMM_Inr:
  "check_HHMM t = Inr () \<Longrightarrow> length t = 4 \<and>
     dec_to_int (sub t 0 2) \<le> 23 \<and> dec_to_int (sub t 2 4) \<le> 59"
  by (auto simp: check_HHMM_def int10_Inr)

lemma check_dotm_Inr:
  assumes "check_dotm t m y = Inr ()" and "1 \<le> m" and "m \<le> 12"
  shows "1 \<le> dec_to_int t \<and> dec_to_int t \<le> days_in_month m y"
proof -
  have "m \<in> set [1 .. 12]" using assms(2,3) by simp
  moreover have "[1 .. 12 :: int] = [1, 2, 3, 4, 5, 6, 7, 8, 9, 10, 11, 12]" by code_simp
  ultimately have m: "m \<in> set [1, 2, 3, 4, 5, 6, 7, 8, 9, 10, 11, 12]" by (simp only:)
  have v: "rbind (ensure (isnumeric t) ''day of the month non-numeric'') (\<lambda>_. rbind (int10 t) (\<lambda>v.
      ensure (1 \<le> v \<and> v \<le> days_in_month m y) ''day of the month out of range'')) = check_dotm t m y"
    using m unfolding list.set insert_iff empty_iff
    by (elim disjE FalseE) (simp_all add: check_dotm_def days_in_month_def)
  with assms(1) show ?thesis by (auto simp: int10_Inr)
qed

lemma ascii_digits_sub: "ascii_digits t \<Longrightarrow> ascii_digits (sub t i j)"
  by (auto simp: ascii_digits_def sub_def list_all_iff dest: in_set_takeD in_set_dropD)

lemma dec_to_int_sub_nonneg: "ascii_digits t \<Longrightarrow> 0 \<le> dec_to_int (sub t i j)"
  using ascii_digits_sub dec_to_int_bounds by blast

lemma check_generalized_valid:
  assumes "check_generalized t = Inr ()" and "ascii_digits t"
  shows "valid_time t"
proof -
  have len: "length t \<in> {10, 12, 14}" using assms(1) by (auto simp: check_generalized_def)
  have mo: "1 \<le> dec_to_int (sub t 4 6)" "dec_to_int (sub t 4 6) \<le> 12"
    using assms(1) by (auto simp: check_generalized_def check_month_num_def dest: check_number_Inr)
  have d: "1 \<le> dec_to_int (sub t 6 8)"
    "dec_to_int (sub t 6 8) \<le> days_in_month (dec_to_int (sub t 4 6)) (dec_to_int (sub t 0 4))"
    using assms(1) mo by (auto simp: check_generalized_def int10_Inr dest: check_dotm_Inr)
  have hm: "dec_to_int (sub t 8 10) \<le> 23 \<and> dec_to_int (sub t 10 12) \<le> 59"
  proof (cases "length t \<ge> 12")
    case True
    then have "check_HHMM (sub t 8 12) = Inr ()" using assms(1) by (auto simp: check_generalized_def)
    from check_HHMM_Inr [OF this] show ?thesis by (simp add: sub_def drop_take add.commute)
  next
    case False
    then have "check_HHMM (sub t 8 10 @ ''00'') = Inr ()" "length t = 10"
      using assms(1) len by (auto simp: check_generalized_def)
    moreover from this have "sub t 10 12 = []" by (simp add: sub_def)
    ultimately show ?thesis
      using check_HHMM_Inr [of "sub t 8 10 @ ''00''"] by (simp add: sub_def dec_to_int_def)
  qed
  have sec: "dec_to_int (sub t 12 14) \<le> 60"
  proof (cases "length t = 14")
    case True
    then show ?thesis using assms(1) by (auto simp: check_generalized_def int10_Inr)
  next
    case False
    with len have "sub t 12 14 = []" by (auto simp: sub_def)
    then show ?thesis by (simp add: dec_to_int_def)
  qed
  show ?thesis
    using assms(2) len mo d hm sec by (simp add: valid_time_def time_key_def dec_to_int_sub_nonneg)
qed

text \<open>Every valid time is accepted.\<close>

lemma ascii_digits_isnumeric: "ascii_digits t \<Longrightarrow> t \<noteq> [] \<Longrightarrow> isnumeric t"
  by (auto simp: ascii_digits_def isnumeric_def list_all_iff)

lemma check_number_valid:
  assumes "ascii_digits t" "t \<noteq> []" "1 \<le> dec_to_int t" "dec_to_int t \<le> hi"
  shows "check_number t hi m1 m2 = Inr ()"
  using assms ascii_digits_isnumeric [OF assms(1,2)] int10_Inr [of t "dec_to_int t"]
  by (simp add: check_number_def)

lemma check_dotm_valid:
  assumes "ascii_digits t" "t \<noteq> []" "1 \<le> dec_to_int t" "dec_to_int t \<le> days_in_month m y"
  shows "check_dotm t m y = Inr ()"
  using assms ascii_digits_isnumeric [OF assms(1,2)] int10_Inr [of t "dec_to_int t"]
  by (auto simp: check_dotm_def days_in_month_def split: if_splits)

lemma check_HHMM_valid:
  assumes "ascii_digits t" "length t = 4" "dec_to_int (sub t 0 2) \<le> 23" "dec_to_int (sub t 2 4) \<le> 59"
  shows "check_HHMM t = Inr ()"
proof -
  have "t \<noteq> []" "sub t 0 2 \<noteq> []" "sub t 2 4 \<noteq> []" using assms(2) by (auto simp: sub_def)
  moreover have "int10 (sub t i j) = Inr (dec_to_int (sub t i j))" if "sub t i j \<noteq> []" for i j
    using that ascii_digits_sub [OF assms(1)] by (simp add: int10_Inr)
  ultimately show ?thesis
    using assms ascii_digits_isnumeric [OF assms(1)] dec_to_int_sub_nonneg [OF assms(1)] by (simp add: check_HHMM_def)
qed

lemma sub_sub: "sub (sub t i j) k l = sub t (i + k) (min j (i + l))"
proof -
  have "min (l - k) (j - i - k) = min j (i + l) - (i + k)" by (simp add: min_def) arith
  then show ?thesis unfolding sub_def drop_take take_take drop_drop by (simp add: add.commute)
qed

lemma check_time_valid:
  assumes "valid_time t"
  shows "(if length t \<ge> 12 then check_HHMM (sub t 8 12) else check_HHMM (sub t 8 10 @ ''00'')) = Inr ()"
proof -
  have t: "ascii_digits t" "length t \<in> {10, 12, 14}" "dec_to_int (sub t 8 10) \<le> 23" "dec_to_int (sub t 10 12) \<le> 59"
    using assms by (auto simp: valid_time_def time_key_def)
  show ?thesis
  proof (cases "length t \<ge> 12")
    case True
    then have "length (sub t 8 12) = 4" by (simp add: sub_def)
    moreover have "sub (sub t 8 12) 0 2 = sub t 8 10" "sub (sub t 8 12) 2 4 = sub t 10 12" by (simp_all add: sub_sub)
    ultimately have "check_HHMM (sub t 8 12) = Inr ()"
      using t by (intro check_HHMM_valid ascii_digits_sub) simp_all
    with True show ?thesis by simp
  next
    case False
    then have "length (sub t 8 10) = 2" using t(2) by (auto simp: sub_def)
    moreover from this have "sub (sub t 8 10 @ ''00'') 0 2 = sub t 8 10" "sub (sub t 8 10 @ ''00'') 2 4 = ''00''"
      by (simp_all add: sub_def)
    moreover have "ascii_digits (sub t 8 10 @ ''00'')"
      using ascii_digits_sub [OF t(1), of 8 10] by (simp add: ascii_digits_def is_ascii_digit_code)
    moreover have "dec_to_int ''00'' = 0" by code_simp
    ultimately have "check_HHMM (sub t 8 10 @ ''00'') = Inr ()" using t(3) by (intro check_HHMM_valid) simp_all
    with False show ?thesis by simp
  qed
qed

lemma check_generalized_complete:
  assumes "valid_time t"
  shows "check_generalized t = Inr ()"
proof -
  have t: "ascii_digits t" "length t \<in> {10, 12, 14}" using assms by (auto simp: valid_time_def)
  have key: "1 \<le> dec_to_int (sub t 4 6)" "dec_to_int (sub t 4 6) \<le> 12" "1 \<le> dec_to_int (sub t 6 8)"
    "dec_to_int (sub t 6 8) \<le> days_in_month (dec_to_int (sub t 4 6)) (dec_to_int (sub t 0 4))"
    "0 \<le> dec_to_int (sub t 12 14)" "dec_to_int (sub t 12 14) \<le> 60"
    using assms by (auto simp: valid_time_def time_key_def)
  have ne: "t \<noteq> []" "sub t 0 4 \<noteq> []" "sub t 4 6 \<noteq> []" "sub t 6 8 \<noteq> []" "length t = 14 \<Longrightarrow> sub t 12 14 \<noteq> []"
    using t(2) by (auto simp: sub_def)
  have int: "int10 (sub t i j) = Inr (dec_to_int (sub t i j))" if "sub t i j \<noteq> []" for i j
    using that ascii_digits_sub [OF t(1)] by (simp add: int10_Inr)
  have "check_month_num (sub t 4 6) = Inr ()"
    unfolding check_month_num_def using key ne(3) by (intro check_number_valid ascii_digits_sub [OF t(1)])
  moreover have "check_dotm (sub t 6 8) (dec_to_int (sub t 4 6)) (dec_to_int (sub t 0 4)) = Inr ()"
    using key ne(4) by (intro check_dotm_valid ascii_digits_sub [OF t(1)])
  moreover have "isnumeric t" using t(1) ne(1) by (rule ascii_digits_isnumeric)
  ultimately show ?thesis
    using t(2) check_time_valid [OF assms] int ne key(5,6) by (simp add: check_generalized_def)
qed

text \<open>The number of a time whose year has four digits lies in the decade of its length.\<close>

lemma time_number_bounds:
  assumes "valid_time t" "1000 \<le> fst (time_key t)"
  shows "10 ^ (length t - 1) \<le> dec_to_int t" "dec_to_int t < 10 ^ length t"
proof -
  have t: "ascii_digits t" "length t \<ge> 4" using assms(1) by (auto simp: valid_time_def)
  have "t = sub t 0 4 @ drop 4 t" by (simp add: sub_def)
  then have d: "dec_to_int t = dec_to_int (sub t 0 4) * 10 ^ (length t - 4) + dec_to_int (drop 4 t)"
    using dec_to_int_append [of "sub t 0 4" "drop 4 t"] by simp
  have "ascii_digits (drop 4 t)" using t(1) by (auto simp: ascii_digits_def list_all_iff dest: in_set_dropD)
  then have "0 \<le> dec_to_int (drop 4 t)" using dec_to_int_bounds by blast
  moreover have "10 ^ 3 * 10 ^ (length t - 4) \<le> dec_to_int (sub t 0 4) * 10 ^ (length t - 4)"
    using assms(2) by (intro mult_right_mono) (simp_all add: time_key_def)
  moreover have "(10 :: int) ^ (length t - 1) = 10 ^ 3 * 10 ^ (length t - 4)"
    using t(2) by (simp only: power_add [symmetric]) (simp add: numeral_eq_Suc Suc_diff_Suc)
  ultimately show "10 ^ (length t - 1) \<le> dec_to_int t" unfolding d by linarith
  show "dec_to_int t < 10 ^ length t" using dec_to_int_bounds [OF t(1)] by simp
qed

lemma mixed_precision_less:
  assumes "valid_time a" "1000 \<le> fst (time_key a)" "valid_time b" "1000 \<le> fst (time_key b)" "length a < length b"
  shows "dec_to_int a < dec_to_int b"
proof -
  have "dec_to_int a < 10 ^ length a" using assms(1,2) by (rule time_number_bounds)
  also have "(10 :: int) ^ length a \<le> 10 ^ (length b - 1)" using assms(5) by (intro power_increasing) simp_all
  also have "\<dots> \<le> dec_to_int b" using assms(3,4) by (rule time_number_bounds)
  finally show ?thesis .
qed

lemma pair_less_iff: "((a :: int), b) < (c, d) \<longleftrightarrow> a < c \<or> (a = c \<and> b < d)"
  by auto

lemma time_key_less:
  assumes "ascii_digits a" and "ascii_digits b" and "length a = length b" and "length a \<le> 14"
  shows "dec_to_int a < dec_to_int b \<longleftrightarrow> time_key a < time_key b"
proof -
  have cut: "dec_to_int (drop i a) < dec_to_int (drop i b) \<longleftrightarrow>
      dec_to_int (sub a i j) < dec_to_int (sub b i j) \<or>
      (dec_to_int (sub a i j) = dec_to_int (sub b i j) \<and> dec_to_int (drop j a) < dec_to_int (drop j b))"
    if "i \<le> j" for i j
  proof -
    have "drop i x = sub x i j @ drop j x" for x :: string
      using that append_take_drop_id [of "j - i" "drop i x"] by (simp add: sub_def)
    then show ?thesis
      using assms dec_less_append [of "sub a i j" "drop j a" "sub b i j" "drop j b"]
      by (metis ascii_digits_def length_drop list_all_append append_take_drop_id)
  qed
  have "drop 14 a = []" "drop 14 b = []" using assms by simp_all
  then show ?thesis
    using cut [of 0 4] cut [of 4 6] cut [of 6 8] cut [of 8 10] cut [of 10 12] cut [of 12 14]
    by (simp add: time_key_def pair_less_iff del: less_prod_simp)
qed

lemma access_check_absolute:
  assumes "access_check s = Inr ()" and "py_words s = ''absolute'' # ws"
  shows "\<exists>a b. ws = [a, ''~'', b] \<and> check_generalized a = Inr () \<and> check_generalized b = Inr () \<and>
    ascii_digits a \<and> ascii_digits b \<and> dec_to_int a < dec_to_int b"
proof -
  have c: "check_absolute (''absolute'' # ws) = Inr ()"
    using assms by (simp add: access_check_def word_def py_nth_def)
  then have "length ws = 3" by (auto simp: check_absolute_def)
  then obtain a x b where "ws = [a, x, b]" by (auto simp: numeral_3_eq_3 length_Suc_conv)
  with c show ?thesis by (auto simp: check_absolute_def int10_Inr)
qed

section \<open>Properties\<close>

text \<open>
  C39: an accepted absolute access time has the form \<open>absolute a ~ b\<close> with two valid
  generalized times (months, days of the month with leap years, hours, minutes and seconds in
  range), and when both are written with the same precision, \<open>a\<close> is before \<open>b\<close>.
\<close>

theorem access_time_absolute_sound:
  assumes "access_check s = Inr ()" and "py_words s = ''absolute'' # ws"
  shows "\<exists>a b. ws = [a, ''~'', b] \<and> valid_time a \<and> valid_time b \<and>
    (length a = length b \<longrightarrow> time_key a < time_key b)"
proof -
  obtain a b where ab: "ws = [a, ''~'', b]" "check_generalized a = Inr ()" "check_generalized b = Inr ()"
    "ascii_digits a" "ascii_digits b" "dec_to_int a < dec_to_int b"
    using access_check_absolute [OF assms] by blast
  then have v: "valid_time a" "valid_time b" by (simp_all add: check_generalized_valid)
  then have "length a \<le> 14" by (auto simp: valid_time_def)
  with ab v time_key_less [of a b] show ?thesis by blast
qed

theorem access_time_absolute_sound_witness:
  "access_check ''absolute 201012161032 ~ 201012161033'' = Inr () \<and>
   valid_time ''201012161032'' \<and> time_key ''201012161032'' < time_key ''201012161033''"
proof -
  have "access_check ''absolute 201012161032 ~ 201012161033'' = Inr ()" by code_simp
  moreover have "py_words ''absolute 201012161032 ~ 201012161033'' =
      ''absolute'' # [''201012161032'', ''~'', ''201012161033'']" by code_simp
  ultimately show ?thesis using access_time_absolute_sound by fastforce
qed

text \<open>
  C40: which absolute ranges are accepted. Between two valid generalized times, of years from 1000
  on, the range is accepted when they have the same precision and the first is before the second,
  and otherwise exactly when the first is written with fewer digits, whatever the times are: times
  of different precision are compared as plain numbers, so that a range may end before it starts,
  and a proper range whose start has more digits is rejected.
\<close>

theorem access_time_mixed_precision:
  assumes "py_words s = [''absolute'', a, ''~'', b]"
    and "valid_time a" "valid_time b" "1000 \<le> fst (time_key a)" "1000 \<le> fst (time_key b)"
  shows "access_check s =
    (if length a < length b \<or> length a = length b \<and> time_key a < time_key b then Inr ()
     else Inl (ValueError ''invalid time range''))"
proof -
  have ab: "ascii_digits a" "ascii_digits b" "length a \<le> 14" "a \<noteq> []" "b \<noteq> []"
    using assms(2,3) by (auto simp: valid_time_def)
  have "access_check s = ensure (dec_to_int a < dec_to_int b) ''invalid time range''"
    using assms(1) ab check_generalized_complete [OF assms(2)] check_generalized_complete [OF assms(3)]
    by (simp add: access_check_def check_absolute_def word_def py_nth_def int10_def ensure_def [of True] numeral_eq_Suc)
  moreover have "dec_to_int a < dec_to_int b \<longleftrightarrow> length a < length b \<or> length a = length b \<and> time_key a < time_key b"
  proof (cases "length a" "length b" rule: linorder_cases)
    case less
    then show ?thesis using mixed_precision_less [OF assms(2,4,3,5)] by simp
  next
    case equal
    then show ?thesis using time_key_less [OF ab(1,2) equal ab(3)] by simp
  next
    case greater
    then show ?thesis using mixed_precision_less [OF assms(3,5,2,4)] by simp
  qed
  ultimately show ?thesis by (simp add: ensure_def)
qed

theorem access_time_mixed_precision_witness:
  "access_check ''absolute 2026010100 ~ 20250101000000'' = Inr () \<and>
   \<not> time_key ''2026010100'' < time_key ''20250101000000'' \<and>
   access_check ''absolute 20250101000000 ~ 2026010100'' = Inl (ValueError ''invalid time range'') \<and>
   time_key ''20250101000000'' < time_key ''2026010100''"
proof -
  have w: "py_words ''absolute 2026010100 ~ 20250101000000'' = [''absolute'', ''2026010100'', ''~'', ''20250101000000'']"
    "py_words ''absolute 20250101000000 ~ 2026010100'' = [''absolute'', ''20250101000000'', ''~'', ''2026010100'']"
    by code_simp+
  have v: "valid_time ''2026010100''" "valid_time ''20250101000000''" "1000 \<le> fst (time_key ''2026010100'')"
    "1000 \<le> fst (time_key ''20250101000000'')" by code_simp+
  have "time_key ''20250101000000'' < time_key ''2026010100''" by code_simp
  then show ?thesis
    using access_time_mixed_precision [OF w(1) v] access_time_mixed_precision [OF w(2) v(2,1,4,3)] by simp
qed

end
