(* ===== verification/Parameters.thy ===== *)
theory Parameters
  imports Base_NameSpace Param_Values Access_Time
begin

text \<open>
  \<^verbatim>\<open>src/ipalib/parameters.py\<close>: the typed parameters of commands. A value passes through
  \<open>normalize\<close>, \<open>convert\<close> and \<open>validate\<close>; a missing value is replaced by \<open>get_default\<close>. The
  subclasses differ in the allowed types, in \<open>_convert_scalar\<close> and in the rules that
  \<open>Param.__init__\<close> collects from the keyword arguments that are given.

  A parameter is the record of the attributes its constructor has set, with its class as the
  datatype \<open>pclass\<close>. Custom rules and normalizers, which plugins supply, are functions in that
  record; the compiled pattern is its \<open>match\<close> predicate. Parsing of floats, distinguished names
  and base64 are parameters. Not here: the classes for certificates, decimals, dates, DNS names
  and files, and the generic keyword checks of \<open>Param.__init__\<close>.
\<close>

section \<open>Parameter specifications\<close>

definition parse_param_spec :: "string \<Rightarrow> (string \<times> bool \<times> bool) res" where
  "parse_param_spec spec =
     rbind (py_nth spec (-1)) (\<lambda>last_char.
       if last_char = CHR ''?'' then Inr (butlast spec, False, False)
       else if last_char = CHR ''*'' then Inr (butlast spec, False, True)
       else if last_char = CHR ''+'' then Inr (butlast spec, True, True)
       else Inr (spec, True, False))"

definition param_spec :: "string \<Rightarrow> bool \<Rightarrow> bool \<Rightarrow> string" where
  "param_spec name required multivalue =
     (if required then (if multivalue then name @ ''+'' else name)
      else (if multivalue then name @ ''*'' else name @ ''?''))"

section \<open>Parameters\<close>

text \<open>
  \<open>CEnum\<close> is a \<open>StrEnum\<close> or \<open>BytesEnum\<close>, whose type is \<open>unicode\<close> both.
\<close>

datatype pclass =
    CParam | CBool | CInt | CStr | CIA5Str | CPassword | CBytes | CEnum | CIntEnum | CAny
  | CDNParam | CPrincipal | CSerialNumber | CAccessTime

type_synonym rule = "pval \<Rightarrow> string option res"

record default_from =
  df_keys :: "string list"
  df_callback :: "pval list \<Rightarrow> pval res"

record param =
  p_class :: pclass
  p_name :: string
  p_cli_name :: string
  p_required :: bool
  p_multivalue :: bool
  p_normalizer :: "(pval \<Rightarrow> pval res) option"
  p_default_from :: "default_from option"
  p_default :: pval
  p_query :: bool
  p_include :: "string set option"
  p_exclude :: "string set option"
  p_flags :: "string set"
  p_no_convert :: bool
  p_deprecated :: bool
  p_rules :: "rule list"
  p_minvalue :: int
  p_maxvalue :: int
  p_minlength :: "int option"
  p_maxlength :: "int option"
  p_length :: "int option"
  p_pattern :: "(string \<Rightarrow> bool) option"
  p_pattern_errmsg :: "string option"
  p_noextrawhitespace :: bool
  p_values :: "pval list"
  p_truths :: "pval list"
  p_falsehoods :: "pval list"
  p_require_service :: bool

text \<open>The code outside the repository the conversions call.\<close>

record param_lib =
  pl_float :: float_lib
  pl_dn :: dn_lib
  pl_b64decode :: "string \<Rightarrow> string option"

definition allowed_types :: "pclass \<Rightarrow> ptype list" where
  "allowed_types c =
     (case c of
        CParam \<Rightarrow> [TNone]
      | CBool \<Rightarrow> [TBool]
      | CInt \<Rightarrow> [TInt]
      | CStr \<Rightarrow> [TStr]
      | CIA5Str \<Rightarrow> [TStr]
      | CPassword \<Rightarrow> [TStr]
      | CBytes \<Rightarrow> [TBytes]
      | CEnum \<Rightarrow> [TStr]
      | CIntEnum \<Rightarrow> [TInt]
      | CAny \<Rightarrow> [TObject]
      | CDNParam \<Rightarrow> [TDN]
      | CPrincipal \<Rightarrow> [TPrincipal, TStr]
      | CSerialNumber \<Rightarrow> [TStr]
      | CAccessTime \<Rightarrow> [TStr])"

definition is_password :: "param \<Rightarrow> bool" where
  "is_password p \<longleftrightarrow> p_class p = CPassword"

definition is_null :: "pval \<Rightarrow> bool" where
  "is_null v =
     (if py_truth v then False
      else (case v of PBool _ \<Rightarrow> False | PInt _ \<Rightarrow> False | PFloat _ \<Rightarrow> False | _ \<Rightarrow> True))"

definition get_param_name :: "param \<Rightarrow> string" where
  "get_param_name p = (if p_cli_name p = [] then p_name p else p_cli_name p)"

definition ConversionError :: "string \<Rightarrow> pyexc" where
  "ConversionError m = PublicError ''ConversionError'' m"

definition ValidationError :: "string \<Rightarrow> pyexc" where
  "ValidationError m = PublicError ''ValidationError'' m"

definition RequirementError :: "string \<Rightarrow> pyexc" where
  "RequirementError m = PublicError ''RequirementError'' m"

definition scalar_error :: string where
  "scalar_error = ''Only one value is allowed''"

definition type_error :: "pclass \<Rightarrow> string" where
  "type_error c =
     (case c of
        CBool \<Rightarrow> ''must be True or False''
      | CInt \<Rightarrow> ''must be an integer''
      | CIntEnum \<Rightarrow> ''must be an integer''
      | CBytes \<Rightarrow> ''must be binary data''
      | CStr \<Rightarrow> ''must be Unicode text''
      | CIA5Str \<Rightarrow> ''must be Unicode text''
      | CPassword \<Rightarrow> ''must be Unicode text''
      | CSerialNumber \<Rightarrow> ''must be Unicode text''
      | CAccessTime \<Rightarrow> ''must be Unicode text''
      | CPrincipal \<Rightarrow> ''must be Kerberos principal''
      | _ \<Rightarrow> ''incorrect type'')"

section \<open>Conversion\<close>

definition convert_base :: "param \<Rightarrow> pval \<Rightarrow> pval res" where
  "convert_base p v =
     (if list_ex (\<lambda>t. isinstance t v) (allowed_types (p_class p)) then Inr v
      else Inl (ConversionError (type_error (p_class p))))"

definition convert_bool :: "param \<Rightarrow> pval \<Rightarrow> pval res" where
  "convert_bool p v =
     (case v of
        PBool _ \<Rightarrow> Inr v
      | _ \<Rightarrow>
          let w = (case v of PStr s \<Rightarrow> PStr (py_lower s) | _ \<Rightarrow> v) in
          rbind (in_set w (p_truths p)) (\<lambda>t.
            if t then Inr (PBool True)
            else rbind (in_set w (p_falsehoods p)) (\<lambda>f.
              if f then Inr (PBool False)
              else (case w of
                      PTuple _ \<Rightarrow> Inl (ConversionError scalar_error)
                    | PList _ \<Rightarrow> Inl (ConversionError scalar_error)
                    | _ \<Rightarrow> Inl (ConversionError (type_error (p_class p)))))))"

definition octal_prefix :: "string \<Rightarrow> bool" where
  "octal_prefix s \<longleftrightarrow> take 1 s = ''0'' \<and> length s \<ge> 2 \<and> is_ascii_digit (s ! 1)"

definition convert_int :: "float_lib \<Rightarrow> pval \<Rightarrow> int res" where
  "convert_int lib v =
     (case v of
        PInt i \<Rightarrow> Inr i
      | PFloat f \<Rightarrow> int_of_float f
      | PStr s \<Rightarrow>
          if CHR ''.'' \<in> set s
          then (case float_of lib s of
                  None \<Rightarrow> Inl (ValueError ''could not convert string to float'')
                | Some f \<Rightarrow> int_of_float f)
          else if octal_prefix s then int_of_text 8 s
          else int_of_text 0 s
      | _ \<Rightarrow> Inl (ValueError ''value''))"

definition convert_int_scalar :: "float_lib \<Rightarrow> param \<Rightarrow> pval \<Rightarrow> pval res" where
  "convert_int_scalar lib p v =
     (case convert_int lib v of
        Inr i \<Rightarrow> Inr (PInt i)
      | Inl (ValueError _) \<Rightarrow> Inl (ConversionError (type_error (p_class p)))
      | Inl e \<Rightarrow> Inl e)"

definition convert_str :: "float_lib \<Rightarrow> param \<Rightarrow> pval \<Rightarrow> pval res" where
  "convert_str lib p v =
     (case v of
        PStr _ \<Rightarrow> Inr v
      | PInt i \<Rightarrow> Inr (PStr (int_to_dec i))
      | PFloat f \<Rightarrow> Inr (PStr (float_str lib f))
      | PTuple _ \<Rightarrow> Inl (ConversionError scalar_error)
      | PList _ \<Rightarrow> Inl (ConversionError scalar_error)
      | _ \<Rightarrow> Inl (ConversionError (type_error (p_class p))))"

definition convert_ia5str :: "float_lib \<Rightarrow> param \<Rightarrow> pval \<Rightarrow> pval res" where
  "convert_ia5str lib p v =
     (case v of
        PStr s \<Rightarrow>
          if list_ex (\<lambda>c. (of_char c :: nat) > 127) s
          then Inl (ConversionError ''The character %(char)r is not allowed.'')
          else convert_str lib p v
      | _ \<Rightarrow> convert_str lib p v)"

definition convert_password :: "float_lib \<Rightarrow> param \<Rightarrow> pval \<Rightarrow> pval res" where
  "convert_password lib p v =
     (let pair = (case v of PTuple [a, b] \<Rightarrow> Some (a, b) | PList [a, b] \<Rightarrow> Some (a, b) | _ \<Rightarrow> None)
      in case pair of
           Some (p1, p2) \<Rightarrow>
             if \<not> py_eq p1 p2 then Inl (PublicError ''PasswordMismatch'' (p_name p))
             else convert_str lib p p1
         | None \<Rightarrow> convert_str lib p v)"

definition convert_bytes :: "param_lib \<Rightarrow> param \<Rightarrow> pval \<Rightarrow> pval res" where
  "convert_bytes lib p v =
     rbind (case v of
              PStr s \<Rightarrow>
                (case pl_b64decode lib s of
                   None \<Rightarrow> Inl (PublicError ''Base64DecodeError'' ''%(reason)s'')
                 | Some b \<Rightarrow> Inr (PBytes b))
            | _ \<Rightarrow> Inr v)
       (convert_base p)"

definition dn_arg_of :: "pval \<Rightarrow> dn_arg" where
  "dn_arg_of v =
     (case v of PStr s \<Rightarrow> AStr s | PBytes _ \<Rightarrow> ABytes | PDN d \<Rightarrow> ADN d | _ \<Rightarrow> AOther)"

definition convert_dn :: "dn_lib \<Rightarrow> param \<Rightarrow> pval \<Rightarrow> pval res" where
  "convert_dn lib p v =
     (case v of
        PDN _ \<Rightarrow> Inr v
      | PTuple _ \<Rightarrow> Inl (ConversionError scalar_error)
      | PList _ \<Rightarrow> Inl (ConversionError scalar_error)
      | _ \<Rightarrow>
          (case DN_init lib [dn_arg_of v] of
             Inr d \<Rightarrow> Inr (PDN d)
           | Inl _ \<Rightarrow> Inl (ConversionError ''e'')))"

definition convert_principal :: "param \<Rightarrow> pval \<Rightarrow> pval res" where
  "convert_principal p v =
     rbind (case v of
              PStr s \<Rightarrow>
                (case Principal_init (ArgText s) None of
                   Inr q \<Rightarrow> Inr (PPrincipal q)
                 | Inl (ValueError _) \<Rightarrow> Inl (ConversionError ''Malformed principal: %(value)s'')
                 | Inl e \<Rightarrow> Inl e)
            | _ \<Rightarrow> Inr v)
       (convert_base p)"

definition convert_scalar :: "param_lib \<Rightarrow> param \<Rightarrow> pval \<Rightarrow> pval res" where
  "convert_scalar lib p v =
     (case p_class p of
        CBool \<Rightarrow> convert_bool p v
      | CInt \<Rightarrow> convert_int_scalar (pl_float lib) p v
      | CIntEnum \<Rightarrow> convert_int_scalar (pl_float lib) p v
      | CStr \<Rightarrow> convert_str (pl_float lib) p v
      | CSerialNumber \<Rightarrow> convert_str (pl_float lib) p v
      | CAccessTime \<Rightarrow> convert_str (pl_float lib) p v
      | CIA5Str \<Rightarrow> convert_ia5str (pl_float lib) p v
      | CPassword \<Rightarrow> convert_password (pl_float lib) p v
      | CBytes \<Rightarrow> convert_bytes lib p v
      | CAny \<Rightarrow> Inr v
      | CDNParam \<Rightarrow> convert_dn (pl_dn lib) p v
      | CPrincipal \<Rightarrow> convert_principal p v
      | CParam \<Rightarrow> convert_base p v
      | CEnum \<Rightarrow> convert_base p v)"

definition values_of :: "pval \<Rightarrow> pval list" where
  "values_of v = (case v of PTuple l \<Rightarrow> l | PList l \<Rightarrow> l | _ \<Rightarrow> [v])"

definition convert :: "param_lib \<Rightarrow> param \<Rightarrow> pval \<Rightarrow> pval res" where
  "convert lib p v =
     (let conv = (if \<not> p_no_convert p then convert_scalar lib p
                  else (\<lambda>x. case x of PStr _ \<Rightarrow> Inr x | _ \<Rightarrow> convert_scalar lib p x))
      in if is_null v then Inr PNone
         else if p_multivalue p then
           rbind (rmap conv (filter (\<lambda>x. \<not> is_null x) (values_of v))) (\<lambda>ws.
             if length ws = 0 then Inr PNone else Inr (PTuple ws))
         else conv v)"

section \<open>Normalization and defaults\<close>

definition normalize_scalar :: "param \<Rightarrow> pval \<Rightarrow> pval" where
  "normalize_scalar p v =
     (case p_normalizer p of
        None \<Rightarrow> v
      | Some f \<Rightarrow> (case f v of Inr w \<Rightarrow> w | Inl _ \<Rightarrow> v))"

definition normalize :: "param \<Rightarrow> pval \<Rightarrow> pval" where
  "normalize p v =
     (if p_multivalue p then PTuple (map (normalize_scalar p) (values_of v))
      else normalize_scalar p v)"

definition default_from_call :: "default_from \<Rightarrow> (string \<times> pval) list \<Rightarrow> pval" where
  "default_from_call df kw =
     (let vals = map (\<lambda>k. case map_of kw k of None \<Rightarrow> PNone | Some v \<Rightarrow> v) (df_keys df) in
      if PNone \<in> set vals then PNone
      else (case df_callback df vals of Inr v \<Rightarrow> v | Inl _ \<Rightarrow> PNone))"

definition get_default :: "param_lib \<Rightarrow> param \<Rightarrow> (string \<times> pval) list \<Rightarrow> pval" where
  "get_default lib p kw =
     (case p_default_from p of
        None \<Rightarrow> p_default p
      | Some df \<Rightarrow>
          let d = default_from_call df kw in
          if d = PNone then p_default p
          else (case convert lib p (normalize p d) of Inr v \<Rightarrow> v | Inl _ \<Rightarrow> p_default p))"

definition param_call :: "param_lib \<Rightarrow> param \<Rightarrow> pval \<Rightarrow> (string \<times> pval) list \<Rightarrow> pval res" where
  "param_call lib p v kw =
     (if is_null v then Inr (get_default lib p kw) else convert lib p (normalize p v))"

definition use_in_context :: "param \<Rightarrow> string \<Rightarrow> bool" where
  "use_in_context p context =
     (case p_include p of
        Some inc \<Rightarrow> context \<in> inc
      | None \<Rightarrow> (case p_exclude p of Some exc \<Rightarrow> context \<notin> exc | None \<Rightarrow> True))"

definition safe_value :: "param \<Rightarrow> pval \<Rightarrow> pval" where
  "safe_value p v = (if is_password p \<and> v \<noteq> PNone then PStr ''********'' else v)"

section \<open>Rules\<close>

definition int_value :: "pval \<Rightarrow> int res" where
  "int_value v =
     (case v of
        PInt i \<Rightarrow> Inr i
      | PBool b \<Rightarrow> Inr (if b then 1 else 0)
      | _ \<Rightarrow> Inl (AssertionError ''isinstance(value, int)''))"

definition rule_minvalue :: "param \<Rightarrow> rule" where
  "rule_minvalue p v =
     rbind (int_value v) (\<lambda>i.
       Inr (if i < p_minvalue p then Some ''must be at least %(minvalue)d'' else None))"

definition rule_maxvalue :: "param \<Rightarrow> rule" where
  "rule_maxvalue p v =
     rbind (int_value v) (\<lambda>i.
       Inr (if i > p_maxvalue p then Some ''can be at most %(maxvalue)d'' else None))"

text \<open>The text or bytes whose length a rule of \<open>Str\<close> or \<open>Bytes\<close> measures.\<close>

definition data_value :: "param \<Rightarrow> pval \<Rightarrow> string res" where
  "data_value p v =
     (case v of
        PStr s \<Rightarrow> if p_class p = CBytes then Inl (AssertionError ''type(value) is bytes'') else Inr s
      | PBytes s \<Rightarrow> if p_class p = CBytes then Inr s else Inl (AssertionError ''type(value) is unicode'')
      | _ \<Rightarrow> Inl (AssertionError ''type(value)''))"

definition unit_name :: "param \<Rightarrow> string" where
  "unit_name p = (if p_class p = CBytes then '' bytes'' else '' characters'')"

definition rule_minlength :: "param \<Rightarrow> int \<Rightarrow> rule" where
  "rule_minlength p n v =
     rbind (data_value p v) (\<lambda>s.
       Inr (if int (length s) < n then Some (''must be at least %(minlength)d'' @ unit_name p) else None))"

definition rule_maxlength :: "param \<Rightarrow> int \<Rightarrow> rule" where
  "rule_maxlength p n v =
     rbind (data_value p v) (\<lambda>s.
       Inr (if int (length s) > n then Some (''can be at most %(maxlength)d'' @ unit_name p) else None))"

definition rule_length :: "param \<Rightarrow> int \<Rightarrow> rule" where
  "rule_length p n v =
     rbind (data_value p v) (\<lambda>s.
       Inr (if int (length s) \<noteq> n then Some (''must be exactly %(length)d'' @ unit_name p) else None))"

definition rule_pattern :: "param \<Rightarrow> (string \<Rightarrow> bool) \<Rightarrow> rule" where
  "rule_pattern p re v =
     rbind (data_value p v) (\<lambda>s.
       Inr (if \<not> re s
            then Some (case p_pattern_errmsg p of
                         Some (c # cs) \<Rightarrow> c # cs
                       | _ \<Rightarrow> ''must match pattern %(pattern)s'')
            else None))"

definition rule_noextrawhitespace :: "param \<Rightarrow> rule" where
  "rule_noextrawhitespace p v =
     rbind (data_value p v) (\<lambda>s.
       Inr (if \<not> p_noextrawhitespace p then None
            else if length s \<noteq> length (py_strip s)
            then Some ''Leading and trailing spaces are not allowed'' else None))"

definition rule_values :: "param \<Rightarrow> rule" where
  "rule_values p v =
     Inr (if \<not> in_tuple v (p_values p)
          then (if length (p_values p) = 1 then Some ''must be %(value)s''
                else Some ''must be one of %(values)s'')
          else None)"

definition rule_require_service :: "param \<Rightarrow> rule" where
  "rule_require_service p v =
     (if \<not> p_require_service p then Inr None
      else (case v of
              PPrincipal q \<Rightarrow>
                if is_service q then Inr None
                else Inl (ValidationError ''Service principal is required'')
            | _ \<Rightarrow> Inl (AttributeError ''is_service'')))"

text \<open>\<open>AccessTime._rule_required\<close>: every failure of the check becomes a \<open>ValidationError\<close>.\<close>

definition rule_access_time :: "param \<Rightarrow> rule" where
  "rule_access_time p v =
     (case v of
        PStr s \<Rightarrow>
          (case access_check s of
             Inr _ \<Rightarrow> Inr None
           | Inl (ValueError m) \<Rightarrow> Inl (ValidationError m)
           | Inl (IndexError _) \<Rightarrow> Inl (ValidationError ''incomplete time value'')
           | Inl e \<Rightarrow> Inl e)
      | _ \<Rightarrow> Inl (AttributeError ''split''))"

text \<open>A rule is added for each keyword that has a value, in the order of \<open>kwargs\<close>.\<close>

definition length_rules :: "param \<Rightarrow> rule list" where
  "length_rules p =
     (case p_minlength p of None \<Rightarrow> [] | Some n \<Rightarrow> [rule_minlength p n]) @
     (case p_maxlength p of None \<Rightarrow> [] | Some n \<Rightarrow> [rule_maxlength p n]) @
     (case p_length p of None \<Rightarrow> [] | Some n \<Rightarrow> [rule_length p n])"

definition pattern_rules :: "param \<Rightarrow> rule list" where
  "pattern_rules p = (case p_pattern p of None \<Rightarrow> [] | Some re \<Rightarrow> [rule_pattern p re])"

definition class_rules :: "param \<Rightarrow> rule list" where
  "class_rules p =
     (case p_class p of
        CInt \<Rightarrow> [rule_minvalue p, rule_maxvalue p]
      | CStr \<Rightarrow> length_rules p @ pattern_rules p @ [rule_noextrawhitespace p]
      | CIA5Str \<Rightarrow> length_rules p @ pattern_rules p @ [rule_noextrawhitespace p]
      | CPassword \<Rightarrow> length_rules p @ pattern_rules p @ [rule_noextrawhitespace p]
      | CAccessTime \<Rightarrow> [rule_access_time p] @ length_rules p @ pattern_rules p @ [rule_noextrawhitespace p]
      | CBytes \<Rightarrow> length_rules p @ pattern_rules p
      | CSerialNumber \<Rightarrow> length_rules p
      | CEnum \<Rightarrow> [rule_values p]
      | CIntEnum \<Rightarrow> [rule_values p]
      | CPrincipal \<Rightarrow> [rule_require_service p]
      | _ \<Rightarrow> [])"

definition all_rules :: "param \<Rightarrow> rule list" where
  "all_rules p = (if p_query p then [] else class_rules p @ p_rules p)"

section \<open>Validation\<close>

fun run_rules :: "rule list \<Rightarrow> pval \<Rightarrow> unit res" where
  "run_rules [] v = Inr ()"
| "run_rules (r # rs) v =
     rbind (r v) (\<lambda>e. case e of Some m \<Rightarrow> Inl (ValidationError m) | None \<Rightarrow> run_rules rs v)"

definition validate_scalar_base :: "param \<Rightarrow> pval \<Rightarrow> unit res" where
  "validate_scalar_base p v =
     (if \<not> list_ex (\<lambda>t. isinstance t v) (allowed_types (p_class p))
      then Inl (TypeError ''%s: need a %r; got %r (a %r)'')
      else run_rules (all_rules p) v)"

text \<open>The additional checks of \<open>SerialNumber\<close>, on the text.\<close>

definition serial_check :: "string \<Rightarrow> unit res" where
  "serial_check s =
     (if is_prefix_of ''-'' s then Inl (ValidationError ''must be at least 0'')
      else rbind
        (if \<not> isdigit s then
           (if is_prefix_of ''0x'' (py_lower s) then
              (case int_of_text 16 (drop 2 s) of
                 Inr _ \<Rightarrow> Inr ()
               | Inl _ \<Rightarrow> Inl (ValidationError ''invalid valid hex''))
            else Inl (ValidationError ''must be an integer''))
         else Inr ())
        (\<lambda>_. if s = ''0'' then Inl (ValidationError ''invalid serial number 0'') else Inr ()))"

definition validate_scalar :: "param \<Rightarrow> pval \<Rightarrow> unit res" where
  "validate_scalar p v =
     (case p_class p of
        CAny \<Rightarrow> run_rules (all_rules p) v
      | CSerialNumber \<Rightarrow>
          rbind (validate_scalar_base p v) (\<lambda>_.
            case v of PStr s \<Rightarrow> serial_check s | _ \<Rightarrow> Inl (AttributeError ''startswith''))
      | _ \<Rightarrow> validate_scalar_base p v)"

fun validate_all :: "param \<Rightarrow> pval list \<Rightarrow> unit res" where
  "validate_all p [] = Inr ()"
| "validate_all p (v # vs) = rbind (validate_scalar p v) (\<lambda>_. validate_all p vs)"

definition validate :: "param \<Rightarrow> pval \<Rightarrow> bool \<Rightarrow> unit res" where
  "validate p v supplied =
     (if v = PNone then
        (if p_required p \<or> (supplied \<and> ''nonempty'' \<in> p_flags p)
         then Inl (RequirementError (p_name p)) else Inr ())
      else if p_deprecated p then Inl (ValidationError ''this option is deprecated'')
      else if p_multivalue p then
        (case v of
           PTuple vs \<Rightarrow>
             if length vs < 1 then Inl (ValueError ''value: empty tuple must be converted to None'')
             else validate_all p vs
         | _ \<Rightarrow> Inl (TypeError ''%s: need a %r; got %r (a %r)''))
      else validate_scalar p v)"

section \<open>Constructor checks of the subclasses\<close>




definition Data_init :: "param \<Rightarrow> param res" where
  "Data_init p =
     (if \<not> (p_length p = None \<or> (p_minlength p = None \<and> p_maxlength p = None))
      then Inl (ValueError ''%s: cannot mix length with minlength or maxlength'')
      else if (case p_minlength p of Some n \<Rightarrow> n < 1 | None \<Rightarrow> False)
      then Inl (ValueError ''%s: minlength must be >= 1; got %r'')
      else if (case p_maxlength p of Some n \<Rightarrow> n < 1 | None \<Rightarrow> False)
      then Inl (ValueError ''%s: maxlength must be >= 1; got %r'')
      else (case (p_minlength p, p_maxlength p) of
              (Some a, Some b) \<Rightarrow>
                if a > b then Inl (ValueError ''%s: minlength > maxlength (minlength=%r, maxlength=%r)'')
                else if a = b then Inl (ValueError ''%s: minlength == maxlength; use length=%d instead'')
                else Inr p
            | _ \<Rightarrow> Inr p))"

text \<open>\<open>type(v) not in self.allowed_types\<close> for a value of an \<open>Enum\<close>: a bool is not an int here.\<close>

definition exact_type :: "ptype \<Rightarrow> pval \<Rightarrow> bool" where
  "exact_type t v =
     (case v of
        PNone \<Rightarrow> t = TNone | PBool _ \<Rightarrow> t = TBool | PInt _ \<Rightarrow> t = TInt | PStr _ \<Rightarrow> t = TStr
      | PBytes _ \<Rightarrow> t = TBytes | PDN _ \<Rightarrow> t = TDN | PPrincipal _ \<Rightarrow> t = TPrincipal | _ \<Rightarrow> False)"

definition Enum_init :: "param \<Rightarrow> param res" where
  "Enum_init p =
     (if list_ex (\<lambda>v. \<not> list_ex (\<lambda>t. exact_type t v) (allowed_types (p_class p))) (p_values p)
      then Inl (TypeError ''%s values[%d]'')
      else if length (p_values p) < 1 then Inl (ValueError ''%s: list of values must not be empty'')
      else Inr p)"


section \<open>Lemmas\<close>

lemma is_null_simps [simp]:
  "is_null PNone" "\<not> is_null (PBool b)" "\<not> is_null (PInt i)" "\<not> is_null (PFloat f)"
  "is_null (PStr s) = (s = [])" "is_null (PBytes s) = (s = [])" "is_null (PTuple l) = (l = [])"
  "is_null (PList l) = (l = [])" "is_null (PDN d) = (d = [])" "\<not> is_null (PPrincipal q)" "\<not> is_null (PObj t)"
  by (simp_all add: is_null_def)

text \<open>The values a class converts to.\<close>

definition converted :: "pclass \<Rightarrow> pval \<Rightarrow> bool" where
  "converted c w =
     (case c of
        CBool \<Rightarrow> (\<exists>b. w = PBool b)
      | CInt \<Rightarrow> (\<exists>i. w = PInt i)
      | CIntEnum \<Rightarrow> (\<exists>i. w = PInt i)
      | CBytes \<Rightarrow> (\<exists>s. w = PBytes s)
      | CAny \<Rightarrow> True
      | CDNParam \<Rightarrow> (\<exists>d. w = PDN d)
      | CPrincipal \<Rightarrow> (\<exists>q. w = PPrincipal q)
      | CParam \<Rightarrow> w = PNone
      | _ \<Rightarrow> (\<exists>s. w = PStr s))"

lemma isinstance_simps [simp]:
  "isinstance TNone v \<longleftrightarrow> v = PNone"
  "isinstance TStr v \<longleftrightarrow> (\<exists>s. v = PStr s)"
  "isinstance TBytes v \<longleftrightarrow> (\<exists>s. v = PBytes s)"
  "isinstance TPrincipal v \<longleftrightarrow> (\<exists>q. v = PPrincipal q)"
  "isinstance TDN v \<longleftrightarrow> (\<exists>d. v = PDN d)"
  "isinstance TBool v \<longleftrightarrow> (\<exists>b. v = PBool b)"
  "isinstance TInt v \<longleftrightarrow> (\<exists>i. v = PInt i) \<or> (\<exists>b. v = PBool b)"
  "isinstance TObject v"
  by (auto simp: isinstance_def split: pval.splits)

lemma convert_str_Inr: "convert_str lib p v = Inr w \<Longrightarrow> \<exists>s. w = PStr s"
  by (auto simp: convert_str_def split: pval.splits)

lemma convert_bool_Inr: "convert_bool p v = Inr w \<Longrightarrow> \<exists>b. w = PBool b"
  by (cases v) (auto simp: convert_bool_def Let_def split: if_splits)

lemma convert_int_scalar_Inr: "convert_int_scalar lib p v = Inr w \<Longrightarrow> \<exists>i. w = PInt i"
  by (auto simp: convert_int_scalar_def split: sum.splits pyexc.splits)

lemma convert_password_Inr: "convert_password lib p v = Inr w \<Longrightarrow> \<exists>s. w = PStr s"
  by (auto simp: convert_password_def Let_def split: option.splits prod.splits if_splits
      dest: convert_str_Inr)

lemma convert_ia5str_Inr: "convert_ia5str lib p v = Inr w \<Longrightarrow> \<exists>s. w = PStr s"
  by (auto simp: convert_ia5str_def split: pval.splits if_splits dest: convert_str_Inr)

lemma convert_dn_Inr: "convert_dn lib p v = Inr w \<Longrightarrow> \<exists>d. w = PDN d"
  by (auto simp: convert_dn_def split: pval.splits sum.splits)

lemma convert_principal_Inr:
  "convert_principal p v = Inr w \<Longrightarrow> p_class p = CPrincipal \<Longrightarrow> \<exists>q. w = PPrincipal q"
  by (auto simp: convert_principal_def convert_base_def allowed_types_def
      split: pval.splits sum.splits pyexc.splits if_splits)

lemma convert_bytes_Inr:
  "convert_bytes lib p v = Inr w \<Longrightarrow> p_class p = CBytes \<Longrightarrow> \<exists>s. w = PBytes s"
  by (auto simp: convert_bytes_def convert_base_def allowed_types_def
      split: pval.splits option.splits if_splits)

lemma convert_scalar_converted: "convert_scalar lib p v = Inr w \<Longrightarrow> converted (p_class p) w"
  by (cases "p_class p")
    (auto simp: convert_scalar_def converted_def convert_base_def allowed_types_def
      dest: convert_str_Inr convert_bool_Inr convert_int_scalar_Inr convert_password_Inr
        convert_ia5str_Inr convert_dn_Inr convert_principal_Inr convert_bytes_Inr
      split: if_splits)

lemma convert_Inr:
  assumes "convert lib p v = Inr w" and "\<not> p_no_convert p" and "w \<noteq> PNone"
  shows "if p_multivalue p then \<exists>ws. w = PTuple ws \<and> ws \<noteq> [] \<and> list_all (converted (p_class p)) ws
    else converted (p_class p) w"
proof (cases "p_multivalue p")
  case True
  with assms obtain ws where ws:
    "rmap (convert_scalar lib p) (filter (\<lambda>x. \<not> is_null x) (values_of v)) = Inr ws"
    "w = PTuple ws" "ws \<noteq> []"
    by (auto simp: convert_def Let_def split: if_splits)
  then have "list_all (converted (p_class p)) ws"
    by (fastforce simp: rmap_Inr_iff list_all_length list_all2_conv_all_nth
        intro: convert_scalar_converted)
  with True ws show ?thesis by simp
next
  case False
  with assms show ?thesis
    by (auto simp: convert_def Let_def split: if_splits intro: convert_scalar_converted)
qed

text \<open>Validation of a converted value raises nothing but the errors meant for the caller.\<close>

definition public :: "'a res \<Rightarrow> bool" where
  "public r \<longleftrightarrow> (\<forall>e. r = Inl e \<longrightarrow> (\<exists>c m. e = PublicError c m))"

lemma public_simps [simp]:
  "public (Inr x)" "public (Inl (PublicError c m))" "public (Inl (ValidationError m))"
  "public (Inl (RequirementError m))"
  by (auto simp: public_def ValidationError_def RequirementError_def)

lemma public_rbind: "public m \<Longrightarrow> (\<And>x. m = Inr x \<Longrightarrow> public (f x)) \<Longrightarrow> public (rbind m f)"
  by (cases m) (auto simp: public_def)

lemma public_run_rules: "list_all (\<lambda>r. public (r v)) rs \<Longrightarrow> public (run_rules rs v)"
  by (induction rs) (auto intro!: public_rbind split: option.split)

lemma data_value_converted:
  "converted (p_class p) w \<Longrightarrow> p_class p \<in> {CStr, CIA5Str, CPassword, CBytes, CSerialNumber, CAccessTime} \<Longrightarrow>
   \<exists>s. data_value p w = Inr s"
  by (auto simp: converted_def data_value_def split: pclass.splits)

lemma public_length_rules:
  assumes "data_value p w = Inr s"
  shows "list_all (\<lambda>r. public (r w)) (length_rules p @ pattern_rules p @ [rule_noextrawhitespace p])"
  using assms
  by (auto simp: length_rules_def pattern_rules_def rule_minlength_def rule_maxlength_def
      rule_length_def rule_pattern_def rule_noextrawhitespace_def split: option.split)

lemma public_access_rule: "public (rule_access_time p (PStr s))"
  using tame_access_check [of s]
  by (auto simp: rule_access_time_def tame_def split: sum.split)

lemma public_class_rules:
  assumes "converted (p_class p) w"
  shows "list_all (\<lambda>r. public (r w)) (class_rules p)"
proof (cases "p_class p \<in> {CStr, CIA5Str, CPassword, CBytes, CSerialNumber, CAccessTime}")
  case True
  then obtain s where "data_value p w = Inr s" using data_value_converted assms by blast
  note l = public_length_rules [OF this]
  with True assms public_access_rule show ?thesis
    by (auto simp: class_rules_def converted_def)
next
  case False
  with assms show ?thesis
    by (auto simp: class_rules_def converted_def rule_minvalue_def rule_maxvalue_def int_value_def
        rule_values_def rule_require_service_def split: pclass.splits)
qed

lemma public_serial_check: "public (serial_check s)"
  by (auto simp: serial_check_def intro!: public_rbind split: sum.split)

lemma converted_allowed:
  "converted c w \<Longrightarrow> list_ex (\<lambda>t. isinstance t w) (allowed_types c)"
  by (cases c) (auto simp: converted_def allowed_types_def)

lemma public_validate_scalar:
  assumes "converted (p_class p) w" and "p_rules p = []"
  shows "public (validate_scalar p w)"
proof -
  have "public (run_rules (all_rules p) w)"
    using public_class_rules [OF assms(1)] assms(2) by (intro public_run_rules) (auto simp: all_rules_def)
  then have "public (validate_scalar_base p w)"
    using converted_allowed [OF assms(1)] by (simp add: validate_scalar_base_def)
  with \<open>public (run_rules (all_rules p) w)\<close> assms(1) show ?thesis
    by (auto simp: validate_scalar_def converted_def intro!: public_rbind public_serial_check
        split: pclass.splits)
qed

lemma public_validate_all:
  "list_all (converted (p_class p)) ws \<Longrightarrow> p_rules p = [] \<Longrightarrow> public (validate_all p ws)"
  by (induction ws) (auto intro!: public_rbind public_validate_scalar)

text \<open>Converting twice, for the classes whose converted values are never empty.\<close>

lemma nat_to_dec_ne: "nat_to_dec n \<noteq> []"
  by (subst nat_to_dec.simps) simp

lemma nat_to_dec_ascii: "list_all (\<lambda>c. (of_char c :: nat) \<le> 127) (nat_to_dec n)"
proof (induction n rule: nat_to_dec.induct)
  case (1 n)
  have d: "(of_char (digit_char m) :: nat) \<le> 127" if "m < 10" for m
    using that by (simp add: digit_char_def)
  show ?case
    using 1 by (subst nat_to_dec.simps) (auto simp: d)
qed

lemma int_to_dec_text: "int_to_dec i \<noteq> []" "list_all (\<lambda>c. (of_char c :: nat) \<le> 127) (int_to_dec i)"
  by (auto simp: int_to_dec_def nat_to_dec_ne nat_to_dec_ascii)

definition text_floats :: "float_lib \<Rightarrow> bool" where
  "text_floats lib \<longleftrightarrow>
     (\<forall>f. float_str lib f \<noteq> [] \<and> list_all (\<lambda>c. (of_char c :: nat) \<le> 127) (float_str lib f))"

definition nonempty_classes :: "pclass set" where
  "nonempty_classes = {CBool, CInt, CIntEnum, CStr, CIA5Str, CEnum, CPrincipal, CSerialNumber, CAccessTime}"

lemma convert_str_text:
  assumes "convert_str lib p v = Inr w" and "\<not> is_null v" and "text_floats lib"
  shows "\<exists>s. w = PStr s \<and> s \<noteq> []"
  using assms by (cases v) (auto simp: convert_str_def int_to_dec_text text_floats_def)

lemma convert_ia5str_text:
  assumes "convert_ia5str lib p v = Inr w" and "\<not> is_null v" and "text_floats lib"
  shows "\<exists>s. w = PStr s \<and> s \<noteq> [] \<and> \<not> list_ex (\<lambda>c. (of_char c :: nat) > 127) s"
proof (cases "\<exists>s. v = PStr s")
  case True
  with assms show ?thesis by (auto simp: convert_ia5str_def convert_str_def split: if_splits)
next
  case False
  have "(\<exists>i. w = PStr (int_to_dec i)) \<or> (\<exists>f. w = PStr (float_str lib f))"
    using assms(1) False by (cases v) (auto simp: convert_ia5str_def convert_str_def)
  moreover have "\<not> list_ex (\<lambda>c. (of_char c :: nat) > 127) s" if "list_all (\<lambda>c. (of_char c :: nat) \<le> 127) s" for s
    using that by (auto simp: list_all_iff list_ex_iff)
  ultimately show ?thesis using int_to_dec_text assms(3) unfolding text_floats_def by blast
qed

lemma convert_scalar_twice:
  assumes "convert_scalar lib p v = Inr w" and "p_class p \<in> nonempty_classes" and "\<not> is_null v"
    and "text_floats (pl_float lib)"
  shows "convert_scalar lib p w = Inr w \<and> \<not> is_null w"
proof -
  from assms(2) consider "p_class p \<in> {CStr, CSerialNumber, CAccessTime}" | "p_class p = CIA5Str"
    | "p_class p = CEnum" | "p_class p = CBool" | "p_class p \<in> {CInt, CIntEnum}" | "p_class p = CPrincipal"
    by (auto simp: nonempty_classes_def)
  then show ?thesis
  proof cases
    case 1
    with assms(1) have "convert_str (pl_float lib) p v = Inr w" by (auto simp: convert_scalar_def)
    from convert_str_text [OF this assms(3,4)] 1 show ?thesis
      by (auto simp: convert_scalar_def convert_str_def)
  next
    case 2
    with assms(1) have "convert_ia5str (pl_float lib) p v = Inr w" by (simp add: convert_scalar_def)
    from convert_ia5str_text [OF this assms(3,4)] 2 show ?thesis
      by (auto simp: convert_scalar_def convert_ia5str_def convert_str_def)
  next
    case 3
    with assms(1,3) show ?thesis
      by (auto simp: convert_scalar_def convert_base_def split: if_splits)
  next
    case 4
    with assms(1) convert_bool_Inr [of p v w] show ?thesis
      by (auto simp: convert_scalar_def convert_bool_def [of p "PBool b" for b])
  next
    case 5
    with assms(1) have "\<exists>i. w = PInt i" using convert_int_scalar_Inr by (auto simp: convert_scalar_def)
    with 5 show ?thesis by (auto simp: convert_scalar_def convert_int_scalar_def convert_int_def)
  next
    case 6
    with assms(1) convert_principal_Inr [of p v w] show ?thesis
      by (auto simp: convert_scalar_def convert_principal_def [of p "PPrincipal q" for q]
          convert_base_def allowed_types_def)
  qed
qed

text \<open>A converted scalar is converted to itself, whatever its class.\<close>

lemma convert_scalar_again:
  assumes "convert_scalar lib p v = Inr w" and "text_floats (pl_float lib)" and "\<not> is_null v"
  shows "convert_scalar lib p w = Inr w"
proof (cases "p_class p \<in> nonempty_classes")
  case True
  then show ?thesis using convert_scalar_twice [OF assms(1) _ assms(3,2)] by blast
next
  case False
  then consider "p_class p \<in> {CParam, CAny}" | "p_class p = CPassword" | "p_class p = CBytes" | "p_class p = CDNParam"
    by (cases "p_class p") (simp_all add: nonempty_classes_def)
  then show ?thesis
  proof cases
    case 1
    with assms(1) show ?thesis by (auto simp: convert_scalar_def convert_base_def split: if_splits)
  next
    case 2
    with assms(1) convert_password_Inr [of "pl_float lib" p v w] show ?thesis
      by (auto simp: convert_scalar_def convert_password_def [of _ p "PStr x" for x] convert_str_def)
  next
    case 3
    with assms(1) convert_bytes_Inr [of lib p v w] show ?thesis
      by (auto simp: convert_scalar_def convert_bytes_def [of _ p "PBytes x" for x] convert_base_def allowed_types_def)
  next
    case 4
    with assms(1) convert_dn_Inr [of "pl_dn lib" p v w] show ?thesis
      by (auto simp: convert_scalar_def convert_dn_def [of _ p "PDN x" for x])
  qed
qed

text \<open>The conversion of one value, with \<open>no_convert\<close> taken into account.\<close>

definition conv_one :: "param_lib \<Rightarrow> param \<Rightarrow> pval \<Rightarrow> pval res" where
  "conv_one lib p =
     (if \<not> p_no_convert p then convert_scalar lib p
      else (\<lambda>x. case x of PStr _ \<Rightarrow> Inr x | _ \<Rightarrow> convert_scalar lib p x))"

lemma convert_conv_one:
  "convert lib p v =
     (if is_null v then Inr PNone
      else if p_multivalue p then
        rbind (rmap (conv_one lib p) (filter (\<lambda>x. \<not> is_null x) (values_of v))) (\<lambda>ws.
          if ws = [] then Inr PNone else Inr (PTuple ws))
      else conv_one lib p v)"
  by (simp add: convert_def conv_one_def Let_def)

lemma conv_one_again:
  assumes "conv_one lib p v = Inr w" and "text_floats (pl_float lib)" and "\<not> is_null v"
  shows "conv_one lib p w = Inr w" and "p_class p \<in> nonempty_classes \<Longrightarrow> \<not> is_null w"
proof -
  consider "convert_scalar lib p v = Inr w" | "p_no_convert p" "w = v" "\<exists>s. v = PStr s"
    using assms(1) by (auto simp: conv_one_def split: if_splits pval.splits)
  then show "conv_one lib p w = Inr w"
  proof cases
    case 1
    from convert_scalar_again [OF this assms(2,3)] show ?thesis by (cases w) (simp_all add: conv_one_def)
  qed (auto simp: conv_one_def)
  show "p_class p \<in> nonempty_classes \<Longrightarrow> \<not> is_null w"
    using convert_scalar_twice [OF _ _ assms(3,2)] assms(1,3)
    by (auto simp: conv_one_def split: if_splits pval.splits)
qed

lemma name_last:
  assumes "NAME_REGEX s"
  shows "is_lower_az (last s) \<or> is_ascii_digit (last s) \<or> last s = CHR 0x0A"
proof -
  have core: "is_lower_az (last t) \<or> is_ascii_digit (last t)" if "name_core t" for t
    using that by (auto simp: name_core_def split: list.splits)
  then show ?thesis using assms by (auto simp: NAME_REGEX_def)
qed

text \<open>A concrete parameter and library for the examples.\<close>

definition sample_lib :: param_lib where
  "sample_lib =
     \<lparr>pl_float = \<lparr>float_str = \<lambda>_. ''1.5'', float_of = \<lambda>_. Some (Inf False)\<rparr>,
      pl_dn = \<lparr>lib_str2dn = \<lambda>_. None, lib_dotted = \<lambda>_. []\<rparr>, pl_b64decode = \<lambda>_. None\<rparr>"

definition sample_int :: param where
  "sample_int =
     \<lparr>p_class = CInt, p_name = ''n'', p_cli_name = ''n'', p_required = True, p_multivalue = False,
      p_normalizer = None, p_default_from = None, p_default = PNone, p_query = False,
      p_include = None, p_exclude = None, p_flags = {}, p_no_convert = False, p_deprecated = False,
      p_rules = [], p_minvalue = -2147483648, p_maxvalue = 2147483647, p_minlength = None,
      p_maxlength = None, p_length = None, p_pattern = None, p_pattern_errmsg = None,
      p_noextrawhitespace = True, p_values = [], p_truths = [], p_falsehoods = [],
      p_require_service = False\<rparr>"

section \<open>Properties\<close>

text \<open>
  C38: the shorthand a parameter prints for itself parses back to its name, its required flag and
  its multivalue flag.
\<close>

theorem param_spec_round_trip:
  assumes "NAME_REGEX name"
  shows "parse_param_spec (param_spec name required multivalue) = Inr (name, required, multivalue)"
proof -
  have ne: "name \<noteq> []" using assms by (auto simp: NAME_REGEX_def name_core_def)
  have nth: "py_nth s (-1) = Inr (last s)" if "s \<noteq> []" for s :: string
    using that by (simp add: py_nth_def last_conv_nth nat_diff_distrib' Suc_leI)
  have "last name \<notin> {CHR ''?'', CHR ''*'', CHR ''+''}"
    using name_last [OF assms] by (auto simp: is_lower_az_def is_ascii_digit_def)
  then show ?thesis
    using ne by (simp add: parse_param_spec_def param_spec_def nth)
qed

theorem param_spec_round_trip_witness:
  "NAME_REGEX ''group'' \<and> parse_param_spec ''group*'' = Inr (''group'', False, True)"
proof -
  have "NAME_REGEX ''group''" by code_simp
  with param_spec_round_trip [of "''group''" False True] show ?thesis by (simp add: param_spec_def)
qed

text \<open>
  C28: a value that has been converted is well typed: validating it succeeds or raises one of the
  public errors (a missing or an invalid value), never an internal \<open>TypeError\<close>, \<open>ValueError\<close>,
  \<open>AttributeError\<close> or failed assertion. (For a parameter without custom rules.)
\<close>

theorem validate_after_convert_is_public:
  assumes "convert lib p v = Inr w" and "\<not> p_no_convert p" and "p_rules p = []"
    and "validate p w supplied = Inl e"
  shows "\<exists>c m. e = PublicError c m"
proof -
  have "public (validate p w supplied)"
  proof (cases "w = PNone")
    case True
    then show ?thesis by (simp add: validate_def)
  next
    case False
    show ?thesis
    proof (cases "p_multivalue p")
      case True
      then obtain ws where "w = PTuple ws" "ws \<noteq> []" "list_all (converted (p_class p)) ws"
        using convert_Inr [OF assms(1,2) False] by auto
      with True public_validate_all [OF _ assms(3), of ws] show ?thesis
        by (cases ws) (auto simp: validate_def)
    next
      case False': False
      then have "converted (p_class p) w" using convert_Inr [OF assms(1,2) False] by simp
      with False' public_validate_scalar [OF _ assms(3)] show ?thesis by (auto simp: validate_def)
    qed
  qed
  with assms(4) show ?thesis by (simp add: public_def)
qed

theorem validate_after_convert_is_public_witness:
  "convert sample_lib sample_int (PStr ''5000000000'') = Inr (PInt 5000000000) \<and>
   (\<exists>c m. validate sample_int (PInt 5000000000) True = Inl (PublicError c m))"
proof -
  have c: "convert sample_lib sample_int (PStr ''5000000000'') = Inr (PInt 5000000000)"
    and v: "validate sample_int (PInt 5000000000) True = Inl (ValidationError ''can be at most %(maxvalue)d'')"
    by code_simp+
  have "\<not> p_no_convert sample_int" "p_rules sample_int = []" by (simp_all add: sample_int_def)
  from validate_after_convert_is_public [OF c this v] c v show ?thesis by simp
qed

text \<open>A null value among those of a parameter.\<close>

definition has_null :: "param \<Rightarrow> pval \<Rightarrow> bool" where
  "has_null p w \<longleftrightarrow> w \<noteq> PNone \<and> (if p_multivalue p then list_ex is_null (values_of w) else is_null w)"

text \<open>
  C29: a converted value passes the conversion a second time unchanged exactly when none of its
  scalars is null (empty text, empty bytes, an empty DN). That is so for every value of the classes
  \<open>Bool\<close>, \<open>Int\<close>, \<open>IntEnum\<close>, \<open>Str\<close>, \<open>IA5Str\<close>, \<open>Enum\<close>, \<open>Principal\<close>, \<open>SerialNumber\<close> and \<open>AccessTime\<close>,
  with or without \<open>no_convert\<close>. It can fail for the others: a password given as two empty texts is
  converted to the empty text, which is converted to \<open>None\<close>. (Floats are assumed to print as
  non-empty ASCII text.)
\<close>

theorem convert_idempotent:
  assumes "convert lib p v = Inr w" and "text_floats (pl_float lib)"
  shows "(convert lib p w = Inr w \<longleftrightarrow> \<not> has_null p w) \<and>
    (p_class p \<in> nonempty_classes \<longrightarrow> \<not> has_null p w)"
proof (cases "w = PNone \<or> is_null v")
  case True
  then have "w = PNone" using assms(1) by (auto simp: convert_conv_one)
  then show ?thesis by (simp add: convert_conv_one has_null_def)
next
  case False
  then have w: "w \<noteq> PNone" and v: "\<not> is_null v" by simp_all
  show ?thesis
  proof (cases "p_multivalue p")
    case True
    with assms(1) w v obtain ws where ws:
      "rmap (conv_one lib p) (filter (\<lambda>x. \<not> is_null x) (values_of v)) = Inr ws" "w = PTuple ws" "ws \<noteq> []"
      by (auto simp: convert_conv_one split: if_splits)
    have *: "conv_one lib p x = Inr x" "p_class p \<in> nonempty_classes \<Longrightarrow> \<not> is_null x" if "x \<in> set ws" for x
      using rmap_Inr_in_set [OF ws(1) that] conv_one_again [where p = p, OF _ assms(2)] by auto
    let ?ws = "filter (\<lambda>x. \<not> is_null x) ws"
    have "rmap (conv_one lib p) ?ws = Inr ?ws"
      using rmap_total [of ?ws "conv_one lib p" "\<lambda>x. x"] * by simp
    then have c: "convert lib p w = (if ?ws = [] then Inr PNone else Inr (PTuple ?ws))"
      using True ws(2,3) by (simp add: convert_conv_one values_of_def)
    moreover have "?ws = ws \<longleftrightarrow> \<not> list_ex is_null ws" by (auto simp: filter_id_conv list_ex_iff)
    ultimately show ?thesis using True ws(2,3) *(2) w by (auto simp: has_null_def values_of_def list_ex_iff)
  next
    case False
    with assms(1) v have c: "conv_one lib p v = Inr w" by (simp add: convert_conv_one)
    have "convert lib p w = (if is_null w then Inr PNone else Inr w)"
      using False conv_one_again(1) [OF c assms(2) v] by (simp add: convert_conv_one)
    then show ?thesis using False w conv_one_again(2) [OF c assms(2) v] by (auto simp: has_null_def)
  qed
qed

definition sample_password :: param where
  "sample_password = sample_int\<lparr>p_class := CPassword\<rparr>"

theorem convert_idempotent_witness:
  "convert sample_lib sample_int (PStr ''0x10'') = Inr (PInt 16) \<and>
   convert sample_lib sample_int (PInt 16) = Inr (PInt 16) \<and>
   convert sample_lib sample_password (PTuple [PStr [], PStr []]) = Inr (PStr []) \<and>
   convert sample_lib sample_password (PStr []) \<noteq> Inr (PStr [])"
proof -
  have c: "convert sample_lib sample_int (PStr ''0x10'') = Inr (PInt 16)"
    "convert sample_lib sample_password (PTuple [PStr [], PStr []]) = Inr (PStr [])" by code_simp+
  have f: "text_floats (pl_float sample_lib)" by (simp add: text_floats_def sample_lib_def)
  have "p_class sample_int \<in> nonempty_classes" by (simp add: sample_int_def nonempty_classes_def)
  then have "convert sample_lib sample_int (PInt 16) = Inr (PInt 16)" using convert_idempotent [OF c(1) f] by blast
  moreover have "has_null sample_password (PStr [])"
    by (simp add: has_null_def sample_password_def sample_int_def is_null_def)
  ultimately show ?thesis using c convert_idempotent [OF c(2) f] by blast
qed



text \<open>
  Three conversions whose errors do not match their messages. A \<open>Bool\<close> given a list raises
  \<open>TypeError\<close> (the value is looked up in a set before it is tested for being a list); an \<open>Int\<close>
  given a text with a dot that \<open>float\<close> reads as infinity raises \<open>OverflowError\<close>; and a
  \<open>SerialNumber\<close> accepts every hexadecimal number, negative ones and zero included.
\<close>

lemma bool_of_list: "convert_bool q (PList l) = Inl (TypeError ''unhashable type'')"
  by (simp add: convert_bool_def in_set_def)

lemma int_of_infinite_text:
  assumes "p_class p \<in> {CInt, CIntEnum}" and "CHR ''.'' \<in> set s" and "float_of (pl_float lib) s = Some (Inf neg)"
  shows "convert_scalar lib p (PStr s) = Inl (OverflowError ''cannot convert float infinity to integer'')"
  using assms by (auto simp: convert_scalar_def convert_int_scalar_def convert_int_def int_of_float_def)

lemma serial_accepts_hex:
  assumes "int_of_text 16 s = Inr n"
  shows "serial_check (''0x'' @ s) = Inr ()"
proof -
  have x: "\<not> isdigit (''0x'' @ s)" by (simp add: isdigit_def is_ascii_digit_code)
  have "is_prefix_of ''0x'' (py_lower (''0x'' @ s))" by (simp add: is_prefix_of_def py_lower_def lower_char_def)
  then show ?thesis using assms x by (simp add: serial_check_def is_prefix_of_def)
qed

text \<open>
  The value of a password parameter never reaches a log: what \<open>safe_value\<close> returns does not
  depend on the password, only on whether one was given.
\<close>

theorem safe_value_hides_passwords:
  assumes "is_password p" and "v \<noteq> PNone" and "w \<noteq> PNone"
  shows "safe_value p v = safe_value p w"
  using assms by (simp add: safe_value_def)

theorem safe_value_hides_passwords_witness:
  "safe_value (sample_int\<lparr>p_class := CPassword\<rparr>) (PStr ''a'') =
   safe_value (sample_int\<lparr>p_class := CPassword\<rparr>) (PStr ''b'')"
  by (rule safe_value_hides_passwords) (simp_all add: is_password_def)

end
