(* ===== verification/LDAP_Filters.thy ===== *)
theory LDAP_Filters
  imports Py_Prelude
begin

text \<open>
  Construction of LDAP search filters, \<^verbatim>\<open>src/ipapython/ipaldap.py\<close> (\<open>combine_filters\<close>,
  \<open>make_filter_from_attr\<close>, \<open>make_filter\<close>), and what the built texts mean.

  \<open>escape_filter_chars\<close> of python-ldap is the parameter \<open>escape\<close>. A value is given as it is
  used: \<open>FVText s\<close> is any value whose \<open>str()\<close> (or formatted time) is \<open>s\<close>. The meaning of a
  filter text is the relation \<open>denotes\<close>, one rule per production of the filter grammar, over
  the test of a single attribute assertion.
\<close>

section \<open>Building filters\<close>

definition MATCH_ANY :: string where
  "MATCH_ANY = ''|''"

definition MATCH_ALL :: string where
  "MATCH_ALL = ''&''"

definition MATCH_NONE :: string where
  "MATCH_NONE = ''!''"

datatype flt_value = FVNone | FVText string | FVBytes string | FVList "flt_value list"

text \<open>The part of \<open>combine_filters\<close> after the negation: parenthesize and join.\<close>

definition join_filters :: "string list \<Rightarrow> string \<Rightarrow> string" where
  "join_filters filters rules =
     (if length filters > 1 then ''('' @ rules else []) @
     concat (map (\<lambda>f. if is_prefix_of ''('' f then f else ''('' @ f @ '')'') filters) @
     (if length filters > 1 then '')'' else [])"

definition combine_filters :: "string list \<Rightarrow> string \<Rightarrow> string" where
  "combine_filters filters rules =
     (let filters = filter (\<lambda>f. f \<noteq> []) filters in
      if filters \<noteq> [] \<and> rules = MATCH_NONE
      then ''('' @ MATCH_NONE @ join_filters filters MATCH_ANY @ '')''
      else join_filters filters rules)"

text \<open>\<open>hexlify\<close>, with a backslash before every byte.\<close>

definition hex_digit :: "nat \<Rightarrow> char" where
  "hex_digit n = (if n < 10 then char_of (n + 48) else char_of (n + 87))"

definition escape_bytes :: "string \<Rightarrow> string" where
  "escape_bytes b =
     concat (map (\<lambda>c. let n = (of_char c :: nat) in
       [CHR 0x5C, hex_digit (n div 16), hex_digit (n mod 16)]) b)"

definition value_text :: "bool \<Rightarrow> bool \<Rightarrow> bool \<Rightarrow> string \<Rightarrow> string" where
  "value_text exact leading_wildcard trailing_wildcard v =
     (if exact then v
      else (if leading_wildcard then ''*'' else []) @ v @ (if trailing_wildcard then ''*'' else []))"

definition scalar_filter :: "string \<Rightarrow> string \<Rightarrow> string \<Rightarrow> string" where
  "scalar_filter attr rules v =
     (if rules = MATCH_NONE then ''(!('' @ attr @ ''='' @ v @ ''))''
      else ''('' @ attr @ ''='' @ v @ '')'')"

fun make_filter_from_attr ::
  "(string \<Rightarrow> string) \<Rightarrow> string \<Rightarrow> flt_value \<Rightarrow> string \<Rightarrow> bool \<Rightarrow> bool \<Rightarrow> bool \<Rightarrow> string" where
  "make_filter_from_attr escape attr (FVList vs) rules exact lead trail =
     combine_filters
       (map (\<lambda>v. make_filter_from_attr escape attr v MATCH_ANY exact lead trail) vs) rules"
| "make_filter_from_attr escape attr FVNone rules exact lead trail = []"
| "make_filter_from_attr escape attr (FVBytes b) rules exact lead trail =
     scalar_filter attr rules (value_text exact lead trail (escape_bytes b))"
| "make_filter_from_attr escape attr (FVText s) rules exact lead trail =
     scalar_filter attr rules (value_text exact lead trail (escape s))"

definition make_filter ::
  "(string \<Rightarrow> string) \<Rightarrow> (string \<times> flt_value) list \<Rightarrow> string list option \<Rightarrow> string \<Rightarrow> bool \<Rightarrow> bool \<Rightarrow> bool \<Rightarrow> string" where
  "make_filter escape entry_attrs attrs_list rules exact lead trail =
     (let rules' = (if rules = MATCH_NONE then MATCH_ANY else rules);
          flts = (case attrs_list of
            None \<Rightarrow> map (\<lambda>(k, v). make_filter_from_attr escape k v rules' exact lead trail) entry_attrs
          | Some l \<Rightarrow> concat (map (\<lambda>a.
              case map_of entry_attrs a of
                None \<Rightarrow> []
              | Some FVNone \<Rightarrow> []
              | Some v \<Rightarrow> [make_filter_from_attr escape a v rules' exact lead trail]) l))
      in combine_filters flts rules)"

section \<open>Meaning\<close>

text \<open>What python-ldap documents of escaping: no character special to filters is left.\<close>

definition escape_ok :: "(string \<Rightarrow> string) \<Rightarrow> bool" where
  "escape_ok escape \<longleftrightarrow>
     (\<forall>s. set (escape s) \<inter> {CHR ''('', CHR '')'', CHR ''*'', CHR 0x00} = {})"

definition plain :: "string \<Rightarrow> bool" where
  "plain s \<longleftrightarrow> set s \<inter> {CHR ''('', CHR '')'', CHR 0x00} = {}"

definition plain_attr :: "string \<Rightarrow> bool" where
  "plain_attr a \<longleftrightarrow>
     a \<noteq> [] \<and> set a \<inter> {CHR ''('', CHR '')'', CHR ''='', CHR ''&'', CHR ''|'', CHR ''!'', CHR 0x00} = {}"

inductive denotes :: "(string \<Rightarrow> string \<Rightarrow> 'e \<Rightarrow> bool) \<Rightarrow> string \<Rightarrow> ('e \<Rightarrow> bool) \<Rightarrow> bool"
  for test where
  item: "plain_attr a \<Longrightarrow> plain v \<Longrightarrow> denotes test (''('' @ a @ ''='' @ v @ '')'') (test a v)"
| neg: "denotes test f P \<Longrightarrow> denotes test (''(!'' @ f @ '')'') (\<lambda>e. \<not> P e)"
| conj: "list_all2 (denotes test) fs Ps \<Longrightarrow> fs \<noteq> [] \<Longrightarrow>
    denotes test (''(&'' @ concat fs @ '')'') (\<lambda>e. \<forall>P \<in> set Ps. P e)"
| disj: "list_all2 (denotes test) fs Ps \<Longrightarrow> fs \<noteq> [] \<Longrightarrow>
    denotes test (''(|'' @ concat fs @ '')'') (\<lambda>e. \<exists>P \<in> set Ps. P e)"
monos list_all2_mono

text \<open>How a rule combines the meanings of its parts.\<close>

definition rule_holds :: "string \<Rightarrow> bool list \<Rightarrow> bool" where
  "rule_holds rules bs =
     (if rules = MATCH_NONE then True \<notin> set bs
      else if rules = MATCH_ALL then False \<notin> set bs
      else True \<in> set bs)"

text \<open>The assertions a value stands for: \<open>None\<close> stands for no condition.\<close>

fun no_condition :: "flt_value \<Rightarrow> bool" where
  "no_condition FVNone = True"
| "no_condition (FVList vs) = list_all no_condition vs"
| "no_condition _ = False"

fun value_holds ::
  "(string \<Rightarrow> string) \<Rightarrow> (string \<Rightarrow> string \<Rightarrow> 'e \<Rightarrow> bool) \<Rightarrow> bool \<Rightarrow> bool \<Rightarrow> bool \<Rightarrow> string \<Rightarrow> string \<Rightarrow> 'e \<Rightarrow> flt_value \<Rightarrow> bool" where
  "value_holds escape test exact lead trail rules attr e (FVList vs) =
     rule_holds rules
       (map (value_holds escape test exact lead trail MATCH_ANY attr e) (filter (\<lambda>v. \<not> no_condition v) vs))"
| "value_holds escape test exact lead trail rules attr e FVNone = True"
| "value_holds escape test exact lead trail rules attr e (FVBytes b) =
     rule_holds rules [test attr (value_text exact lead trail (escape_bytes b)) e]"
| "value_holds escape test exact lead trail rules attr e (FVText s) =
     rule_holds rules [test attr (value_text exact lead trail (escape s)) e]"

section \<open>Lemmas\<close>

lemma denotes_paren: "denotes test f P \<Longrightarrow> is_prefix_of ''('' f \<and> f \<noteq> []"
  by (induction rule: denotes.induct) (auto simp: is_prefix_of_def)

lemma denotes_cong: "denotes test f P \<Longrightarrow> (\<And>e. P e = Q e) \<Longrightarrow> denotes test f Q"
proof -
  assume "denotes test f P" and "\<And>e. P e = Q e"
  moreover from this(2) have "P = Q" by auto
  ultimately show ?thesis by simp
qed

definition known_rule :: "string \<Rightarrow> bool" where
  "known_rule r \<longleftrightarrow> r = MATCH_ANY \<or> r = MATCH_ALL \<or> r = MATCH_NONE"

lemma rules_distinct [simp]:
  "MATCH_ANY \<noteq> MATCH_NONE" "MATCH_ALL \<noteq> MATCH_NONE" "MATCH_ANY \<noteq> MATCH_ALL"
  "MATCH_NONE \<noteq> MATCH_ANY" "MATCH_NONE \<noteq> MATCH_ALL" "MATCH_ALL \<noteq> MATCH_ANY"
  by (simp_all add: MATCH_ANY_def MATCH_ALL_def MATCH_NONE_def)

lemma rule_holds_simps [simp]:
  "rule_holds MATCH_NONE bs \<longleftrightarrow> True \<notin> set bs"
  "rule_holds MATCH_ALL bs \<longleftrightarrow> False \<notin> set bs"
  "rule_holds MATCH_ANY bs \<longleftrightarrow> True \<in> set bs"
  by (simp_all add: rule_holds_def)

lemma join_filters_denotes:
  assumes "list_all2 (denotes test) fs Ps" and "fs \<noteq> []" and "r = MATCH_ANY \<or> r = MATCH_ALL"
  shows "denotes test (join_filters fs r) (\<lambda>e. rule_holds r (map (\<lambda>P. P e) Ps))"
proof -
  have "map (\<lambda>f. if is_prefix_of ''('' f then f else ''('' @ f @ '')'') fs = fs"
    using assms(1) by (intro map_idI) (auto simp: list_all2_conv_all_nth in_set_conv_nth dest: denotes_paren)
  then have j: "join_filters fs r = (if length fs > 1 then ''('' @ r @ concat fs @ '')'' else concat fs)"
    by (simp add: join_filters_def)
  show ?thesis
  proof (cases "length fs > 1")
    case True
    from assms(3) show ?thesis
    proof
      assume r: "r = MATCH_ANY"
      have "join_filters fs r = ''(|'' @ concat fs @ '')''" using True j r by (simp add: MATCH_ANY_def)
      then show ?thesis
        using denotes.disj [OF assms(1,2)] by (simp only: r rule_holds_simps) (erule denotes_cong, simp)
    next
      assume r: "r = MATCH_ALL"
      have "join_filters fs r = ''(&'' @ concat fs @ '')''" using True j r by (simp add: MATCH_ALL_def)
      then show ?thesis
        using denotes.conj [OF assms(1,2)] by (simp only: r rule_holds_simps) (erule denotes_cong, force)
    qed
  next
    case False
    then obtain f P where "fs = [f]" "Ps = [P]"
      using assms(1,2) by (cases fs; cases Ps) auto
    with assms(1,3) j show ?thesis by (auto elim!: denotes_cong)
  qed
qed

lemma combine_filters_denotes:
  assumes "list_all2 (denotes test) (filter (\<lambda>f. f \<noteq> []) fs) Ps" and "Ps \<noteq> []" and "known_rule r"
  shows "denotes test (combine_filters fs r) (\<lambda>e. rule_holds r (map (\<lambda>P. P e) Ps))"
proof -
  have ne: "filter (\<lambda>f. f \<noteq> []) fs \<noteq> []" using assms(1,2) by (metis list.rel_sel)
  show ?thesis
  proof (cases "r = MATCH_NONE")
    case True
    have "denotes test (join_filters (filter (\<lambda>f. f \<noteq> []) fs) MATCH_ANY)
        (\<lambda>e. rule_holds MATCH_ANY (map (\<lambda>P. P e) Ps))"
      by (rule join_filters_denotes [OF assms(1) ne]) simp
    from denotes.neg [OF this] True ne show ?thesis
      by (simp add: combine_filters_def Let_def) (simp add: MATCH_NONE_def)
  next
    case False
    with assms(3) join_filters_denotes [OF assms(1) ne] show ?thesis
      by (auto simp: combine_filters_def known_rule_def)
  qed
qed

lemma make_filter_from_attr_empty:
  "no_condition v \<Longrightarrow> make_filter_from_attr escape attr v rules exact lead trail = []"
proof (induction escape attr v rules exact lead trail rule: make_filter_from_attr.induct)
  case (1 escape attr vs rules exact lead trail)
  then have "filter (\<lambda>f. f \<noteq> [])
      (map (\<lambda>v. make_filter_from_attr escape attr v MATCH_ANY exact lead trail) vs) = []"
    by (auto simp: filter_empty_conv list_all_iff)
  then show ?case
    by (simp only: make_filter_from_attr.simps combine_filters_def Let_def)
      (simp add: join_filters_def)
qed simp_all

lemma hex_digit_plain: "n < 16 \<Longrightarrow> hex_digit n \<notin> {CHR ''('', CHR '')'', CHR 0x00}"
proof -
  assume "n < 16"
  then have "(of_char (hex_digit n) :: nat) \<ge> 48" by (simp add: hex_digit_def)
  then show ?thesis by auto
qed

lemma plain_value:
  assumes "escape_ok escape"
  shows "plain (value_text exact lead trail (escape s))" "plain (value_text exact lead trail (escape_bytes b))"
proof -
  have "plain [CHR 0x5C, hex_digit (of_char c div 16), hex_digit (of_char c mod 16)]" for c
  proof -
    have "(of_char c :: nat) div 16 < 16" using nat_of_char_less_256 [of c] by (simp add: less_mult_imp_div_less)
    then show ?thesis using hex_digit_plain [of "of_char c div 16"] hex_digit_plain [of "of_char c mod 16"]
      by (auto simp: plain_def)
  qed
  then have "plain (escape_bytes b)"
    by (induction b) (auto simp: plain_def escape_bytes_def Let_def)
  moreover have "plain (escape s)" using assms by (auto simp: plain_def escape_ok_def)
  ultimately show "plain (value_text exact lead trail (escape s))"
    "plain (value_text exact lead trail (escape_bytes b))"
    by (auto simp: plain_def value_text_def)
qed

lemma scalar_filter_denotes:
  assumes "plain_attr attr" and "plain v" and "known_rule rules"
  shows "denotes test (scalar_filter attr rules v) (\<lambda>e. rule_holds rules [test attr v e])"
proof (cases "rules = MATCH_NONE")
  case True
  with denotes.neg [OF denotes.item [OF assms(1,2)], of test] show ?thesis
    by (auto simp: scalar_filter_def elim!: denotes_cong)
next
  case False
  with assms(3) denotes.item [OF assms(1,2), of test] show ?thesis
    by (auto simp: scalar_filter_def known_rule_def elim!: denotes_cong)
qed

lemma list_all2_filter_map:
  assumes "\<And>x. x \<in> set xs \<Longrightarrow> P x \<Longrightarrow> f x = []"
    and "\<And>x. x \<in> set xs \<Longrightarrow> \<not> P x \<Longrightarrow> R (f x) (g x) \<and> f x \<noteq> []"
  shows "list_all2 R (filter (\<lambda>y. y \<noteq> []) (map f xs)) (map g (filter (\<lambda>x. \<not> P x) xs))"
  using assms by (induction xs) auto

lemma make_filter_from_attr_denotes:
  assumes "escape_ok escape" and "plain_attr attr" and "known_rule rules" and "\<not> no_condition v"
  shows "denotes test (make_filter_from_attr escape attr v rules exact lead trail)
    (\<lambda>e. value_holds escape test exact lead trail rules attr e v)"
  using assms
proof (induction escape attr v rules exact lead trail rule: make_filter_from_attr.induct)
  case (1 escape attr vs rules exact lead trail)
  let ?vs = "filter (\<lambda>v. \<not> no_condition v) vs"
  let ?P = "\<lambda>v e. value_holds escape test exact lead trail MATCH_ANY attr e v"
  have "list_all2 (denotes test)
      (filter (\<lambda>f. f \<noteq> []) (map (\<lambda>v. make_filter_from_attr escape attr v MATCH_ANY exact lead trail) vs))
      (map ?P ?vs)"
    using 1 by (intro list_all2_filter_map)
      (auto simp: make_filter_from_attr_empty known_rule_def dest: denotes_paren)
  moreover have "map ?P ?vs \<noteq> []" using 1(5) by (auto simp: list_all_iff filter_empty_conv)
  ultimately have "denotes test (make_filter_from_attr escape attr (FVList vs) rules exact lead trail)
      (\<lambda>e. rule_holds rules (map (\<lambda>P. P e) (map ?P ?vs)))"
    using combine_filters_denotes [OF _ _ 1(4)] by (simp only: make_filter_from_attr.simps)
  then show ?case by (simp add: comp_def)
qed (simp_all add: scalar_filter_denotes plain_value)

section \<open>Properties\<close>

text \<open>
  C25: the filter built from an entry's attributes means what its rule says. For attribute names
  without special characters and values of any content, the text is a well-formed filter that
  holds for an entry when any, all or none of the attributes match (an attribute with several
  values matches by the same rule, or by any value under \<open>MATCH_NONE\<close>), attributes without a
  value being left out. Escaping keeps a value from changing the structure of the filter.
\<close>

theorem make_filter_means_rule:
  assumes "escape_ok escape" and "known_rule rules"
    and "\<forall>(a, v) \<in> set attrs. plain_attr a" and "\<exists>(a, v) \<in> set attrs. \<not> no_condition v"
  shows "denotes test (make_filter escape attrs None rules exact lead trail)
    (\<lambda>e. rule_holds rules
      (map (\<lambda>(a, v). value_holds escape test exact lead trail
              (if rules = MATCH_NONE then MATCH_ANY else rules) a e v)
        (filter (\<lambda>(a, v). \<not> no_condition v) attrs)))"
proof -
  let ?r = "if rules = MATCH_NONE then MATCH_ANY else rules"
  let ?f = "\<lambda>(a, v). make_filter_from_attr escape a v ?r exact lead trail"
  let ?P = "\<lambda>(a, v) e. value_holds escape test exact lead trail ?r a e v"
  let ?as = "filter (\<lambda>x. \<not> (case x of (a, v) \<Rightarrow> no_condition v)) attrs"
  have kr: "known_rule ?r" using assms(2) by (auto simp: known_rule_def)
  have "list_all2 (denotes test) (filter (\<lambda>f. f \<noteq> []) (map ?f attrs)) (map ?P ?as)"
  proof (rule list_all2_filter_map)
    fix x assume "x \<in> set attrs" and "\<not> (case x of (a, v) \<Rightarrow> no_condition v)"
    with assms(1,3) kr make_filter_from_attr_denotes [of escape "fst x" ?r "snd x" test exact lead trail]
    have "denotes test (?f x) (?P x)" by (cases x) auto
    then show "denotes test (?f x) (?P x) \<and> ?f x \<noteq> []" using denotes_paren by blast
  qed (auto simp: make_filter_from_attr_empty)
  moreover have "map ?P ?as \<noteq> []" using assms(4) by (auto simp: filter_empty_conv)
  ultimately have "denotes test (combine_filters (map ?f attrs) rules)
      (\<lambda>e. rule_holds rules (map (\<lambda>P. P e) (map ?P ?as)))"
    by (rule combine_filters_denotes [OF _ _ assms(2)])
  then show ?thesis
    by (simp add: make_filter_def comp_def case_prod_unfold)
qed

text \<open>An escaping function that satisfies the assumption, for the example.\<close>

definition sample_escape :: "string \<Rightarrow> string" where
  "sample_escape s = filter (\<lambda>c. c \<notin> {CHR ''('', CHR '')'', CHR ''*'', CHR 0x00}) s"

theorem make_filter_means_rule_witness:
  "make_filter sample_escape [(''cn'', FVText ''x)(uid=*''), (''sn'', FVNone), (''uid'', FVText ''bob'')]
     None MATCH_ALL True True True = ''(&(cn=xuid=)(uid=bob))'' \<and>
   denotes (\<lambda>a v e. (a, v) \<in> e)
     (make_filter sample_escape [(''cn'', FVText ''x)(uid=*''), (''sn'', FVNone), (''uid'', FVText ''bob'')]
       None MATCH_ALL True True True)
     (\<lambda>e. (''cn'', ''xuid='') \<in> e \<and> (''uid'', ''bob'') \<in> e)"
proof -
  let ?attrs = "[(''cn'', FVText ''x)(uid=*''), (''sn'', FVNone), (''uid'', FVText ''bob'')]"
  have "escape_ok sample_escape" by (auto simp: escape_ok_def sample_escape_def)
  moreover have "known_rule MATCH_ALL" by (simp add: known_rule_def)
  moreover have "\<forall>(a, v) \<in> set ?attrs. plain_attr a" by (simp add: plain_attr_def)
  ultimately have d: "denotes (\<lambda>a v e. (a, v) \<in> e) (make_filter sample_escape ?attrs None MATCH_ALL True True True)
      (\<lambda>e. rule_holds MATCH_ALL
        (map (\<lambda>(a, v). value_holds sample_escape (\<lambda>a v e. (a, v) \<in> e) True True True
                (if MATCH_ALL = MATCH_NONE then MATCH_ANY else MATCH_ALL) a e v)
          (filter (\<lambda>(a, v). \<not> no_condition v) ?attrs)))"
    by (rule make_filter_means_rule) simp
  have "sample_escape ''x)(uid=*'' = ''xuid=''" "sample_escape ''bob'' = ''bob''" by code_simp+
  moreover have "make_filter sample_escape ?attrs None MATCH_ALL True True True = ''(&(cn=xuid=)(uid=bob))''"
    by code_simp
  ultimately show ?thesis using d by (auto simp: value_text_def elim!: denotes_cong)
qed

end
