(* ===== verification/CI_Dict.thy ===== *)
theory CI_Dict
  imports Py_State
begin

text \<open>
  The case-insensitive, case-respecting dictionary \<open>CIDict\<close> of
  \<^verbatim>\<open>src/ipapython/ipautil.py\<close>: a dictionary from lower-case keys to values, with a second
  dictionary that remembers how each key was last written. Both keep insertion order.

  The locale \<open>folded_map\<close> is what clients rely on: a map whose keys are compared after folding.
  It is interpreted on the operations of \<open>CIDict\<close>.
\<close>

section \<open>The interface\<close>

locale folded_map =
  fixes fold_key :: "'k \<Rightarrow> 'k"
    and empty :: 'm
    and lookup :: "'m \<Rightarrow> 'k \<Rightarrow> 'v option"
    and update :: "'k \<Rightarrow> 'v \<Rightarrow> 'm \<Rightarrow> 'm"
    and delete :: "'k \<Rightarrow> 'm \<Rightarrow> 'm"
    and invar :: "'m \<Rightarrow> bool"
  assumes lookup_fold: "lookup m (fold_key k) = lookup m k"
    and lookup_empty [simp]: "lookup empty k = None"
    and lookup_update: "invar m \<Longrightarrow>
      lookup (update k v m) k' = (if fold_key k' = fold_key k then Some v else lookup m k')"
    and lookup_delete: "invar m \<Longrightarrow>
      lookup (delete k m) k' = (if fold_key k' = fold_key k then None else lookup m k')"
    and invar_empty: "invar empty"
    and invar_update: "invar m \<Longrightarrow> invar (update k v m)"
    and invar_delete: "invar m \<Longrightarrow> invar (delete k m)"
begin

text \<open>The map a state stands for, on folded keys.\<close>

definition abstract :: "'m \<Rightarrow> 'k \<Rightarrow> 'v option" where
  "abstract m k = (if fold_key k = k then lookup m k else None)"

lemma lookup_cong: "fold_key k = fold_key k' \<Longrightarrow> lookup m k = lookup m k'"
  by (metis lookup_fold)

lemma update_idem:
  "invar m \<Longrightarrow> lookup (update k v (update k w m)) k' = lookup (update k v m) k'"
  by (simp add: lookup_update invar_update)

lemma delete_update:
  "invar m \<Longrightarrow> lookup m k = None \<Longrightarrow> lookup (delete k (update k v m)) k' = lookup m k'"
  using lookup_cong [of k' k m] by (auto simp: lookup_update lookup_delete invar_update)

end

section \<open>CIDict\<close>

record 'v cidict =
  ci_keys :: "(string \<times> string) list"
  ci_dict :: "(string \<times> 'v) list"

definition CIDict_empty :: "'v cidict" where
  "CIDict_empty = \<lparr>ci_keys = [], ci_dict = []\<rparr>"

definition ci_getitem :: "string \<Rightarrow> 'v cidict \<Rightarrow> 'v res" where
  "ci_getitem key d =
     (case map_of (ci_dict d) (py_lower key) of
        None \<Rightarrow> Inl (KeyError (py_lower key))
      | Some v \<Rightarrow> Inr v)"

definition ci_set :: "string \<Rightarrow> 'v \<Rightarrow> 'v cidict \<Rightarrow> 'v cidict" where
  "ci_set key v d =
     \<lparr>ci_keys = AList.update (py_lower key) key (ci_keys d),
      ci_dict = AList.update (py_lower key) v (ci_dict d)\<rparr>"

text \<open>\<open>__setitem__\<close> with the set of keys seen by \<open>update\<close>.\<close>

definition ci_setitem_seen :: "string \<Rightarrow> 'v \<Rightarrow> (string set \<times> 'v cidict, unit) act" where
  "ci_setitem_seen key v = (\<lambda>(seen, d).
     if py_lower key \<in> seen then (Inl (ValueError ''Duplicate key in update: %s''), (seen, d))
     else (Inr (), (insert (py_lower key) seen, ci_set key v d)))"

definition ci_setitem :: "string \<Rightarrow> 'v \<Rightarrow> ('v cidict, unit) act" where
  "ci_setitem key v = (\<lambda>d. (Inr (), ci_set key v d))"

definition ci_del :: "string \<Rightarrow> 'v cidict \<Rightarrow> 'v cidict" where
  "ci_del key d =
     \<lparr>ci_keys = AList.delete (py_lower key) (ci_keys d), ci_dict = AList.delete (py_lower key) (ci_dict d)\<rparr>"

definition ci_delitem :: "string \<Rightarrow> ('v cidict, unit) act" where
  "ci_delitem key = (\<lambda>d.
     if py_lower key \<in> fst ` set (ci_keys d) then (Inr (), ci_del key d)
     else (Inl (KeyError (py_lower key)), d))"

text \<open>\<open>update\<close> from the items of a mapping.\<close>

definition ci_update :: "(string \<times> 'v) list \<Rightarrow> ('v cidict, unit) act" where
  "ci_update items = (\<lambda>d.
     case act_seq (map (\<lambda>(k, v). ci_setitem_seen k v) items) ({}, d) of
       (r, (seen, d')) \<Rightarrow> (r, d'))"

definition CIDict_init :: "(string \<times> 'v) list \<Rightarrow> 'v cidict res" where
  "CIDict_init items =
     (case (if items \<noteq> [] then ci_update items CIDict_empty else (Inr (), CIDict_empty)) of
        (Inl e, _) \<Rightarrow> Inl e
      | (Inr _, d) \<Rightarrow> Inr d)"

definition ci_contains :: "string \<Rightarrow> 'v cidict \<Rightarrow> bool" where
  "ci_contains key d \<longleftrightarrow> py_lower key \<in> fst ` set (ci_dict d)"

definition ci_get :: "string \<Rightarrow> 'v option \<Rightarrow> 'v cidict \<Rightarrow> 'v option" where
  "ci_get key failobj d = (case ci_getitem key d of Inr v \<Rightarrow> Some v | Inl _ \<Rightarrow> failobj)"

definition ci_iterkeys :: "'v cidict \<Rightarrow> string list" where
  "ci_iterkeys d = map snd (ci_keys d)"

definition ci_iteritems :: "'v cidict \<Rightarrow> (string \<times> 'v) list res" where
  "ci_iteritems d = rmap (\<lambda>k. rbind (ci_getitem k d) (\<lambda>v. Inr (k, v))) (map snd (ci_keys d))"

definition ci_itervalues :: "'v cidict \<Rightarrow> 'v list res" where
  "ci_itervalues d = rbind (ci_iteritems d) (\<lambda>l. Inr (map snd l))"

definition ci_copy :: "'v cidict \<Rightarrow> 'v cidict res" where
  "ci_copy d = rbind (ci_iteritems d) CIDict_init"

definition ci_setdefault :: "string \<Rightarrow> 'v \<Rightarrow> ('v cidict, 'v) act" where
  "ci_setdefault key v = (\<lambda>d.
     case ci_getitem key d of
       Inr w \<Rightarrow> (Inr w, d)
     | Inl _ \<Rightarrow> (Inr v, ci_set key v d))"

text \<open>\<open>pop(key)\<close> and \<open>pop(key, default)\<close>.\<close>

definition ci_pop :: "string \<Rightarrow> 'v option \<Rightarrow> ('v cidict, 'v) act" where
  "ci_pop key failobj = (\<lambda>d.
     case act_bind (act_read (ci_getitem key)) (\<lambda>v. act_bind (ci_delitem key) (\<lambda>_. act_ret v)) d of
       (Inl e, d') \<Rightarrow> (case failobj of Some w \<Rightarrow> (Inr w, d') | None \<Rightarrow> (Inl e, d'))
     | r \<Rightarrow> r)"

definition ci_popitem :: "('v cidict, string \<times> 'v) act" where
  "ci_popitem = (\<lambda>d.
     case rev (ci_dict d) of
       [] \<Rightarrow> (Inl (KeyError ''popitem(): dictionary is empty''), d)
     | (lower_key, v) # _ \<Rightarrow>
         (case map_of (ci_keys d) lower_key of
            None \<Rightarrow> (Inl (KeyError lower_key), d\<lparr>ci_dict := butlast (ci_dict d)\<rparr>)
          | Some key \<Rightarrow>
              (Inr (key, v),
               \<lparr>ci_keys = AList.delete lower_key (ci_keys d), ci_dict = butlast (ci_dict d)\<rparr>)))"

definition ci_clear :: "'v cidict \<Rightarrow> 'v cidict" where
  "ci_clear d = CIDict_empty"

section \<open>Invariant and interpretation\<close>

definition ci_ok :: "'v cidict \<Rightarrow> bool" where
  "ci_ok d \<longleftrightarrow>
     map fst (ci_keys d) = map fst (ci_dict d) \<and> distinct (map fst (ci_dict d)) \<and>
     list_all (\<lambda>(l, k). l = py_lower k) (ci_keys d)"

definition ci_lookup :: "'v cidict \<Rightarrow> string \<Rightarrow> 'v option" where
  "ci_lookup d key = map_of (ci_dict d) (py_lower key)"

lemma ci_ok_set: "ci_ok d \<Longrightarrow> ci_ok (ci_set key v d)"
proof -
  assume ok: "ci_ok d"
  then have "list_all (\<lambda>(l, k). l = py_lower k) (AList.update (py_lower key) key (ci_keys d))"
    using set_AList_update [of "py_lower key" key "ci_keys d"] by (fastforce simp: ci_ok_def list_all_iff)
  moreover have "map fst (AList.update (py_lower key) key (ci_keys d)) =
      map fst (AList.update (py_lower key) v (ci_dict d))"
    using ok by (simp add: ci_ok_def update_keys)
  ultimately show ?thesis
    using ok by (simp add: ci_ok_def ci_set_def distinct_update)
qed

lemma ci_ok_del: "ci_ok d \<Longrightarrow> ci_ok (ci_del key d)"
proof -
  assume ok: "ci_ok d"
  then have "list_all (\<lambda>(l, k). l = py_lower k) (AList.delete (py_lower key) (ci_keys d))"
    by (simp add: ci_ok_def list_all_iff AList.delete_eq)
  with ok show ?thesis by (simp add: ci_ok_def ci_del_def delete_keys distinct_removeAll)
qed

lemma ci_ok_empty: "ci_ok CIDict_empty"
  by (simp add: ci_ok_def CIDict_empty_def)

interpretation cid: folded_map py_lower CIDict_empty ci_lookup ci_set ci_del ci_ok
proof unfold_locales
qed (simp_all only: ci_ok_set ci_ok_del ci_ok_empty,
    auto simp: ci_lookup_def CIDict_empty_def ci_set_def ci_del_def update_conv' delete_conv')

lemma ci_getitem_lookup:
  "ci_getitem key d = (case ci_lookup d key of None \<Rightarrow> Inl (KeyError (py_lower key)) | Some v \<Rightarrow> Inr v)"
  by (simp add: ci_getitem_def ci_lookup_def)

lemma ci_contains_lookup: "ci_contains key d \<longleftrightarrow> ci_lookup d key \<noteq> None"
  by (auto simp: ci_contains_def ci_lookup_def map_of_eq_None_iff)

lemma ci_delitem_ok:
  assumes "ci_ok d"
  shows "ci_delitem key d =
    (if ci_lookup d key = None then (Inl (KeyError (py_lower key)), d) else (Inr (), ci_del key d))"
proof -
  have "fst ` set (ci_keys d) = fst ` set (ci_dict d)"
    using assms by (metis ci_ok_def set_map)
  then show ?thesis by (auto simp: ci_delitem_def ci_lookup_def map_of_eq_None_iff)
qed

lemma ci_pop_ok:
  assumes "ci_ok d"
  shows "ci_pop key failobj d =
    (case ci_lookup d key of
       Some v \<Rightarrow> (Inr v, ci_del key d)
     | None \<Rightarrow> (case failobj of Some w \<Rightarrow> (Inr w, d) | None \<Rightarrow> (Inl (KeyError (py_lower key)), d)))"
  using assms
  by (auto simp: ci_pop_def act_defs ci_getitem_lookup ci_delitem_ok split: option.split)

lemma ci_nth:
  assumes "ci_ok d" "i < length (ci_dict d)"
  shows "length (ci_keys d) = length (ci_dict d)"
    and "ci_dict d ! i = (py_lower (snd (ci_keys d ! i)), snd (ci_dict d ! i))"
proof -
  have keys: "map fst (ci_keys d) = map fst (ci_dict d)" using assms(1) by (simp add: ci_ok_def)
  show len: "length (ci_keys d) = length (ci_dict d)" using arg_cong [OF keys, of length] by simp
  have "map fst (ci_keys d) ! i = map fst (ci_dict d) ! i" unfolding keys ..
  then have "fst (ci_keys d ! i) = fst (ci_dict d ! i)" using assms(2) len by simp
  moreover have "fst (ci_keys d ! i) = py_lower (snd (ci_keys d ! i))"
  proof -
    have "ci_keys d ! i \<in> set (ci_keys d)" using assms(2) len by simp
    with assms(1) show ?thesis by (auto simp: ci_ok_def list_all_iff)
  qed
  ultimately show "ci_dict d ! i = (py_lower (snd (ci_keys d ! i)), snd (ci_dict d ! i))"
    by (intro prod_eqI) simp_all
qed

text \<open>Reading a key and finding it among the items are the same.\<close>

lemma lookup_item:
  assumes "ci_ok d" "ci_lookup d k = Some v"
  shows "\<exists>alt. (alt, v) \<in> set (zip (map snd (ci_keys d)) (map snd (ci_dict d))) \<and> py_lower alt = py_lower k"
proof -
  have "(py_lower k, v) \<in> set (ci_dict d)"
    using assms(2) by (auto simp: ci_lookup_def dest: map_of_SomeD)
  then obtain i where i: "i < length (ci_dict d)" "ci_dict d ! i = (py_lower k, v)"
    by (auto simp: in_set_conv_nth)
  note nth = ci_nth [OF assms(1) i(1)]
  have "py_lower (snd (ci_keys d ! i)) = py_lower k" using nth(2) i(2) by simp
  moreover have "(snd (ci_keys d ! i), v) \<in> set (zip (map snd (ci_keys d)) (map snd (ci_dict d)))"
    using i nth(1) by (auto simp: in_set_zip intro!: exI [of _ i])
  ultimately show ?thesis by blast
qed

lemma item_lookup:
  assumes "ci_ok d" "(alt, v) \<in> set (zip (map snd (ci_keys d)) (map snd (ci_dict d)))"
  shows "ci_lookup d alt = Some v"
proof -
  obtain i where "i < length (ci_dict d)" "i < length (ci_keys d)"
    "map snd (ci_keys d) ! i = alt" "map snd (ci_dict d) ! i = v"
    using assms(2) unfolding in_set_zip by auto
  then have i: "i < length (ci_dict d)" "snd (ci_keys d ! i) = alt" "snd (ci_dict d ! i) = v" by simp_all
  have "ci_dict d ! i = (py_lower alt, v)"
    using ci_nth(2) [OF assms(1) i(1)] unfolding i(2,3) .
  then have "(py_lower alt, v) \<in> set (ci_dict d)" using nth_mem [OF i(1)] by simp
  then show ?thesis using assms(1) by (simp add: ci_lookup_def ci_ok_def)
qed

text \<open>The items are the keys as last written with their values, in insertion order.\<close>

lemma ci_iteritems_ok:
  assumes "ci_ok d"
  shows "ci_iteritems d = Inr (zip (map snd (ci_keys d)) (map snd (ci_dict d)))"
proof -
  have *: "rmap (\<lambda>k. rbind (case map_of dict (py_lower k) of None \<Rightarrow> Inl (KeyError (py_lower k)) | Some v \<Rightarrow> Inr v)
        (\<lambda>v. Inr (k, v))) (map snd ks) = Inr (zip (map snd ks) (map snd vs))"
    if "map fst ks = map fst vs" "list_all (\<lambda>(l, k). l = py_lower k) ks"
      "\<forall>(l, v) \<in> set vs. map_of dict l = Some v" for ks :: "(string \<times> string) list" and vs and dict
    using that by (induction ks arbitrary: vs) auto
  have "\<forall>(l, v) \<in> set (ci_dict d). map_of (ci_dict d) l = Some v"
    using assms by (auto simp: ci_ok_def)
  with * [of "ci_keys d" "ci_dict d" "ci_dict d"] assms show ?thesis
    by (simp add: ci_iteritems_def ci_getitem_def ci_ok_def)
qed

lemma ci_iterkeys_lower:
  "list_all (\<lambda>(l, k). l = py_lower k) (ci_keys d) \<Longrightarrow>
   map py_lower (ci_iterkeys d) = map fst (ci_keys d)"
  unfolding ci_iterkeys_def map_map by (rule map_cong) (auto simp: list_all_iff)

lemma ci_iterkeys_set: "key \<in> set (ci_iterkeys (ci_set key v d))"
proof -
  have "map_of (ci_keys (ci_set key v d)) (py_lower key) = Some key"
    by (simp add: ci_set_def update_conv')
  then show ?thesis by (force simp: ci_iterkeys_def dest: map_of_SomeD)
qed

section \<open>Properties\<close>

text \<open>
  C19: \<open>CIDict\<close> refines a map on lower-case keys. In a well-formed dictionary setting, deleting,
  popping and looking up a key act as updating, removing and reading the map at the folded key
  and keep the dictionary well-formed; a missing key raises \<open>KeyError\<close> and changes nothing;
  iteration gives every key once, as it was last written.
\<close>

theorem cidict_refines_map:
  assumes "ci_ok d"
  shows "cid.abstract (ci_set key v d) = (cid.abstract d)(py_lower key \<mapsto> v) \<and> ci_ok (ci_set key v d) \<and>
    (case cid.abstract d (py_lower key) of
       None \<Rightarrow> \<not> ci_contains key d \<and> ci_getitem key d = Inl (KeyError (py_lower key)) \<and>
         ci_delitem key d = (Inl (KeyError (py_lower key)), d) \<and>
         ci_pop key None d = (Inl (KeyError (py_lower key)), d)
     | Some w \<Rightarrow> ci_contains key d \<and> ci_getitem key d = Inr w \<and>
         (\<exists>d'. ci_delitem key d = (Inr (), d') \<and> ci_pop key None d = (Inr w, d') \<and> ci_ok d' \<and>
           cid.abstract d' = (cid.abstract d)(py_lower key := None))) \<and>
    distinct (map py_lower (ci_iterkeys d)) \<and> key \<in> set (ci_iterkeys (ci_set key v d))"
proof -
  have a: "cid.abstract d (py_lower key) = ci_lookup d key"
    by (simp add: cid.abstract_def ci_lookup_def)
  have set: "cid.abstract (ci_set key v d) = (cid.abstract d)(py_lower key \<mapsto> v)"
    using assms by (auto simp: cid.abstract_def cid.lookup_update fun_eq_iff)
  have del: "cid.abstract (ci_del key d) = (cid.abstract d)(py_lower key := None)"
    using assms by (auto simp: cid.abstract_def cid.lookup_delete fun_eq_iff)
  have keys: "map py_lower (ci_iterkeys d) = map fst (ci_keys d)"
    using assms by (simp add: ci_iterkeys_lower ci_ok_def)
  have k: "key \<in> set (ci_iterkeys (ci_set key v d))"
    by (rule ci_iterkeys_set)
  have dist: "distinct (map py_lower (ci_iterkeys d))"
    using assms by (simp add: keys ci_ok_def)
  show ?thesis
  proof (cases "ci_lookup d key")
    case None
    then show ?thesis
      using assms by (simp add: a set k dist ci_ok_set ci_contains_lookup ci_getitem_lookup ci_delitem_ok ci_pop_ok)
  next
    case (Some w)
    then show ?thesis
      using assms
      by (simp add: a set del k dist ci_ok_set ci_ok_del ci_contains_lookup ci_getitem_lookup
          ci_delitem_ok ci_pop_ok)
  qed
qed

theorem cidict_refines_map_witness:
  "ci_getitem ''CN'' (ci_set ''cn'' (1 :: int) CIDict_empty) = Inr 1 \<and>
   ci_iterkeys (ci_set ''Cn'' 2 (ci_set ''cn'' (1 :: int) CIDict_empty)) = [''Cn'']"
proof -
  have "cid.abstract (ci_set ''cn'' (1 :: int) CIDict_empty) = (cid.abstract CIDict_empty)(py_lower ''cn'' \<mapsto> 1)"
    using cidict_refines_map [OF ci_ok_empty, of "''cn''" "1 :: int"] by simp
  moreover have "py_lower ''CN'' = py_lower ''cn''" by code_simp
  ultimately have "cid.abstract (ci_set ''cn'' (1 :: int) CIDict_empty) (py_lower ''CN'') = Some 1"
    by (simp only: fun_upd_same)
  then have "ci_getitem ''CN'' (ci_set ''cn'' (1 :: int) CIDict_empty) = Inr 1"
    using cidict_refines_map [OF ci_ok_set [OF ci_ok_empty], of "''CN''" "0 :: int" "''cn''" 1]
    by (simp split: option.splits)
  moreover have "ci_iterkeys (ci_set ''Cn'' 2 (ci_set ''cn'' (1 :: int) CIDict_empty)) = [''Cn'']" by code_simp
  ultimately show ?thesis by blast
qed

end
