(* ===== verification/LDAP_Entry.thy ===== *)
theory LDAP_Entry
  imports CI_Dict DN_Names
begin

text \<open>
  The class \<open>LDAPEntry\<close> of \<^verbatim>\<open>src/ipapython/ipaldap.py\<close>: an LDAP entry that keeps two views of
  every attribute, the \<open>nice\<close> Python values and the \<open>raw\<close> byte strings, and brings them together
  lazily (\<open>_sync_attr\<close>); and the modification list it computes for the server
  (\<open>generate_modlist\<close>).

  Both views hand out the list objects they store, so a caller can change them in place; such a
  change is the step \<open>edit_nice\<close> or \<open>edit_raw\<close> of the relation \<open>entry_reach\<close>. Whether an assigned
  list is the very object already stored (the code tests this with \<open>is\<close>) is an argument of
  \<open>set_nice\<close> and \<open>set_raw\<close>. List objects shared between an entry and its copies are not modelled.

  The connection is a record of what an entry calls on it: \<open>encode\<close> and \<open>decode\<close>, the names of an
  attribute in the schema, and whether an attribute is single-valued. The three \<open>c_iter\<close> fields
  are the order in which Python iterates over a set.

  A value of type \<open>'v\<close> stands for all Python values that compare equal with it: \<open>==\<close>, membership
  and sets of values are equality of the model, and \<open>encode\<close> is a function of the class. Values that
  are equal but encoded differently (two DNs that differ in case, \<open>True\<close> and \<open>1\<close>) are therefore
  outside the model; when one replaces the other in place the code sees no change.
\<close>

type_synonym bytes = string

record 'v ldap_conn =
  c_encode :: "'v \<Rightarrow> bytes res"
  c_decode :: "string \<Rightarrow> bytes \<Rightarrow> 'v res"
  c_altnames :: "string \<Rightarrow> string list option"
  c_single_value :: "string \<Rightarrow> bool option"
  c_iter_nice :: "'v set \<Rightarrow> 'v list"
  c_iter_raw :: "bytes set \<Rightarrow> bytes list"
  c_iter_names :: "string set \<Rightarrow> string list"

record 'v ldap_entry =
  le_dn :: raw_dn
  le_names :: "string cidict"
  le_nice :: "(string \<times> 'v list option) list"
  le_raw :: "(string \<times> bytes list option) list"
  le_sync :: "(string \<times> 'v list \<times> bytes list) list"
  le_not_list :: "string set"
  le_orig_raw :: "(string \<times> bytes list) list"

datatype attr_arg = ANamed string | ANotStr
datatype 'v nice_arg = NNone | NScalar 'v | NList "'v list"
datatype raw_item = RBytes bytes | RItem
datatype raw_arg = RList "raw_item list" | RNotList
datatype 'v nice_result = GNone | GScalar 'v | GList "'v list"

section \<open>Construction\<close>

definition entry_empty :: "raw_dn \<Rightarrow> 'v ldap_entry" where
  "entry_empty d =
     \<lparr>le_dn = d, le_names = CIDict_empty, le_nice = [], le_raw = [], le_sync = [],
      le_not_list = {}, le_orig_raw = []\<rparr>"

text \<open>\<open>LDAPEntry(dn, entry)\<close> on the same connection, before the keyword arguments are applied.\<close>

definition entry_copy :: "raw_dn \<Rightarrow> 'v ldap_entry \<Rightarrow> 'v ldap_entry" where
  "entry_copy d obj =
     \<lparr>le_dn = d, le_names = le_names obj, le_nice = le_nice obj, le_raw = le_raw obj,
      le_sync = le_sync obj, le_not_list = le_not_list obj, le_orig_raw = le_orig_raw obj\<rparr>"

section \<open>Synchronisation of the two views\<close>

text \<open>
  The four loops of \<open>_sync_attr\<close> come in pairs: one removes from a list the converted values that
  left the other view, one appends the converted values that joined it.
\<close>

definition list_remove :: "'a \<Rightarrow> ('a list, unit) act" where
  "list_remove x = (\<lambda>xs.
     if x \<in> set xs then (Inr (), remove1 x xs) else (Inl (ValueError ''list.remove(x): x not in list''), xs))"

definition sync_dels :: "('x \<Rightarrow> 'y res) \<Rightarrow> 'y set \<Rightarrow> 'x list \<Rightarrow> ('y list, unit) act" where
  "sync_dels conv adds dels =
     act_seq (map (\<lambda>x. act_bind (act_read (\<lambda>_. conv x)) (\<lambda>y. if y \<in> adds then act_ret () else list_remove y)) dels)"

definition sync_adds :: "('x \<Rightarrow> 'y res) \<Rightarrow> 'y set \<Rightarrow> 'x list \<Rightarrow> ('y list, unit) act" where
  "sync_adds conv dels adds =
     act_seq (map (\<lambda>x. act_bind (act_read (\<lambda>_. conv x))
       (\<lambda>y. if y \<in> dels then act_ret () else (\<lambda>ys. (Inr (), ys @ [y])))) adds)"

fun list_index :: "'a list \<Rightarrow> 'a \<Rightarrow> nat res" where
  "list_index [] x = Inl (ValueError ''is not in list'')"
| "list_index (y # ys) x = (if y = x then Inr 0 else rbind (list_index ys x) (\<lambda>n. Inr (Suc n)))"

text \<open>\<open>sorted(vs, key=xs.index)\<close>.\<close>

definition sorted_by_index :: "'a list \<Rightarrow> 'a list \<Rightarrow> 'a list res" where
  "sorted_by_index xs vs =
     rbind (rmap (\<lambda>v. rbind (list_index xs v) (\<lambda>i. Inr (i, v))) vs) (\<lambda>l. Inr (map snd (sort_key fst l)))"

definition decode_for :: "'v ldap_conn \<Rightarrow> string \<Rightarrow> bytes \<Rightarrow> 'v res" where
  "decode_for conn name b =
     (case c_decode conn name b of
        Inl (ValueError msg) \<Rightarrow> Inl (ValueError (msg @ '' in LDAP entry''))
      | r \<Rightarrow> r)"

definition on_nice :: "('v list, unit) act \<Rightarrow> ('v list \<times> bytes list, unit) act" where
  "on_nice m = (\<lambda>(nice, raw). case m nice of (r, nice') \<Rightarrow> (r, (nice', raw)))"

definition on_raw :: "(bytes list, unit) act \<Rightarrow> ('v list \<times> bytes list, unit) act" where
  "on_raw m = (\<lambda>(nice, raw). case m raw of (r, raw') \<Rightarrow> (r, (nice, raw')))"

definition sync_lists ::
    "'v ldap_conn \<Rightarrow> string \<Rightarrow> 'v list \<times> bytes list \<Rightarrow> ('v list \<times> bytes list, unit) act" where
  "sync_lists conn name synced = (\<lambda>(nice, raw).
     let nice_adds = set nice - set (fst synced); nice_dels = set (fst synced) - set nice;
         raw_adds = set raw - set (snd synced); raw_dels = set (snd synced) - set raw
     in act_seq
          [on_raw (sync_dels (c_encode conn) raw_adds (c_iter_nice conn nice_dels)),
           on_nice (sync_dels (decode_for conn name) nice_adds (c_iter_raw conn raw_dels)),
           act_bind (act_read (\<lambda>(nice, _). sorted_by_index nice (c_iter_nice conn nice_adds)))
             (\<lambda>vs. on_raw (sync_adds (c_encode conn) raw_dels vs)),
           act_bind (act_read (\<lambda>(_, raw). sorted_by_index raw (c_iter_raw conn raw_adds)))
             (\<lambda>vs. on_nice (sync_adds (decode_for conn name) nice_dels vs))]
          (nice, raw))"

definition dict_list :: "(string \<times> 'a list option) list \<Rightarrow> string \<Rightarrow> 'a list res" where
  "dict_list d name =
     (case map_of d name of
        None \<Rightarrow> Inl (KeyError name)
      | Some None \<Rightarrow> Inl (AssertionError ''isinstance(value, list)'')
      | Some (Some l) \<Rightarrow> Inr l)"

definition set_lists :: "string \<Rightarrow> 'v list \<times> bytes list \<Rightarrow> 'v ldap_entry \<Rightarrow> 'v ldap_entry" where
  "set_lists name l e =
     e\<lparr>le_nice := AList.update name (Some (fst l)) (le_nice e), le_raw := AList.update name (Some (snd l)) (le_raw e)\<rparr>"

definition sync_record :: "'v ldap_entry \<Rightarrow> string \<Rightarrow> 'v list \<times> bytes list" where
  "sync_record e name = (case map_of (le_sync e) name of Some s \<Rightarrow> s | None \<Rightarrow> ([], []))"

definition sync_attr :: "'v ldap_conn \<Rightarrow> string \<Rightarrow> ('v ldap_entry, unit) act" where
  "sync_attr conn name = (\<lambda>e.
     case dict_list (le_nice e) name of
       Inl x \<Rightarrow> (Inl x, e)
     | Inr nice \<Rightarrow>
         (case dict_list (le_raw e) name of
            Inl x \<Rightarrow> (Inl x, e)
          | Inr raw \<Rightarrow>
              let synced = sync_record e name; e1 = e\<lparr>le_sync := AList.update name synced (le_sync e)\<rparr>
              in if (nice, raw) = synced then (Inr (), e1)
                 else (case sync_lists conn name synced (nice, raw) of
                   (Inl x, l) \<Rightarrow> (Inl x, set_lists name l e1)
                 | (Inr _, l) \<Rightarrow>
                     (Inr (), (set_lists name l e1)\<lparr>le_sync := AList.update name l (le_sync e1),
                        le_not_list := (if 1 < length (fst l) then le_not_list e - {name} else le_not_list e)\<rparr>))))"

section \<open>Attribute names\<close>

definition attr_name :: "attr_arg \<Rightarrow> string res" where
  "attr_name a =
     (case a of
        ANamed n \<Rightarrow> Inr n
      | ANotStr \<Rightarrow> Inl (TypeError ''attribute name must be unicode or str, got %s object %r''))"

definition set_altnames :: "string \<Rightarrow> string list \<Rightarrow> string cidict \<Rightarrow> string cidict" where
  "set_altnames name alts names = foldl (\<lambda>d a. ci_set a name d) names alts"

definition rename_orig ::
    "string cidict \<Rightarrow> string \<Rightarrow> (string \<times> bytes list) list \<Rightarrow> (string \<times> bytes list) list" where
  "rename_orig names name orig =
     (case find (\<lambda>(oldname, _). ci_get oldname None names = Some name) orig of
        None \<Rightarrow> orig
      | Some (oldname, vs) \<Rightarrow> AList.update name vs (AList.delete oldname orig))"

definition add_attr_name :: "'v ldap_conn \<Rightarrow> string \<Rightarrow> ('v ldap_entry, string) act" where
  "add_attr_name conn name = (\<lambda>e.
     case ci_getitem name (le_names e) of
       Inr n \<Rightarrow> (Inr n, e)
     | Inl _ \<Rightarrow>
         let alts = (case c_altnames conn name of None \<Rightarrow> [] | Some l \<Rightarrow> l);
             names = ci_set name name (set_altnames name alts (le_names e))
         in (Inr name, e\<lparr>le_names := names, le_orig_raw := rename_orig names name (le_orig_raw e)\<rparr>))"

definition get_attr_name :: "attr_arg \<Rightarrow> ('v ldap_entry, string) act" where
  "get_attr_name a = act_read (\<lambda>e. rbind (attr_name a) (\<lambda>n. ci_getitem n (le_names e)))"

section \<open>The operations\<close>

definition nice_list :: "'v nice_arg \<Rightarrow> 'v list" where
  "nice_list v = (case v of NNone \<Rightarrow> [] | NScalar x \<Rightarrow> [x] | NList l \<Rightarrow> l)"

fun is_list_arg :: "'v nice_arg \<Rightarrow> bool" where
  "is_list_arg (NList _) = True"
| "is_list_arg _ = False"

text \<open>\<open>same\<close>: the assigned list is the object stored for the attribute.\<close>

definition store_nice :: "bool \<Rightarrow> 'v nice_arg \<Rightarrow> string \<Rightarrow> 'v ldap_entry \<Rightarrow> 'v ldap_entry" where
  "store_nice same v name e =
     (let e1 = e\<lparr>le_not_list := (case v of NList _ \<Rightarrow> le_not_list e - {name} | _ \<Rightarrow> insert name (le_not_list e))\<rparr>
      in if same \<and> is_list_arg v \<and> map_of (le_nice e) name = Some (Some (nice_list v)) then e1
         else e1\<lparr>le_nice := AList.update name (Some (nice_list v)) (le_nice e),
                 le_raw := AList.update name None (le_raw e),
                 le_sync := AList.delete name (le_sync e)\<rparr>)"

definition sync_unless_None ::
    "('v ldap_entry \<Rightarrow> (string \<times> 'a list option) list) \<Rightarrow> 'v ldap_conn \<Rightarrow> string \<Rightarrow> ('v ldap_entry, unit) act" where
  "sync_unless_None view conn name = (\<lambda>e.
     case map_of (view e) name of
       None \<Rightarrow> (Inl (KeyError name), e)
     | Some None \<Rightarrow> (Inr (), e)
     | Some (Some _) \<Rightarrow> sync_attr conn name e)"

definition set_nice :: "'v ldap_conn \<Rightarrow> bool \<Rightarrow> attr_arg \<Rightarrow> 'v nice_arg \<Rightarrow> ('v ldap_entry, unit) act" where
  "set_nice conn same a v =
     act_bind (act_read (\<lambda>_. attr_name a)) (\<lambda>n.
     act_bind (add_attr_name conn n) (\<lambda>name.
     act_bind (\<lambda>e. (Inr (), store_nice same v name e)) (\<lambda>_.
     sync_unless_None le_raw conn name)))"

fun raw_items :: "raw_item list \<Rightarrow> bytes list res" where
  "raw_items [] = Inr []"
| "raw_items (RBytes b # is) = rbind (raw_items is) (\<lambda>bs. Inr (b # bs))"
| "raw_items (RItem # is) = Inl (TypeError ''%s[%d] value must be bytes, got %s object %r'')"

definition raw_list :: "raw_arg \<Rightarrow> bytes list res" where
  "raw_list v =
     (case v of
        RNotList \<Rightarrow> Inl (TypeError ''%s value must be list, got %s object %r'')
      | RList is \<Rightarrow> raw_items is)"

definition store_raw :: "bool \<Rightarrow> bytes list \<Rightarrow> string \<Rightarrow> 'v ldap_entry \<Rightarrow> 'v ldap_entry" where
  "store_raw same l name e =
     (if same \<and> map_of (le_raw e) name = Some (Some l) then e
      else e\<lparr>le_raw := AList.update name (Some l) (le_raw e),
             le_nice := AList.update name None (le_nice e),
             le_sync := AList.delete name (le_sync e)\<rparr>)"

definition set_raw :: "'v ldap_conn \<Rightarrow> bool \<Rightarrow> attr_arg \<Rightarrow> raw_arg \<Rightarrow> ('v ldap_entry, unit) act" where
  "set_raw conn same a v =
     act_bind (act_read (\<lambda>_. attr_name a)) (\<lambda>n.
     act_bind (act_read (\<lambda>_. raw_list v)) (\<lambda>l.
     act_bind (add_attr_name conn n) (\<lambda>name.
     act_bind (\<lambda>e. (Inr (), store_raw same l name e)) (\<lambda>_.
     sync_unless_None le_nice conn name))))"

definition fill_None :: "string \<Rightarrow> (string \<times> 'a list option) list \<Rightarrow> (string \<times> 'a list option) list" where
  "fill_None name d = (if map_of d name = Some None then AList.update name (Some []) d else d)"

definition nice_value :: "string \<Rightarrow> 'v ldap_entry \<Rightarrow> 'v nice_result res" where
  "nice_value name e =
     rbind (dict_list (le_nice e) name) (\<lambda>l.
       if name \<in> le_not_list e
       then (if length l \<le> 1 then Inr (case l of [] \<Rightarrow> GNone | x # _ \<Rightarrow> GScalar x)
             else Inl (AssertionError ''len(value) <= 1''))
       else Inr (GList l))"

definition get_nice :: "'v ldap_conn \<Rightarrow> attr_arg \<Rightarrow> ('v ldap_entry, 'v nice_result) act" where
  "get_nice conn a =
     act_bind (get_attr_name a) (\<lambda>name.
     act_bind (\<lambda>e. (Inr (), e\<lparr>le_nice := fill_None name (le_nice e)\<rparr>)) (\<lambda>_.
     act_bind (act_read (\<lambda>e. dict_list (le_nice e) name)) (\<lambda>_.
     act_bind (sync_unless_None le_raw conn name) (\<lambda>_.
     act_read (nice_value name)))))"

definition get_raw :: "'v ldap_conn \<Rightarrow> attr_arg \<Rightarrow> ('v ldap_entry, bytes list) act" where
  "get_raw conn a =
     act_bind (get_attr_name a) (\<lambda>name.
     act_bind (\<lambda>e. (Inr (), e\<lparr>le_raw := fill_None name (le_raw e)\<rparr>)) (\<lambda>_.
     act_bind (act_read (\<lambda>e. dict_list (le_raw e) name)) (\<lambda>_.
     act_bind (sync_unless_None le_nice conn name) (\<lambda>_.
     act_read (\<lambda>e. dict_list (le_raw e) name)))))"

definition del_altnames :: "string \<Rightarrow> string cidict \<Rightarrow> string cidict" where
  "del_altnames name names =
     foldl (\<lambda>d (alt, k). if k = name then ci_del alt d else d) names
       (zip (map snd (ci_keys names)) (map snd (ci_dict names)))"

definition delitem :: "attr_arg \<Rightarrow> ('v ldap_entry, unit) act" where
  "delitem a =
     act_bind (get_attr_name a) (\<lambda>name.
     act_bind (\<lambda>e. (Inr (), e\<lparr>le_names := del_altnames name (le_names e)\<rparr>)) (\<lambda>_.
     act_bind (\<lambda>e. if name \<in> fst ` set (le_nice e) then (Inr (), e\<lparr>le_nice := AList.delete name (le_nice e)\<rparr>)
                   else (Inl (KeyError name), e)) (\<lambda>_.
     act_bind (\<lambda>e. if name \<in> fst ` set (le_raw e) then (Inr (), e\<lparr>le_raw := AList.delete name (le_raw e)\<rparr>)
                   else (Inl (KeyError name), e)) (\<lambda>_.
     (\<lambda>e. (Inr (), e\<lparr>le_sync := AList.delete name (le_sync e), le_not_list := le_not_list e - {name}\<rparr>))))))"

definition clear_entry :: "'v ldap_entry \<Rightarrow> 'v ldap_entry" where
  "clear_entry e =
     e\<lparr>le_names := ci_clear (le_names e), le_nice := [], le_raw := [], le_sync := [], le_not_list := {}\<rparr>"

definition entry_len :: "'v ldap_entry \<Rightarrow> nat" where
  "entry_len e = length (le_nice e)"

definition entry_iter :: "'v ldap_entry \<Rightarrow> string list" where
  "entry_iter e = map fst (le_nice e)"

definition entry_contains :: "string \<Rightarrow> 'v ldap_entry \<Rightarrow> bool" where
  "entry_contains name e \<longleftrightarrow> ci_contains name (le_names e)"

definition entry_update :: "'v ldap_conn \<Rightarrow> (attr_arg \<times> 'v nice_arg) list \<Rightarrow> ('v ldap_entry, unit) act" where
  "entry_update conn items = act_seq (map (\<lambda>(a, v). set_nice conn False a v) items)"

definition single_value_get :: "'v ldap_conn \<Rightarrow> attr_arg \<Rightarrow> ('v ldap_entry, 'v option) act" where
  "single_value_get conn a =
     act_bind (get_nice conn a) (\<lambda>v.
       case v of
         GNone \<Rightarrow> act_ret None
       | GScalar x \<Rightarrow> act_ret (Some x)
       | GList [] \<Rightarrow> act_ret None
       | GList [x] \<Rightarrow> act_ret (Some x)
       | GList _ \<Rightarrow> act_raise (ValueError ''%s has %s values, one expected''))"

definition single_value_set :: "'v ldap_conn \<Rightarrow> attr_arg \<Rightarrow> 'v option \<Rightarrow> ('v ldap_entry, unit) act" where
  "single_value_set conn a v =
     (case v of
        None \<Rightarrow> set_nice conn False a NNone
      | Some x \<Rightarrow> set_nice conn False a (NList [x]))"

text \<open>
  \<open>LDAPEntry(conn, dn, entry)\<close> for an entry of another connection: \<open>self.raw.update(obj.raw)\<close>.
  The reads synchronise the other entry with its own connection.
\<close>

fun raw_update_from ::
    "'v ldap_conn \<Rightarrow> 'v ldap_conn \<Rightarrow> string list \<Rightarrow> ('v ldap_entry \<times> 'v ldap_entry, unit) act" where
  "raw_update_from conn conn' [] = act_ret ()"
| "raw_update_from conn conn' (n # ns) =
     act_bind (\<lambda>(e, obj). case get_raw conn' (ANamed n) obj of (r, obj') \<Rightarrow> (r, (e, obj'))) (\<lambda>vs.
     act_bind (\<lambda>(e, obj). case set_raw conn False (ANamed n) (RList (map RBytes vs)) e of (r, e') \<Rightarrow> (r, (e', obj))) (\<lambda>_.
     raw_update_from conn conn' ns))"

definition entry_copy_to ::
    "'v ldap_conn \<Rightarrow> 'v ldap_conn \<Rightarrow> raw_dn \<Rightarrow> 'v ldap_entry \<Rightarrow> unit res \<times> 'v ldap_entry \<times> 'v ldap_entry" where
  "entry_copy_to conn conn' d obj =
     raw_update_from conn conn' (entry_iter obj)
       ((entry_empty d)\<lparr>le_not_list := le_not_list obj, le_orig_raw := le_orig_raw obj\<rparr>, obj)"

section \<open>Modification lists\<close>

datatype modop = MOD_ADD | MOD_DELETE | MOD_REPLACE

type_synonym ldap_mod = "modop \<times> string \<times> bytes list option"

fun raw_view_items :: "'v ldap_conn \<Rightarrow> string list \<Rightarrow> ('v ldap_entry, (string \<times> bytes list) list) act" where
  "raw_view_items conn [] = act_ret []"
| "raw_view_items conn (n # ns) =
     act_bind (get_raw conn (ANamed n)) (\<lambda>vs. act_bind (raw_view_items conn ns) (\<lambda>l. act_ret ((n, vs) # l)))"

definition reset_modlist :: "'v ldap_conn \<Rightarrow> ('v ldap_entry, unit) act" where
  "reset_modlist conn =
     act_bind (act_read (\<lambda>e. Inr (entry_iter e))) (\<lambda>ns.
     act_bind (raw_view_items conn ns) (\<lambda>l e. (Inr (), e\<lparr>le_orig_raw := l\<rparr>)))"

text \<open>\<open>reset_modlist(other)\<close> for another entry of the same connection.\<close>

definition reset_modlist_from :: "'v ldap_conn \<Rightarrow> ('v ldap_entry \<times> 'v ldap_entry, unit) act" where
  "reset_modlist_from conn = (\<lambda>(e, other).
     case raw_view_items conn (entry_iter other) other of
       (Inl x, other') \<Rightarrow> (Inl x, (e, other'))
     | (Inr l, other') \<Rightarrow> (Inr (), (e\<lparr>le_orig_raw := l\<rparr>, other')))"

text \<open>\<open>self.raw.get(name, [])\<close>.\<close>

definition raw_get :: "'v ldap_conn \<Rightarrow> string \<Rightarrow> ('v ldap_entry, bytes list) act" where
  "raw_get conn name = (\<lambda>e.
     case get_raw conn (ANamed name) e of
       (Inl (KeyError _), e') \<Rightarrow> (Inr [], e')
     | r \<Rightarrow> r)"

definition attr_mods :: "'v ldap_conn \<Rightarrow> string \<Rightarrow> bytes list \<Rightarrow> bytes list \<Rightarrow> ldap_mod list res" where
  "attr_mods conn name new old =
     (if old \<noteq> [] \<and> new = [] then Inr [(MOD_DELETE, name, None)]
      else if old = [] \<and> new \<noteq> [] then Inr [(MOD_REPLACE, name, Some new)]
      else
        let adds = filter (\<lambda>x. x \<notin> set old) new; dels = filter (\<lambda>x. x \<notin> set new) old
        in if adds \<noteq> [] \<and> c_single_value conn name = Some True
           then (if 1 < length adds then Inl (PublicError ''OnlyOneValueAllowed'' name)
                 else Inr [(MOD_REPLACE, name, Some adds)])
           else Inr ((if dels \<noteq> [] then [(MOD_DELETE, name, Some dels)] else []) @
                     (if adds \<noteq> [] then [(MOD_ADD, name, Some adds)] else [])))"

fun modlist_loop :: "'v ldap_conn \<Rightarrow> string list \<Rightarrow> ('v ldap_entry, ldap_mod list) act" where
  "modlist_loop conn [] = act_ret []"
| "modlist_loop conn (n # ns) =
     act_bind (raw_get conn n) (\<lambda>new.
     act_bind (act_read (\<lambda>e. attr_mods conn n new (case map_of (le_orig_raw e) n of None \<Rightarrow> [] | Some l \<Rightarrow> l)))
       (\<lambda>ms. act_bind (modlist_loop conn ns) (\<lambda>rest. act_ret (ms @ rest))))"

definition generate_modlist :: "'v ldap_conn \<Rightarrow> ('v ldap_entry, ldap_mod list) act" where
  "generate_modlist conn =
     act_bind (act_read (\<lambda>e. Inr (c_iter_names conn (set (entry_iter e) \<union> fst ` set (le_orig_raw e))))) (\<lambda>names.
     act_bind (modlist_loop conn names) (\<lambda>ml.
     act_ret (sort_key (\<lambda>(_, n, _). py_lower n \<noteq> ''attributetypes'') ml)))"

section \<open>Sorting by position\<close>

definition index_of :: "'a list \<Rightarrow> 'a \<Rightarrow> nat" where
  "index_of xs x = length (takeWhile (\<lambda>y. y \<noteq> x) xs)"

lemma list_index_of: "x \<in> set xs \<Longrightarrow> list_index xs x = Inr (index_of xs x)"
  by (induction xs) (auto simp: index_of_def)

lemma nth_index_of: "x \<in> set xs \<Longrightarrow> xs ! index_of xs x = x"
  by (induction xs) (auto simp: index_of_def)

lemma inj_on_index_of: "inj_on (index_of xs) (set xs)"
  by (rule inj_onI) (metis nth_index_of)

lemma sorted_by_index_sort_key:
  assumes "set vs \<subseteq> set xs"
  shows "sorted_by_index xs vs = Inr (sort_key (index_of xs) vs)"
proof -
  have *: "rmap (\<lambda>v. rbind (list_index xs v) (\<lambda>i. Inr (i, v))) vs = Inr (map (\<lambda>v. (index_of xs v, v)) vs)"
    using assms by (induction vs) (auto simp: list_index_of)
  have "sort_key fst (map (\<lambda>v. (index_of xs v, v)) vs) = map (\<lambda>v. (index_of xs v, v)) (sort_key (index_of xs) vs)"
    by (rule sort_key_inj_key_eq)
      (use inj_on_index_of [of xs] assms in \<open>auto simp: inj_on_def comp_def\<close>)
  then show ?thesis by (simp add: sorted_by_index_def * comp_def)
qed

lemma sorted_index_of_filter:
  "distinct xs \<Longrightarrow> sorted (map (index_of xs) (filter P xs))"
proof (induction xs)
  case (Cons x xs)
  have "map (index_of (x # xs)) (filter P xs) = map Suc (map (index_of xs) (filter P xs))"
    using Cons.prems by (auto simp: index_of_def)
  then have "sorted (map (index_of (x # xs)) (filter P xs))"
    using Cons by (simp add: sorted_wrt_map del: map_map)
  moreover have "index_of (x # xs) x = 0" by (simp add: index_of_def)
  ultimately show ?case by simp
qed simp

lemma sorted_by_index_filter:
  assumes "distinct xs" "distinct vs" "set vs = {x \<in> set xs. P x}"
  shows "sorted_by_index xs vs = Inr (filter P xs)"
proof -
  have "sort_key (index_of xs) vs = filter P xs"
  proof (rule sort_key_inj_key_eq)
    show "mset vs = mset (filter P xs)"
      using assms by (intro set_eq_iff_mset_eq_distinct [THEN iffD1]) auto
    show "inj_on (index_of xs) (set vs)"
      using assms(3) by (intro inj_on_subset [OF inj_on_index_of]) auto
    show "sorted (map (index_of xs) (filter P xs))"
      using assms(1) by (rule sorted_index_of_filter)
  qed
  then show ?thesis using assms(3) by (subst sorted_by_index_sort_key) auto
qed

section \<open>Synchronisation after a change of one view\<close>

lemma sync_dels_ok:
  assumes "\<forall>x \<in> set dels. conv x = Inr (f x)" "inj_on f (set dels)" "distinct dels"
    "f ` set dels \<subseteq> set ys" "distinct ys"
  shows "sync_dels conv {} dels ys = (Inr (), filter (\<lambda>y. y \<notin> f ` set dels) ys)"
  using assms
proof (induction dels arbitrary: ys)
  case (Cons d dels)
  then have "sync_dels conv {} dels (remove1 (f d) ys) = (Inr (), filter (\<lambda>y. y \<notin> f ` set dels) (remove1 (f d) ys))"
    by (intro Cons.IH) (auto simp: inj_on_def)
  moreover have "filter (\<lambda>y. y \<notin> f ` set dels) (remove1 (f d) ys) = filter (\<lambda>y. y \<notin> f ` set (d # dels)) ys"
    using Cons.prems(5) by (auto simp: distinct_remove1_removeAll removeAll_filter_not_eq intro: filter_cong)
  ultimately show ?case
    using Cons.prems by (simp add: sync_dels_def act_defs list_remove_def)
qed (simp add: sync_dels_def act_defs)

lemma sync_adds_ok:
  "\<forall>x \<in> set adds. conv x = Inr (f x) \<Longrightarrow> sync_adds conv {} adds ys = (Inr (), ys @ map f adds)"
  by (induction adds arbitrary: ys) (auto simp: sync_adds_def act_defs)

definition iters_ok :: "'v ldap_conn \<Rightarrow> bool" where
  "iters_ok conn \<longleftrightarrow>
     set_iter_ok (c_iter_nice conn) \<and> set_iter_ok (c_iter_raw conn) \<and> set_iter_ok (c_iter_names conn)"

text \<open>What one view becomes when the other changed from \<open>old\<close> to \<open>new\<close>.\<close>

definition carried :: "('x \<Rightarrow> 'y) \<Rightarrow> 'x list \<Rightarrow> 'x list \<Rightarrow> 'y list \<Rightarrow> 'y list" where
  "carried f old new ys =
     filter (\<lambda>y. y \<notin> f ` (set old - set new)) ys @ map f (filter (\<lambda>x. x \<notin> set old) new)"

lemma carried_same [simp]: "carried f xs xs ys = ys"
  by (simp add: carried_def)

lemma carried_set:
  assumes "inj_on f (set old \<union> set new)" "set ys = f ` set old"
  shows "set (carried f old new ys) = f ` set new"
  using assms by (auto simp: carried_def inj_on_def)

lemma carried_distinct:
  assumes "inj_on f (set old \<union> set new)" "set ys = f ` set old" "distinct ys" "distinct new"
  shows "distinct (carried f old new ys)"
  using assms by (auto simp: carried_def distinct_map inj_on_def)

lemma sync_lists_nice_changed:
  assumes it: "iters_ok conn" and d: "distinct ns" "distinct nice" "distinct rs"
    and enc: "\<forall>v \<in> set ns \<union> set nice. c_encode conn v = Inr (f v)"
    and inj: "inj_on f (set ns \<union> set nice)" and rs: "set rs = f ` set ns"
  shows "sync_lists conn name (ns, rs) (nice, rs) = (Inr (), (nice, carried f ns nice rs))"
proof -
  let ?dels = "c_iter_nice conn (set ns - set nice)" and ?adds = "c_iter_nice conn (set nice - set ns)"
  have iter: "set ?dels = set ns - set nice" "distinct ?dels" "set ?adds = set nice - set ns" "distinct ?adds"
    "c_iter_raw conn {} = []"
    using it by (simp_all add: iters_ok_def set_iter_set set_iter_distinct set_iter_Nil_iff)
  have 1: "sync_dels (c_encode conn) {} ?dels rs = (Inr (), filter (\<lambda>b. b \<notin> f ` set ?dels) rs)"
    using enc inj rs d by (intro sync_dels_ok) (auto simp: iter intro: inj_on_subset)
  have 2: "sorted_by_index nice ?adds = Inr (filter (\<lambda>v. v \<notin> set ns) nice)"
    using d by (intro sorted_by_index_filter) (auto simp: iter)
  have 3: "sync_adds (c_encode conn) {} (filter (\<lambda>v. v \<notin> set ns) nice) ys
      = (Inr (), ys @ map f (filter (\<lambda>v. v \<notin> set ns) nice))" for ys
    using enc by (intro sync_adds_ok) auto
  show ?thesis
    by (simp add: sync_lists_def Let_def act_defs on_raw_def on_nice_def 1 2 3 iter
        sync_dels_def [of "decode_for conn name"] sync_adds_def [of "decode_for conn name"]
        sorted_by_index_def [of _ "[]"] carried_def)
qed

lemma sync_lists_raw_changed:
  assumes it: "iters_ok conn" and d: "distinct ns" "distinct raw" "distinct rs"
    and dec: "\<forall>b \<in> set rs \<union> set raw. c_decode conn name b = Inr (g b)"
    and inj: "inj_on g (set rs \<union> set raw)" and ns: "set ns = g ` set rs"
  shows "sync_lists conn name (ns, rs) (ns, raw) = (Inr (), (carried g rs raw ns, raw))"
proof -
  let ?dels = "c_iter_raw conn (set rs - set raw)" and ?adds = "c_iter_raw conn (set raw - set rs)"
  have iter: "set ?dels = set rs - set raw" "distinct ?dels" "set ?adds = set raw - set rs" "distinct ?adds"
    "c_iter_nice conn {} = []"
    using it by (simp_all add: iters_ok_def set_iter_set set_iter_distinct set_iter_Nil_iff)
  have dec': "\<forall>b \<in> set rs \<union> set raw. decode_for conn name b = Inr (g b)"
    using dec by (simp add: decode_for_def)
  have 1: "sync_dels (decode_for conn name) {} ?dels ns = (Inr (), filter (\<lambda>b. b \<notin> g ` set ?dels) ns)"
    using dec' inj ns d by (intro sync_dels_ok) (auto simp: iter intro: inj_on_subset)
  have 2: "sorted_by_index raw ?adds = Inr (filter (\<lambda>v. v \<notin> set rs) raw)"
    using d by (intro sorted_by_index_filter) (auto simp: iter)
  have 3: "sync_adds (decode_for conn name) {} (filter (\<lambda>v. v \<notin> set rs) raw) ys
      = (Inr (), ys @ map g (filter (\<lambda>v. v \<notin> set rs) raw))" for ys
    using dec' by (intro sync_adds_ok) auto
  show ?thesis
    by (simp add: sync_lists_def Let_def act_defs on_raw_def on_nice_def 1 2 3 iter
        sync_dels_def [of "c_encode conn"] sync_adds_def [of "c_encode conn"]
        sorted_by_index_def [of _ "[]"] carried_def)
qed

lemma map_of_set_lists:
  "map_of (le_nice (set_lists name l e)) k = (if k = name then Some (Some (fst l)) else map_of (le_nice e) k)"
  "map_of (le_raw (set_lists name l e)) k = (if k = name then Some (Some (snd l)) else map_of (le_raw e) k)"
  by (simp_all add: set_lists_def update_conv')

lemmas sync_attr_simps = sync_attr_def sync_unless_None_def dict_list_def Let_def map_of_set_lists

text \<open>The state of an attribute that was synchronised at \<open>(ns, rs)\<close>.\<close>

definition attr_state :: "'v ldap_entry \<Rightarrow> string \<Rightarrow> string \<Rightarrow> 'v list \<Rightarrow> bytes list \<Rightarrow> bool" where
  "attr_state e a name nice raw \<longleftrightarrow>
     ci_lookup (le_names e) a = Some name \<and>
     map_of (le_nice e) name = Some (Some nice) \<and> map_of (le_raw e) name = Some (Some raw)"

section \<open>Invariant\<close>

text \<open>
  \<open>ex\<close>: names that are registered but whose lists are about to be stored.
\<close>

definition entry_ok_but :: "string set \<Rightarrow> 'v ldap_entry \<Rightarrow> bool" where
  "entry_ok_but ex e \<longleftrightarrow>
     ci_ok (le_names e) \<and> map fst (le_nice e) = map fst (le_raw e) \<and> distinct (map fst (le_nice e)) \<and>
     (\<forall>k v. ci_lookup (le_names e) k = Some v \<longrightarrow> v \<in> fst ` set (le_nice e) \<union> ex) \<and>
     (\<forall>n. \<not> (map_of (le_nice e) n = Some None \<and> map_of (le_raw e) n = Some None)) \<and>
     (\<forall>n \<in> le_not_list e. length (fst (sync_record e n)) \<le> 1 \<and>
        (\<forall>l. map_of (le_nice e) n = Some (Some l) \<and> map_of (le_raw e) n = Some None \<longrightarrow> length l \<le> 1))"

abbreviation entry_ok :: "'v ldap_entry \<Rightarrow> bool" where
  "entry_ok \<equiv> entry_ok_but {}"

lemma entry_okI:
  assumes "ci_ok (le_names e)" "map fst (le_nice e) = map fst (le_raw e)" "distinct (map fst (le_nice e))"
    and "\<And>k v. ci_lookup (le_names e) k = Some v \<Longrightarrow> v \<in> fst ` set (le_nice e) \<union> ex"
    and "\<And>n. map_of (le_nice e) n = Some None \<Longrightarrow> map_of (le_raw e) n = Some None \<Longrightarrow> False"
    and "\<And>n. n \<in> le_not_list e \<Longrightarrow> length (fst (sync_record e n)) \<le> 1"
    and "\<And>n l. n \<in> le_not_list e \<Longrightarrow> map_of (le_nice e) n = Some (Some l) \<Longrightarrow>
      map_of (le_raw e) n = Some None \<Longrightarrow> length l \<le> 1"
  shows "entry_ok_but ex e"
  using assms unfolding entry_ok_but_def by blast

lemma entry_okD:
  assumes "entry_ok_but ex e"
  shows "ci_ok (le_names e)" "map fst (le_nice e) = map fst (le_raw e)" "distinct (map fst (le_nice e))"
    and "ci_lookup (le_names e) k = Some v \<Longrightarrow> v \<in> fst ` set (le_nice e) \<union> ex"
    and "map_of (le_nice e) n = Some None \<Longrightarrow> map_of (le_raw e) n \<noteq> Some None"
    and "n \<in> le_not_list e \<Longrightarrow> length (fst (sync_record e n)) \<le> 1"
    and "n \<in> le_not_list e \<Longrightarrow> map_of (le_nice e) n = Some (Some l) \<Longrightarrow>
      map_of (le_raw e) n = Some None \<Longrightarrow> length l \<le> 1"
  using assms unfolding entry_ok_but_def by blast+

lemma keys_image: "fst ` set (AList.update k v al) = insert k (fst ` set al)"
  by (induction al) auto

lemma sync_record_simps [simp]:
  "sync_record (e\<lparr>le_sync := AList.update name s (le_sync e)\<rparr>) k = (if k = name then s else sync_record e k)"
  "sync_record (e\<lparr>le_sync := AList.delete name (le_sync e)\<rparr>) k = (if k = name then ([], []) else sync_record e k)"
  by (simp_all add: sync_record_def update_conv' delete_conv')

lemma sync_record_cong: "le_sync e = le_sync e' \<Longrightarrow> sync_record e = sync_record e'"
  by (simp add: sync_record_def fun_eq_iff)

text \<open>Storing two lists for an attribute, with its synchronisation record.\<close>

lemma entry_ok_set_lists:
  assumes "entry_ok_but ex e" and "name \<in> nl \<Longrightarrow> length (fst s) \<le> 1" and "nl \<subseteq> le_not_list e"
  shows "entry_ok_but ex ((set_lists name l e)\<lparr>le_sync := AList.update name s (le_sync e), le_not_list := nl\<rparr>)"
proof (rule entry_okI)
  fix n assume "n \<in> le_not_list ((set_lists name l e)\<lparr>le_sync := AList.update name s (le_sync e), le_not_list := nl\<rparr>)"
  with assms(2,3) entry_okD(6) [OF assms(1), of n]
  show "length (fst (sync_record ((set_lists name l e)\<lparr>le_sync := AList.update name s (le_sync e), le_not_list := nl\<rparr>) n)) \<le> 1"
    by (auto simp: sync_record_def update_conv')
qed (use assms(3) entry_okD [OF assms(1)] in
      \<open>auto simp: set_lists_def update_keys distinct_update keys_image update_conv' split: if_splits\<close>)

lemma entry_ok_sync_attr:
  assumes "entry_ok_but ex e"
  shows "entry_ok_but ex (snd (sync_attr conn name e))"
proof (cases "\<exists>nice raw. map_of (le_nice e) name = Some (Some nice) \<and> map_of (le_raw e) name = Some (Some raw)")
  case True
  then obtain nice raw where nr: "map_of (le_nice e) name = Some (Some nice)" "map_of (le_raw e) name = Some (Some raw)"
    by blast
  let ?s = "sync_record e name" and ?e1 = "e\<lparr>le_sync := AList.update name (sync_record e name) (le_sync e)\<rparr>"
  have e1: "entry_ok_but ex ?e1"
    by (rule entry_okI) (use entry_okD [OF assms] in \<open>auto split: if_splits\<close>)
  obtain r l where rl: "sync_lists conn name ?s (nice, raw) = (r, l)" by (rule prod.exhaust)
  have err: "entry_ok_but ex (set_lists name l ?e1)"
  proof -
    have "set_lists name l ?e1 =
        (set_lists name l e)\<lparr>le_sync := AList.update name ?s (le_sync e), le_not_list := le_not_list e\<rparr>"
      by (cases e) (simp add: set_lists_def)
    then show ?thesis
      using entry_ok_set_lists [OF assms, of name "le_not_list e" ?s l] entry_okD(6) [OF assms, of name] by simp
  qed
  have fin: "entry_ok_but ex ((set_lists name l ?e1)\<lparr>le_sync := AList.update name l (le_sync ?e1),
      le_not_list := (if 1 < length (fst l) then le_not_list e - {name} else le_not_list e)\<rparr>)"
    by (rule entry_ok_set_lists [OF e1]) (auto split: if_splits)
  show ?thesis
    using nr rl e1 err fin by (auto simp: sync_attr_def dict_list_def Let_def split: sum.split)
next
  case False
  then show ?thesis
    using assms by (auto simp: sync_attr_def dict_list_def split: option.split sum.split)
qed

lemma entry_ok_sync_unless_None:
  "entry_ok_but ex e \<Longrightarrow> entry_ok_but ex (snd (sync_unless_None view conn name e))"
  by (auto simp: sync_unless_None_def entry_ok_sync_attr split: option.split)

lemma ci_ok_set_altnames: "ci_ok d \<Longrightarrow> ci_ok (set_altnames name alts d)"
  unfolding set_altnames_def by (induction alts arbitrary: d) (simp_all add: ci_ok_set)

lemma lookup_set_altnames:
  "ci_ok d \<Longrightarrow> ci_lookup (set_altnames name alts d) k \<in> {Some name, ci_lookup d k}"
proof (induction alts arbitrary: d)
  case (Cons a alts)
  then show ?case
    using Cons.IH [of "ci_set a name d"] by (auto simp: set_altnames_def ci_ok_set cid.lookup_update)
qed (simp add: set_altnames_def)

lemma entry_ok_add_attr_name:
  assumes "entry_ok e"
  obtains n e' where "add_attr_name conn name e = (Inr n, e')" "entry_ok_but {n} e'"
proof (cases "ci_lookup (le_names e) name")
  case (Some n)
  have "entry_ok_but {n} e" using assms unfolding entry_ok_but_def by blast
  with Some that show ?thesis by (simp add: add_attr_name_def ci_getitem_lookup)
next
  case None
  let ?alts = "case c_altnames conn name of None \<Rightarrow> [] | Some l \<Rightarrow> l"
  let ?names = "ci_set name name (set_altnames name ?alts (le_names e))"
  let ?e = "e\<lparr>le_names := ?names, le_orig_raw := rename_orig ?names name (le_orig_raw e)\<rparr>"
  note ok = entry_okD [OF assms]
  have names: "ci_ok ?names" "ci_lookup ?names k \<in> {Some name, ci_lookup (le_names e) k}" for k
    using lookup_set_altnames [OF ok(1), of name ?alts k]
    by (auto simp: ci_ok_set ci_ok_set_altnames ok(1) cid.lookup_update)
  have "entry_ok_but {name} ?e"
  proof (rule entry_okI)
    fix k v assume "ci_lookup (le_names ?e) k = Some v"
    with names(2) [of k] ok(4) [of k v] show "v \<in> fst ` set (le_nice ?e) \<union> {name}" by auto
  qed (use ok names(1) in \<open>auto simp: sync_record_def\<close>)
  with None that show ?thesis by (simp add: add_attr_name_def ci_getitem_lookup Let_def)
qed

lemma entry_ok_store_nice:
  assumes "entry_ok_but {name} e"
  shows "entry_ok (store_nice same v name e)"
proof (cases "same \<and> is_list_arg v \<and> map_of (le_nice e) name = Some (Some (nice_list v))")
  case True
  then have "name \<in> fst ` set (le_nice e)" by (force dest: map_of_SomeD)
  then show ?thesis
    using True
    by (cases v; intro entry_okI; use entry_okD [OF assms] in \<open>auto simp: store_nice_def sync_record_def\<close>)
next
  case False
  let ?nl = "case v of NList _ \<Rightarrow> le_not_list e - {name} | _ \<Rightarrow> insert name (le_not_list e)"
  let ?e = "e\<lparr>le_not_list := ?nl, le_nice := AList.update name (Some (nice_list v)) (le_nice e),
    le_raw := AList.update name None (le_raw e), le_sync := AList.delete name (le_sync e)\<rparr>"
  note ok = entry_okD [OF assms(1)]
  have nl: "n \<in> ?nl \<Longrightarrow> n = name \<and> length (nice_list v) \<le> 1 \<or> n \<noteq> name \<and> n \<in> le_not_list e" for n
    by (cases v) (auto simp: nice_list_def)
  have "entry_ok ?e"
  proof (rule entry_okI)
    fix n assume "n \<in> le_not_list ?e"
    with nl [of n] ok(6) [of n] show "length (fst (sync_record ?e n)) \<le> 1"
      by (auto simp: sync_record_def delete_conv')
  next
    fix n l assume "n \<in> le_not_list ?e" "map_of (le_nice ?e) n = Some (Some l)" "map_of (le_raw ?e) n = Some None"
    with nl [of n] ok(7) [of n l] show "length l \<le> 1" by (auto simp: update_conv' split: if_splits)
  qed (use ok in \<open>auto simp: update_keys distinct_update keys_image update_conv' split: if_splits\<close>)
  with False show ?thesis by (auto simp: store_nice_def Let_def)
qed

lemma entry_ok_store_raw:
  assumes "entry_ok_but {name} e"
  shows "entry_ok (store_raw same l name e)"
proof (cases "same \<and> map_of (le_raw e) name = Some (Some l)")
  case True
  then have "name \<in> fst ` set (le_raw e)" by (force dest: map_of_SomeD)
  then have "name \<in> fst ` set (le_nice e)"
    using entry_okD(2) [OF assms] by (metis set_map)
  then show ?thesis
    using True by (intro entry_okI) (use entry_okD [OF assms] in \<open>auto simp: store_raw_def\<close>)
next
  case False
  let ?e = "e\<lparr>le_raw := AList.update name (Some l) (le_raw e), le_nice := AList.update name None (le_nice e),
    le_sync := AList.delete name (le_sync e)\<rparr>"
  note ok = entry_okD [OF assms]
  have "entry_ok ?e"
  proof (rule entry_okI)
    fix n assume "n \<in> le_not_list ?e"
    with ok(6) [of n] show "length (fst (sync_record ?e n)) \<le> 1"
      by (auto simp: sync_record_def delete_conv')
  qed (use ok in \<open>auto simp: update_keys distinct_update keys_image update_conv' split: if_splits\<close>)
  with False show ?thesis by (auto simp: store_raw_def)
qed

interpretation entry_inv: act_relation "\<lambda>e e'. entry_ok e \<longrightarrow> entry_ok (e' :: 'v ldap_entry)"
  by unfold_locales auto

lemma keeps_set_nice: "entry_inv.keeps (set_nice conn same a v)"
proof (rule entry_inv.keepsI, rule impI)
  fix e :: "'a ldap_entry" assume ok: "entry_ok e"
  show "entry_ok (snd (set_nice conn same a v e))"
  proof (cases a)
    case (ANamed n)
    obtain m e' where *: "add_attr_name conn n e = (Inr m, e')" "entry_ok_but {m} e'"
      by (rule entry_ok_add_attr_name [OF ok])
    then show ?thesis
      using ANamed entry_ok_sync_unless_None [OF entry_ok_store_nice [OF *(2)]]
      by (simp add: set_nice_def act_defs attr_name_def)
  qed (simp add: set_nice_def act_defs attr_name_def ok)
qed

lemma keeps_set_raw: "entry_inv.keeps (set_raw conn same a v)"
proof (rule entry_inv.keepsI, rule impI)
  fix e :: "'a ldap_entry" assume ok: "entry_ok e"
  show "entry_ok (snd (set_raw conn same a v e))"
  proof (cases a)
    case (ANamed n)
    obtain m e' where *: "add_attr_name conn n e = (Inr m, e')" "entry_ok_but {m} e'"
      by (rule entry_ok_add_attr_name [OF ok])
    then show ?thesis
      using ANamed ok entry_ok_sync_unless_None [OF entry_ok_store_raw [OF *(2)]]
      by (auto simp: set_raw_def act_defs attr_name_def split: sum.split)
  qed (simp add: set_raw_def act_defs attr_name_def ok)
qed

lemma fill_None_keys [simp]:
  "map fst (fill_None name d) = map fst d" "fst ` set (fill_None name d) = fst ` set d"
proof -
  have "map_of d name = Some None \<Longrightarrow> name \<in> set (map fst d)"
    by (force dest: map_of_SomeD)
  then show *: "map fst (fill_None name d) = map fst d"
    by (auto simp: fill_None_def update_keys)
  then show "fst ` set (fill_None name d) = fst ` set d" by (metis set_map)
qed

lemma map_of_fill_None:
  "map_of (fill_None name d) k = (if k = name \<and> map_of d name = Some None then Some (Some []) else map_of d k)"
  by (auto simp: fill_None_def update_conv')

lemma entry_ok_fill_nice: "entry_ok e \<Longrightarrow> entry_ok (e\<lparr>le_nice := fill_None name (le_nice e)\<rparr>)"
  by (rule entry_okI) (auto simp: map_of_fill_None sync_record_def dest: entry_okD split: if_splits)

lemma entry_ok_fill_raw: "entry_ok e \<Longrightarrow> entry_ok (e\<lparr>le_raw := fill_None name (le_raw e)\<rparr>)"
  by (rule entry_okI) (auto simp: map_of_fill_None sync_record_def dest: entry_okD split: if_splits)

lemma keeps_get_nice: "entry_inv.keeps (get_nice conn a)"
  unfolding get_nice_def get_attr_name_def
  by (intro entry_inv.keeps_intros) (auto intro!: entry_inv.keepsI entry_ok_fill_nice entry_ok_sync_unless_None)

lemma keeps_get_raw: "entry_inv.keeps (get_raw conn a)"
  unfolding get_raw_def get_attr_name_def
  by (intro entry_inv.keeps_intros) (auto intro!: entry_inv.keepsI entry_ok_fill_raw entry_ok_sync_unless_None)

lemma del_fold:
  assumes "ci_ok d"
  shows "ci_ok (foldl (\<lambda>d (alt, k). if k = name then ci_del alt d else d) d items) \<and>
    ci_lookup (foldl (\<lambda>d (alt, k). if k = name then ci_del alt d else d) d items) k =
    (if \<exists>alt. (alt, name) \<in> set items \<and> py_lower alt = py_lower k then None else ci_lookup d k)"
  using assms
proof (induction items arbitrary: d)
  case (Cons x items)
  obtain alt m where x: "x = (alt, m)" by (rule prod.exhaust)
  show ?case
    using Cons.IH [of d] Cons.IH [OF ci_ok_del [of d alt]] Cons.prems
    by (auto simp: x ci_ok_del cid.lookup_delete)
qed simp

lemma del_altnames_ok:
  assumes "ci_ok d"
  shows "ci_ok (del_altnames name d)"
    and "ci_lookup (del_altnames name d) k = Some v \<Longrightarrow> v \<noteq> name \<and> ci_lookup d k = Some v"
  using del_fold [OF assms, where name = name and k = k] lookup_item [OF assms, of k]
  by (auto simp: del_altnames_def split: if_splits)

definition entry_without :: "string \<Rightarrow> 'v ldap_entry \<Rightarrow> 'v ldap_entry" where
  "entry_without name e =
     e\<lparr>le_names := del_altnames name (le_names e), le_nice := AList.delete name (le_nice e),
       le_raw := AList.delete name (le_raw e), le_sync := AList.delete name (le_sync e),
       le_not_list := le_not_list e - {name}\<rparr>"

lemma entry_ok_without: "entry_ok e \<Longrightarrow> entry_ok (entry_without name e)"
proof (rule entry_okI)
  assume ok: "entry_ok e"
  show "ci_ok (le_names (entry_without name e))"
    by (simp add: entry_without_def del_altnames_ok entry_okD(1) [OF ok])
  fix k v assume "ci_lookup (le_names (entry_without name e)) k = Some v"
  then have "v \<noteq> name" "ci_lookup (le_names e) k = Some v"
    using del_altnames_ok(2) [OF entry_okD(1) [OF ok]] by (auto simp: entry_without_def)
  then have "v \<in> fst ` set (le_nice e) - {name}" using entry_okD(4) [OF ok] by auto
  also have "\<dots> = fst ` set (AList.delete name (le_nice e))"
    by (metis delete_keys set_map set_removeAll)
  finally show "v \<in> fst ` set (le_nice (entry_without name e)) \<union> {}" by (simp add: entry_without_def)
qed (auto simp: entry_without_def delete_keys distinct_removeAll delete_conv' sync_record_def
      dest: entry_okD split: if_splits)

lemma entry_keys:
  assumes "entry_ok e" "ci_lookup (le_names e) a = Some name"
  obtains nice raw where "map_of (le_nice e) name = Some nice" "map_of (le_raw e) name = Some raw"
    "nice \<noteq> None \<or> raw \<noteq> None"
proof -
  have "name \<in> fst ` set (le_nice e)" "fst ` set (le_nice e) = fst ` set (le_raw e)"
    using entry_okD(2,4) [OF assms(1)] assms(2) by (auto simp flip: set_map)
  then obtain nice raw where "map_of (le_nice e) name = Some nice" "map_of (le_raw e) name = Some raw"
    by (metis map_of_eq_None_iff not_None_eq)
  then show ?thesis using that entry_okD(5) [OF assms(1), of name] by fastforce
qed

lemma delitem_ok:
  assumes "entry_ok e"
  shows "delitem (ANamed a) e =
    (case ci_lookup (le_names e) a of
       None \<Rightarrow> (Inl (KeyError (py_lower a)), e)
     | Some name \<Rightarrow> (Inr (), entry_without name e))"
proof (cases "ci_lookup (le_names e) a")
  case (Some name)
  obtain nice raw where "map_of (le_nice e) name = Some nice" "map_of (le_raw e) name = Some raw"
    by (rule entry_keys [OF assms Some])
  then have "name \<in> fst ` set (le_nice e)" "name \<in> fst ` set (le_raw e)"
    by (force dest: map_of_SomeD)+
  with Some show ?thesis
    by (simp add: delitem_def act_defs get_attr_name_def attr_name_def ci_getitem_lookup entry_without_def)
qed (simp add: delitem_def act_defs get_attr_name_def attr_name_def ci_getitem_lookup)

lemma keeps_delitem: "entry_inv.keeps (delitem a)"
proof (rule entry_inv.keepsI, rule impI)
  fix e :: "'a ldap_entry" assume ok: "entry_ok e"
  show "entry_ok (snd (delitem a e))"
  proof (cases a)
    case (ANamed n)
    then show ?thesis by (simp add: delitem_ok ok entry_ok_without split: option.split)
  qed (simp add: delitem_def act_defs get_attr_name_def attr_name_def ok)
qed

lemma keeps_raw_view_items: "entry_inv.keeps (raw_view_items conn ns)"
  by (induction ns) (auto intro!: entry_inv.keeps_intros keeps_get_raw)

lemma entry_ok_orig [simp]: "entry_ok_but ex (e\<lparr>le_orig_raw := l\<rparr>) \<longleftrightarrow> entry_ok_but ex e"
  by (simp add: entry_ok_but_def sync_record_def)

lemma keeps_reset_modlist: "entry_inv.keeps (reset_modlist conn)"
  unfolding reset_modlist_def
  by (intro entry_inv.keeps_intros keeps_raw_view_items) (auto intro!: entry_inv.keepsI)

lemma keeps_raw_get: "entry_inv.keeps (raw_get conn n)"
proof (rule entry_inv.keepsI, rule impI)
  fix e :: "'a ldap_entry" assume ok: "entry_ok e"
  obtain r e' where *: "get_raw conn (ANamed n) e = (r, e')" by (rule prod.exhaust)
  have "entry_ok e'" using entry_inv.keepsD [OF keeps_get_raw *] ok by simp
  then show "entry_ok (snd (raw_get conn n e))"
    by (auto simp: raw_get_def * split: sum.split pyexc.split)
qed

lemma keeps_modlist_loop: "entry_inv.keeps (modlist_loop conn ns)"
  by (induction ns) (auto intro!: entry_inv.keeps_intros keeps_raw_get)

lemma keeps_generate_modlist: "entry_inv.keeps (generate_modlist conn)"
  unfolding generate_modlist_def by (intro entry_inv.keeps_intros keeps_modlist_loop)

lemma entry_ok_empty: "entry_ok (entry_empty d)"
  by (rule entry_okI) (auto simp: entry_empty_def ci_ok_empty)

lemma entry_ok_clear: "entry_ok (clear_entry e)"
  by (rule entry_okI) (auto simp: clear_entry_def ci_clear_def ci_ok_empty)

section \<open>Reachable entries\<close>

text \<open>
  What a program can do with an entry, failing operations included. A list a caller holds can be
  changed in place; the nice list of an attribute in \<open>_not_list\<close> is never handed out.
\<close>

inductive entry_reach :: "'v ldap_conn \<Rightarrow> 'v ldap_entry \<Rightarrow> bool" for conn where
  er_new: "entry_reach conn (entry_empty d)"
| er_set_nice: "entry_reach conn e \<Longrightarrow> entry_reach conn (snd (set_nice conn same a v e))"
| er_set_raw: "entry_reach conn e \<Longrightarrow> entry_reach conn (snd (set_raw conn same a rv e))"
| er_get_nice: "entry_reach conn e \<Longrightarrow> entry_reach conn (snd (get_nice conn a e))"
| er_get_raw: "entry_reach conn e \<Longrightarrow> entry_reach conn (snd (get_raw conn a e))"
| er_del: "entry_reach conn e \<Longrightarrow> entry_reach conn (snd (delitem a e))"
| er_clear: "entry_reach conn e \<Longrightarrow> entry_reach conn (clear_entry e)"
| er_reset: "entry_reach conn e \<Longrightarrow> entry_reach conn (snd (reset_modlist conn e))"
| er_modlist: "entry_reach conn e \<Longrightarrow> entry_reach conn (snd (generate_modlist conn e))"
| edit_nice: "entry_reach conn e \<Longrightarrow> map_of (le_nice e) n = Some (Some l) \<Longrightarrow> n \<notin> le_not_list e \<Longrightarrow>
    entry_reach conn (e\<lparr>le_nice := AList.update n (Some l') (le_nice e)\<rparr>)"
| edit_raw: "entry_reach conn e \<Longrightarrow> map_of (le_raw e) n = Some (Some r) \<Longrightarrow>
    entry_reach conn (e\<lparr>le_raw := AList.update n (Some r') (le_raw e)\<rparr>)"

lemma update_existing_keys:
  assumes "map_of d n = Some x"
  shows "map fst (AList.update n y d) = map fst d" "fst ` set (AList.update n y d) = fst ` set d"
proof -
  have "n \<in> set (map fst d)" using assms by (force dest: map_of_SomeD)
  then show *: "map fst (AList.update n y d) = map fst d" by (simp add: update_keys)
  then show "fst ` set (AList.update n y d) = fst ` set d" by (metis set_map)
qed

lemma entry_ok_edit_nice:
  assumes "entry_ok e" "map_of (le_nice e) n = Some (Some l)" "n \<notin> le_not_list e"
  shows "entry_ok (e\<lparr>le_nice := AList.update n (Some l') (le_nice e)\<rparr>)"
  by (rule entry_okI) (use entry_okD [OF assms(1)] assms(2,3) in
    \<open>auto simp: update_existing_keys update_conv' sync_record_def split: if_splits\<close>)

lemma entry_ok_edit_raw:
  assumes "entry_ok e" "map_of (le_raw e) n = Some (Some r)"
  shows "entry_ok (e\<lparr>le_raw := AList.update n (Some r') (le_raw e)\<rparr>)"
  by (rule entry_okI) (use entry_okD [OF assms(1)] assms(2) in
    \<open>auto simp: update_existing_keys update_conv' sync_record_def split: if_splits\<close>)

lemma reach_ok: "entry_reach conn e \<Longrightarrow> entry_ok e"
proof (induction rule: entry_reach.induct)
qed (auto simp: entry_ok_empty entry_ok_clear entry_ok_edit_nice entry_ok_edit_raw
    intro: entry_inv.keepsD [OF keeps_set_nice prod.collapse [symmetric], THEN mp]
      entry_inv.keepsD [OF keeps_set_raw prod.collapse [symmetric], THEN mp]
      entry_inv.keepsD [OF keeps_get_nice prod.collapse [symmetric], THEN mp]
      entry_inv.keepsD [OF keeps_get_raw prod.collapse [symmetric], THEN mp]
      entry_inv.keepsD [OF keeps_delitem prod.collapse [symmetric], THEN mp]
      entry_inv.keepsD [OF keeps_reset_modlist prod.collapse [symmetric], THEN mp]
      entry_inv.keepsD [OF keeps_generate_modlist prod.collapse [symmetric], THEN mp])

section \<open>Exceptions of the views\<close>

fun value_or_type_error :: "pyexc \<Rightarrow> bool" where
  "value_or_type_error (ValueError _) = True"
| "value_or_type_error (TypeError _) = True"
| "value_or_type_error _ = False"

text \<open>The conversions of the connection only report bad values.\<close>

definition codec_errors :: "'v ldap_conn \<Rightarrow> bool" where
  "codec_errors conn \<longleftrightarrow>
     (\<forall>v x. c_encode conn v = Inl x \<longrightarrow> value_or_type_error x) \<and>
     (\<forall>n b x. c_decode conn n b = Inl x \<longrightarrow> value_or_type_error x)"

lemma raises_list_remove: "raises_only value_or_type_error (list_remove y)"
  and raises_update: "raises_only P (\<lambda>s. (Inr x, f s))"
  by (simp_all add: raises_only_def list_remove_def)

lemma raises_sync_dels:
  assumes "\<And>v x. conv v = Inl x \<Longrightarrow> value_or_type_error x"
  shows "raises_only value_or_type_error (sync_dels conv adds dels)"
  unfolding sync_dels_def
  by (rule raises_seq) (auto intro!: raises_bind raises_read raises_ret raises_list_remove dest: assms)

lemma raises_sync_adds:
  assumes "\<And>v x. conv v = Inl x \<Longrightarrow> value_or_type_error x"
  shows "raises_only value_or_type_error (sync_adds conv dels adds)"
  unfolding sync_adds_def
  by (rule raises_seq) (auto intro!: raises_bind raises_read raises_ret raises_update dest: assms)

lemma list_index_error: "list_index xs x = Inl e \<Longrightarrow> value_or_type_error e"
  by (induction xs arbitrary: e) (auto simp: rbind_def split: if_splits sum.splits)

lemma sorted_by_index_error:
  assumes "sorted_by_index xs vs = Inl e"
  shows "value_or_type_error e"
proof -
  have "rmap (\<lambda>v. rbind (list_index xs v) (\<lambda>i. Inr (i, v))) vs = Inl e \<Longrightarrow> value_or_type_error e"
    by (induction vs) (auto simp: rbind_def split: sum.splits dest: list_index_error)
  with assms show ?thesis by (auto simp: sorted_by_index_def rbind_def split: sum.splits)
qed

lemma raises_on_nice: "raises_only P m \<Longrightarrow> raises_only P (on_nice m)"
  and raises_on_raw: "raises_only P m' \<Longrightarrow> raises_only P (on_raw m')"
  by (auto simp: raises_only_def on_nice_def on_raw_def split: prod.splits) (metis fst_conv)+

lemma raises_sync_lists:
  assumes "codec_errors conn"
  shows "raises_only value_or_type_error (sync_lists conn name synced)"
proof -
  have enc: "\<And>v x. c_encode conn v = Inl x \<Longrightarrow> value_or_type_error x"
    using assms by (simp add: codec_errors_def)
  have dec: "\<And>v x. decode_for conn name v = Inl x \<Longrightarrow> value_or_type_error x"
    using assms by (fastforce simp: codec_errors_def decode_for_def split: sum.splits pyexc.splits)
  have "raises_only value_or_type_error (act_seq
          [on_raw (sync_dels (c_encode conn) ra nd), on_nice (sync_dels (decode_for conn name) na rd),
           act_bind (act_read (\<lambda>(nice, _). sorted_by_index nice nas))
             (\<lambda>vs. on_raw (sync_adds (c_encode conn) rds vs)),
           act_bind (act_read (\<lambda>(_, raw). sorted_by_index raw ras))
             (\<lambda>vs. on_nice (sync_adds (decode_for conn name) nds vs))])" for ra nd na rd nas rds ras nds
    by (rule raises_seq)
      (auto intro!: raises_bind raises_read raises_on_nice raises_on_raw raises_sync_dels raises_sync_adds
        dest: enc dec sorted_by_index_error)
  then show ?thesis
    by (auto simp: raises_only_def sync_lists_def Let_def)
qed

lemma sync_attr_error:
  assumes "codec_errors conn" "map_of (le_nice e) name = Some (Some nice)" "map_of (le_raw e) name = Some (Some raw)"
    and "fst (sync_attr conn name e) = Inl x"
  shows "value_or_type_error x"
  using assms raises_onlyD [OF raises_sync_lists [OF assms(1)]]
  by (fastforce simp: sync_attr_def dict_list_def Let_def split: sum.splits prod.splits if_splits)

lemma sync_attr_done:
  assumes "entry_ok e" "map_of (le_nice e) name = Some (Some nice)" "map_of (le_raw e) name = Some (Some raw)"
    and "sync_attr conn name e = (Inr u, e')"
  shows "\<exists>l r. map_of (le_nice e') name = Some (Some l) \<and> map_of (le_raw e') name = Some (Some r) \<and>
    (name \<in> le_not_list e' \<longrightarrow> length l \<le> 1)"
proof (cases "(nice, raw) = sync_record e name")
  case True
  then have "name \<in> le_not_list e \<Longrightarrow> length nice \<le> 1"
    using entry_okD(6) [OF assms(1), of name] by (metis fst_conv)
  with True assms(2-) show ?thesis by (auto simp: sync_attr_def dict_list_def Let_def)
next
  case False
  obtain r l where rl: "sync_lists conn name (sync_record e name) (nice, raw) = (r, l)" by (rule prod.exhaust)
  then show ?thesis
    using False assms(2-)
    by (cases r) (auto simp: sync_attr_def dict_list_def Let_def set_lists_def update_conv')
qed

lemma get_nice_error:
  assumes ok: "entry_ok e" and codec: "codec_errors conn" and a: "ci_lookup (le_names e) a = Some name"
    and x: "fst (get_nice conn (ANamed a) e) = Inl x"
  shows "value_or_type_error x"
proof -
  let ?e = "e\<lparr>le_nice := fill_None name (le_nice e)\<rparr>"
  obtain nice raw where nr: "map_of (le_nice e) name = Some nice" "map_of (le_raw e) name = Some raw"
    "nice \<noteq> None \<or> raw \<noteq> None" by (rule entry_keys [OF ok a])
  then obtain l where l: "map_of (le_nice ?e) name = Some (Some l)"
    by (cases nice) (auto simp: map_of_fill_None)
  have okf: "entry_ok ?e" using ok by (rule entry_ok_fill_nice)
  show ?thesis
  proof (cases raw)
    case None
    then have "name \<in> le_not_list e \<Longrightarrow> length l \<le> 1"
      using entry_okD(7) [OF okf, of name l] nr l by simp
    then show ?thesis using x a l nr None
      by (auto simp: get_nice_def act_defs get_attr_name_def attr_name_def ci_getitem_lookup
          dict_list_def sync_unless_None_def nice_value_def split: if_splits)
  next
    case (Some r)
    then have r: "map_of (le_raw ?e) name = Some (Some r)" using nr by simp
    obtain res e' where s: "sync_attr conn name ?e = (res, e')" by (rule prod.exhaust)
    show ?thesis
    proof (cases res)
      case (Inl y)
      then have "x = y" using x a l nr Some s
        by (simp add: get_nice_def act_defs get_attr_name_def attr_name_def ci_getitem_lookup
            dict_list_def sync_unless_None_def)
      then show ?thesis using sync_attr_error [OF codec l r, of y] s Inl by simp
    next
      case (Inr u)
      then show ?thesis using x a l nr Some s sync_attr_done [OF okf l r, of conn u e']
        by (auto simp: get_nice_def act_defs get_attr_name_def attr_name_def ci_getitem_lookup
            dict_list_def sync_unless_None_def nice_value_def split: if_splits)
    qed
  qed
qed

lemma get_raw_error:
  assumes ok: "entry_ok e" and codec: "codec_errors conn" and a: "ci_lookup (le_names e) a = Some name"
    and x: "fst (get_raw conn (ANamed a) e) = Inl x"
  shows "value_or_type_error x"
proof -
  let ?e = "e\<lparr>le_raw := fill_None name (le_raw e)\<rparr>"
  obtain nice raw where nr: "map_of (le_nice e) name = Some nice" "map_of (le_raw e) name = Some raw"
    "nice \<noteq> None \<or> raw \<noteq> None" by (rule entry_keys [OF ok a])
  then obtain r where r: "map_of (le_raw ?e) name = Some (Some r)"
    by (cases raw) (auto simp: map_of_fill_None)
  have okf: "entry_ok ?e" using ok by (rule entry_ok_fill_raw)
  show ?thesis
  proof (cases nice)
    case None
    then show ?thesis using x a r nr
      by (simp add: get_raw_def act_defs get_attr_name_def attr_name_def ci_getitem_lookup
          dict_list_def sync_unless_None_def)
  next
    case (Some l)
    then have l: "map_of (le_nice ?e) name = Some (Some l)" using nr by simp
    obtain res e' where s: "sync_attr conn name ?e = (res, e')" by (rule prod.exhaust)
    show ?thesis
      using x a r nr Some s sync_attr_done [OF okf l r, of conn _ e'] sync_attr_error [OF codec l r]
      by (cases res) (auto simp: get_raw_def act_defs get_attr_name_def attr_name_def ci_getitem_lookup
          dict_list_def sync_unless_None_def)
  qed
qed

section \<open>Properties\<close>

text \<open>
  C21: On every entry a program can reach, by any sequence of reads, assignments, deletions,
  resets and in-place changes of the lists it was handed, an attribute that is contained can be
  read and deleted: reading it through either view raises no \<open>KeyError\<close> and trips none of the
  assertions of the code (only a value that cannot be converted, or a list that was changed
  behind both views, is reported, as \<open>ValueError\<close> or \<open>TypeError\<close>), and deleting it succeeds and
  removes it under all its names. An attribute that is not contained raises \<open>KeyError\<close> from all
  three operations and leaves the entry unchanged.
\<close>

theorem reachable_entry_views:
  assumes "entry_reach conn e" and "codec_errors conn"
  shows "if entry_contains a e
    then (\<forall>x. fst (get_nice conn (ANamed a) e) = Inl x \<longrightarrow> value_or_type_error x) \<and>
      (\<forall>x. fst (get_raw conn (ANamed a) e) = Inl x \<longrightarrow> value_or_type_error x) \<and>
      (\<exists>e'. delitem (ANamed a) e = (Inr (), e') \<and> \<not> entry_contains a e')
    else get_nice conn (ANamed a) e = (Inl (KeyError (py_lower a)), e) \<and>
      get_raw conn (ANamed a) e = (Inl (KeyError (py_lower a)), e) \<and>
      delitem (ANamed a) e = (Inl (KeyError (py_lower a)), e)"
proof -
  have ok: "entry_ok e" using assms(1) by (rule reach_ok)
  show ?thesis
  proof (cases "ci_lookup (le_names e) a")
    case None
    then show ?thesis
      by (simp add: entry_contains_def ci_contains_lookup delitem_ok [OF ok] get_nice_def get_raw_def act_defs
          get_attr_name_def attr_name_def ci_getitem_lookup)
  next
    case (Some name)
    have "\<not> entry_contains a (entry_without name e)"
      using del_altnames_ok(2) [OF entry_okD(1) [OF ok], of name a] Some
      by (cases "ci_lookup (del_altnames name (le_names e)) a")
        (auto simp: entry_contains_def ci_contains_lookup entry_without_def)
    then show ?thesis
      using Some get_nice_error [OF ok assms(2) Some] get_raw_error [OF ok assms(2) Some]
      by (simp add: entry_contains_def ci_contains_lookup delitem_ok [OF ok])
  qed
qed

definition plain_conn :: "string ldap_conn" where
  "plain_conn =
     \<lparr>c_encode = Inr, c_decode = (\<lambda>_. Inr), c_altnames = (\<lambda>_. None), c_single_value = (\<lambda>_. None),
      c_iter_nice = sorted_list_of_set, c_iter_raw = sorted_list_of_set, c_iter_names = sorted_list_of_set\<rparr>"

theorem reachable_entry_views_witness:
  "entry_contains ''CN'' (snd (set_nice plain_conn False (ANamed ''cn'') (NScalar ''x'') (entry_empty []))) \<and>
   fst (delitem (ANamed ''CN'') (snd (set_nice plain_conn False (ANamed ''cn'') (NScalar ''x'') (entry_empty [])))) = Inr ()"
proof -
  let ?e = "snd (set_nice plain_conn False (ANamed ''cn'') (NScalar ''x'') (entry_empty []))"
  have c: "entry_contains ''CN'' ?e" by code_simp
  have "entry_reach plain_conn ?e" by (intro er_set_nice er_new)
  then show ?thesis
    using reachable_entry_views [of plain_conn ?e "''CN''"] c
    by (fastforce simp: codec_errors_def plain_conn_def)
qed

lemma plain_conn_ok: "codec_errors plain_conn" "iters_ok plain_conn"
  by (simp_all add: codec_errors_def iters_ok_def plain_conn_def set_iter_ok_sorted)

text \<open>
  C22: The raw view follows the nice view, for lists without repeated values and an encoding that
  tells the values apart. Take an attribute whose views were last synchronised at \<open>(ns, rs)\<close>, with
  \<open>rs\<close> the encodings of \<open>ns\<close>, or whose raw view has not been built yet. Let the caller have changed
  its nice list since to any list \<open>nice\<close> of distinct values that can be encoded, no two of the old
  and new values to the same bytes, and have left the raw list alone. Then reading the raw view
  returns exactly the encodings of the new values: the byte strings of values that stayed keep
  their order, those of removed values are gone, those of new values are appended in their order
  in the nice list; the nice list is unchanged and the attribute is synchronised again.
\<close>

theorem raw_follows_nice:
  assumes "iters_ok conn" and "ci_lookup (le_names e) a = Some name"
    and "map_of (le_nice e) name = Some (Some nice)"
    and "map_of (le_raw e) name = Some (Some rs) \<or> map_of (le_raw e) name = Some None \<and> rs = []"
    and "sync_record e name = (ns, rs)"
    and "distinct ns" "distinct nice" "distinct rs"
    and "\<forall>v \<in> set ns \<union> set nice. c_encode conn v = Inr (f v)"
    and "inj_on f (set ns \<union> set nice)" and "set rs = f ` set ns"
  shows "\<exists>raw e'. get_raw conn (ANamed a) e = (Inr raw, e') \<and> raw = carried f ns nice rs \<and>
    set raw = f ` set nice \<and> distinct raw \<and> attr_state e' a name nice raw \<and>
    sync_record e' name = (nice, raw)"
proof -
  let ?e = "e\<lparr>le_raw := fill_None name (le_raw e)\<rparr>" and ?raw = "carried f ns nice rs"
  note sl = sync_lists_nice_changed [OF assms(1,6,7,8,9,10,11), of name]
  have raw: "map_of (fill_None name (le_raw e)) name = Some (Some rs)"
    using assms(4) by (auto simp: fill_None_def update_conv')
  have "\<exists>e'. sync_unless_None le_nice conn name ?e = (Inr (), e') \<and>
      attr_state e' a name nice ?raw \<and> sync_record e' name = (nice, ?raw)"
  proof (cases "nice = ns")
    case True
    then show ?thesis
      using raw assms(2,3,5)
      by (simp add: sync_attr_simps attr_state_def sync_record_def update_conv')
  next
    case False
    then show ?thesis
      using raw assms(2,3,5) sl
      by (simp add: sync_attr_simps attr_state_def sync_record_def update_conv' set_lists_def)
  qed
  then obtain e' where "sync_unless_None le_nice conn name ?e = (Inr (), e')"
    "attr_state e' a name nice ?raw" "sync_record e' name = (nice, ?raw)" by blast
  then have "get_raw conn (ANamed a) e = (Inr ?raw, e')"
    using raw assms(2)
    by (simp add: get_raw_def act_defs get_attr_name_def attr_name_def ci_getitem_lookup dict_list_def attr_state_def)
  then show ?thesis
    using \<open>attr_state e' a name nice ?raw\<close> \<open>sync_record e' name = (nice, ?raw)\<close>
      carried_set [OF assms(10,11)] carried_distinct [OF assms(10,11,8,7)] by blast
qed

theorem raw_follows_nice_witness:
  "\<exists>e'. get_raw plain_conn (ANamed ''cn'')
      \<lparr>le_dn = [], le_names = ci_set ''cn'' ''cn'' CIDict_empty, le_nice = [(''cn'', Some [''c'', ''a''])],
       le_raw = [(''cn'', Some [''a'', ''b''])], le_sync = [(''cn'', [''a'', ''b''], [''a'', ''b''])],
       le_not_list = {}, le_orig_raw = []\<rparr> = (Inr [''a'', ''c''], e')"
proof -
  let ?e = "\<lparr>le_dn = [], le_names = ci_set ''cn'' ''cn'' CIDict_empty, le_nice = [(''cn'', Some [''c'', ''a''])],
       le_raw = [(''cn'', Some [''a'', ''b''])], le_sync = [(''cn'', [''a'', ''b''], [''a'', ''b''])],
       le_not_list = {}, le_orig_raw = []\<rparr>"
  have "ci_lookup (le_names ?e) ''cn'' = Some ''cn''" by code_simp
  then show ?thesis
    using raw_follows_nice [of plain_conn ?e "''cn''" "''cn''" "[''c'', ''a'']" "[''a'', ''b'']" "[''a'', ''b'']" id]
    by (simp add: plain_conn_ok sync_record_def) (auto simp: plain_conn_def carried_def)
qed

fun nice_result_list :: "'v nice_result \<Rightarrow> 'v list" where
  "nice_result_list GNone = []"
| "nice_result_list (GScalar x) = [x]"
| "nice_result_list (GList l) = l"

text \<open>
  The nice view follows the raw view. On a reachable entry, take an attribute whose views
  were last synchronised at \<open>(ns, rs)\<close>, or whose nice view has not been built yet, and whose raw
  list the caller has since changed in any way to \<open>raw\<close>. Then reading the nice view returns
  exactly the decodings of the new byte strings, in the same order discipline, as a list, or as a
  plain value or \<open>None\<close> for an attribute that was assigned a plain value and still has at most one.
\<close>

theorem nice_follows_raw:
  assumes "entry_reach conn e" and "iters_ok conn" and "ci_lookup (le_names e) a = Some name"
    and "map_of (le_raw e) name = Some (Some raw)"
    and "map_of (le_nice e) name = Some (Some ns) \<or> map_of (le_nice e) name = Some None \<and> ns = []"
    and "sync_record e name = (ns, rs)"
    and "distinct ns" "distinct raw" "distinct rs"
    and "\<forall>b \<in> set rs \<union> set raw. c_decode conn name b = Inr (g b)"
    and "inj_on g (set rs \<union> set raw)" and "set ns = g ` set rs"
  shows "\<exists>v nice e'. get_nice conn (ANamed a) e = (Inr v, e') \<and> nice_result_list v = nice \<and>
    nice = carried g rs raw ns \<and> set nice = g ` set raw \<and> distinct nice \<and>
    attr_state e' a name nice raw \<and> sync_record e' name = (nice, raw)"
proof -
  let ?e = "e\<lparr>le_nice := fill_None name (le_nice e)\<rparr>" and ?nice = "carried g rs raw ns"
  have okf: "entry_ok ?e" using assms(1) by (intro entry_ok_fill_nice reach_ok)
  note sl = sync_lists_raw_changed [OF assms(2,7,8,9,10,11,12)]
  have nice: "map_of (le_nice ?e) name = Some (Some ns)"
    using assms(5) by (auto simp: map_of_fill_None)
  have raw: "map_of (le_raw ?e) name = Some (Some raw)" using assms(4) by simp
  have "\<exists>e'. sync_attr conn name ?e = (Inr (), e') \<and>
      attr_state e' a name ?nice raw \<and> sync_record e' name = (?nice, raw)"
  proof (cases "raw = rs")
    case True
    then show ?thesis
      using nice assms(3,4,6)
      by (simp add: sync_attr_simps attr_state_def sync_record_def update_conv')
  next
    case False
    then show ?thesis
      using nice assms(3,4,6) sl
      by (simp add: sync_attr_simps attr_state_def sync_record_def update_conv' set_lists_def)
  qed
  then obtain e' where e': "sync_attr conn name ?e = (Inr (), e')"
    "attr_state e' a name ?nice raw" "sync_record e' name = (?nice, raw)" by blast
  have len: "name \<in> le_not_list e' \<Longrightarrow> length ?nice \<le> 1"
    using sync_attr_done [OF okf nice raw e'(1)] e'(2) by (auto simp: attr_state_def)
  have "get_nice conn (ANamed a) e = (nice_value name e', e')"
    using e' nice assms(3,4)
    by (simp add: get_nice_def act_defs get_attr_name_def attr_name_def ci_getitem_lookup
        dict_list_def sync_unless_None_def)
  moreover obtain v where "nice_value name e' = Inr v" "nice_result_list v = ?nice"
  proof
    let ?v = "if name \<in> le_not_list e' then (case ?nice of [] \<Rightarrow> GNone | x # _ \<Rightarrow> GScalar x) else GList ?nice"
    show "nice_value name e' = Inr ?v"
      using len e'(2) by (simp add: nice_value_def dict_list_def attr_state_def)
    show "nice_result_list ?v = ?nice" using len by (auto split: list.split)
  qed
  ultimately show ?thesis
    using e' carried_set [OF assms(11,12)] carried_distinct [OF assms(11,12,7,8)] by auto
qed

theorem nice_follows_raw_witness:
  "fst (get_nice plain_conn (ANamed ''cn'')
      (snd (set_raw plain_conn False (ANamed ''cn'') (RList [RBytes ''a'', RBytes ''b'']) (entry_empty []))))
    = Inr (GList [''a'', ''b''])"
proof -
  let ?e = "snd (set_raw plain_conn False (ANamed ''cn'') (RList [RBytes ''a'', RBytes ''b'']) (entry_empty [])) :: string ldap_entry"
  have r: "entry_reach plain_conn ?e" by (intro er_set_raw er_new)
  have n: "ci_lookup (le_names ?e) ''cn'' = Some ''cn''" "map_of (le_raw ?e) ''cn'' = Some (Some [''a'', ''b''])"
    "map_of (le_nice ?e) ''cn'' = Some None" "sync_record ?e ''cn'' = ([], [])"
    by code_simp+
  have nl: "''cn'' \<notin> le_not_list ?e" by code_simp
  obtain v e' where "get_nice plain_conn (ANamed ''cn'') ?e = (Inr v, e')" "nice_result_list v = [''a'', ''b'']"
    using nice_follows_raw [OF r plain_conn_ok(2) n(1,2) _ n(4), of id] n(3)
    by (auto simp: plain_conn_def carried_def)
  then show ?thesis by (cases v) auto
qed

end
