(* ===== verification/LDAP_Modlist.thy ===== *)
theory LDAP_Modlist
  imports LDAP_Entry
begin

text \<open>
  What the modification list of \<open>LDAPEntry.generate_modlist\<close> (\<^verbatim>\<open>src/ipapython/ipaldap.py\<close>) does
  to the entry on the server. The server side is the modify operation of LDAP (RFC 4511, section
  4.6) on sets of values: adding a value that exists and deleting one that does not are errors.

  The names of one attribute form a class of the schema; on reachable entries each class is
  stored under one name (\<open>names_inv\<close>), which is what makes the list correct.
\<close>

section \<open>The modify operation\<close>

fun apply_vals :: "modop \<times> bytes list option \<Rightarrow> bytes set \<Rightarrow> bytes set option" where
  "apply_vals (MOD_ADD, vs) s =
     (let v = (case vs of None \<Rightarrow> {} | Some l \<Rightarrow> set l) in if v \<inter> s = {} then Some (s \<union> v) else None)"
| "apply_vals (MOD_DELETE, None) s = (if s = {} then None else Some {})"
| "apply_vals (MOD_DELETE, Some l) s = (if set l \<subseteq> s then Some (s - set l) else None)"
| "apply_vals (MOD_REPLACE, vs) s = Some (case vs of None \<Rightarrow> {} | Some l \<Rightarrow> set l)"

fun apply_mods :: "ldap_mod list \<Rightarrow> (string \<Rightarrow> bytes set) \<Rightarrow> (string \<Rightarrow> bytes set) option" where
  "apply_mods [] srv = Some srv"
| "apply_mods ((op, n, vs) # ml) srv =
     (case apply_vals (op, vs) (srv n) of None \<Rightarrow> None | Some s \<Rightarrow> apply_mods ml (srv(n := s)))"

text \<open>Attributes are independent: a list acts on each attribute by its own part.\<close>

fun apply_attr :: "ldap_mod list \<Rightarrow> bytes set \<Rightarrow> bytes set option" where
  "apply_attr [] s = Some s"
| "apply_attr ((op, n, vs) # ml) s =
     (case apply_vals (op, vs) s of None \<Rightarrow> None | Some s' \<Rightarrow> apply_attr ml s')"

definition mods_of :: "string \<Rightarrow> ldap_mod list \<Rightarrow> ldap_mod list" where
  "mods_of n = filter (\<lambda>(_, m, _). m = n)"

lemma mods_of_simps [simp]:
  "mods_of n [] = []"
  "mods_of n ((op, m, vs) # ml) = (if m = n then (op, m, vs) # mods_of n ml else mods_of n ml)"
  "mods_of n (ml @ ml') = mods_of n ml @ mods_of n ml'"
  by (simp_all add: mods_of_def)

lemma apply_mods_split:
  "(\<And>n. apply_attr (mods_of n ml) (srv n) = Some (srv' n)) \<Longrightarrow> apply_mods ml srv = Some srv'"
proof (induction ml arbitrary: srv)
  case (Cons x ml)
  obtain op m vs where x: "x = (op, m, vs)" by (rule prod_cases3)
  obtain s where s: "apply_vals (op, vs) (srv m) = Some s"
    using Cons.prems [of m] by (auto simp: x split: option.splits)
  have "apply_mods ml (srv(m := s)) = Some srv'"
  proof (rule Cons.IH)
    fix n show "apply_attr (mods_of n ml) ((srv(m := s)) n) = Some (srv' n)"
      using Cons.prems [of n] s by (auto simp: x split: if_splits)
  qed
  with s x show ?case by simp
qed (auto simp: fun_eq_iff)

lemma mods_of_sort:
  assumes "\<And>x y. f x = (h (fst (snd x)) :: bool)"
  shows "mods_of n (sort_key f ml) = mods_of n ml"
proof -
  have *: "mods_of n xs = filter (\<lambda>(_, m, _). m = n) (filter (\<lambda>x. f x = h n) xs)" for xs
    unfolding mods_of_def filter_filter by (rule filter_cong) (auto simp: assms)
  show ?thesis unfolding * [of "sort_key f ml"] * [of ml] by (simp add: sort_key_stable)
qed

lemma apply_dels_adds:
  fixes n :: string
  defines "adds new old \<equiv> filter (\<lambda>x. x \<notin> set old) new"
  shows "apply_attr ((if adds old new \<noteq> [] then [(MOD_DELETE, n, Some (adds old new))] else []) @
    (if adds new old \<noteq> [] then [(MOD_ADD, n, Some (adds new old))] else [])) (set old) = Some (set new)"
proof -
  let ?add = "if adds new old \<noteq> [] then [(MOD_ADD, n, Some (adds new old))] else []"
  have 1: "set (adds new old) = set new - set old" "set (adds old new) = set old - set new"
    by (auto simp: adds_def)
  have 2: "(set new - set old) \<inter> (set old \<inter> set new) = {}" "set old \<inter> set new \<union> (set new - set old) = set new"
    by auto
  have add: "apply_attr ?add (set old \<inter> set new) = Some (set new)"
  proof (cases "adds new old = []")
    case True
    then have "set new - set old = {}" using 1 by (metis list.set(1))
    then show ?thesis using True by auto
  next
    case False
    have "apply_vals (MOD_ADD, Some (adds new old)) (set old \<inter> set new) = Some (set new)"
      unfolding apply_vals.simps Let_def option.case 1 using 2 by simp
    then show ?thesis using False by simp
  qed
  show ?thesis
  proof (cases "adds old new = []")
    case True
    then have "set old - set new = {}" using 1 by (metis list.set(1))
    then have "set old \<inter> set new = set old" by auto
    with True add show ?thesis by simp
  next
    case False
    have "set old - (set old - set new) = set old \<inter> set new" by auto
    then have "apply_vals (MOD_DELETE, Some (adds old new)) (set old) = Some (set old \<inter> set new)"
      unfolding apply_vals.simps 1 by simp
    with False add show ?thesis by simp
  qed
qed

lemma attr_mods_names:
  "attr_mods conn n new old = Inr ms \<Longrightarrow> mods_of m ms = (if m = n then ms else [])"
  by (auto simp: attr_mods_def Let_def split: if_splits)

lemma attr_mods_correct:
  assumes "attr_mods conn n new old = Inr ms" and "c_single_value conn n = Some True \<Longrightarrow> length new \<le> 1"
  shows "apply_attr ms (set old) = Some (set new)"
proof -
  consider "old \<noteq> []" "new = []" | "old = []" "new \<noteq> []" | "old = []" "new = []" | "old \<noteq> []" "new \<noteq> []"
    by blast
  then show ?thesis
  proof cases
    case 4
    let ?adds = "filter (\<lambda>x. x \<notin> set old) new"
    show ?thesis
    proof (cases "?adds \<noteq> [] \<and> c_single_value conn n = Some True")
      case True
      with assms(2) 4 obtain x where "new = [x]" by (cases new) auto
      then show ?thesis using assms(1) 4 True by (auto simp: attr_mods_def split: if_splits)
    next
      case False
      then have "ms = (if filter (\<lambda>x. x \<notin> set new) old \<noteq> []
            then [(MOD_DELETE, n, Some (filter (\<lambda>x. x \<notin> set new) old))] else []) @
          (if ?adds \<noteq> [] then [(MOD_ADD, n, Some ?adds)] else [])"
        using assms(1) 4 by (simp only: attr_mods_def Let_def if_False if_True simp_thms sum.inject)
      then show ?thesis using apply_dels_adds [of new old n] by simp
    qed
  qed (use assms(1) in \<open>auto simp: attr_mods_def\<close>)
qed

section \<open>What reading the raw view leaves alone\<close>

definition entry_frame :: "string set \<Rightarrow> 'v ldap_entry \<Rightarrow> 'v ldap_entry \<Rightarrow> bool" where
  "entry_frame K e e' \<longleftrightarrow>
     le_names e' = le_names e \<and> le_orig_raw e' = le_orig_raw e \<and> map fst (le_nice e') = map fst (le_nice e) \<and>
     (\<forall>k. k \<notin> K \<longrightarrow> map_of (le_raw e') k = map_of (le_raw e) k \<and> map_of (le_nice e') k = map_of (le_nice e) k \<and>
        sync_record e' k = sync_record e k)"

interpretation frame: act_relation "entry_frame K" for K
  by unfold_locales (auto simp: entry_frame_def)

lemma sync_record_fields [simp]:
  "sync_record (e\<lparr>le_raw := x\<rparr>) = sync_record e" "sync_record (e\<lparr>le_nice := y\<rparr>) = sync_record e"
  "sync_record (e\<lparr>le_not_list := z\<rparr>) = sync_record e" "sync_record (e\<lparr>le_orig_raw := w\<rparr>) = sync_record e"
  "sync_record (e\<lparr>le_sync := AList.update name s (le_sync e')\<rparr>) k = (if k = name then s else sync_record e' k)"
  by (auto simp: sync_record_def update_conv' fun_eq_iff)

lemma frame_sync_attr: "frame.keeps {name} (sync_attr conn name)"
proof (rule frame.keepsI)
  fix e show "entry_frame {name} e (snd (sync_attr conn name e))"
  proof (cases "\<exists>nice raw. map_of (le_nice e) name = Some (Some nice) \<and> map_of (le_raw e) name = Some (Some raw)")
    case True
    then obtain nice raw where nr: "map_of (le_nice e) name = Some (Some nice)" "map_of (le_raw e) name = Some (Some raw)"
      by blast
    obtain r l where rl: "sync_lists conn name (sync_record e name) (nice, raw) = (r, l)" by (rule prod.exhaust)
    show ?thesis
      using nr rl by (cases r) (auto simp: sync_attr_def dict_list_def Let_def entry_frame_def set_lists_def
          update_conv' update_existing_keys)
  next
    case False
    then show ?thesis by (auto simp: sync_attr_def dict_list_def entry_frame_def split: option.split sum.split)
  qed
qed

lemma frame_sync_unless_None: "frame.keeps {name} (sync_unless_None view conn name)"
  using frame_sync_attr [of name conn]
  by (auto simp: frame.keeps_def sync_unless_None_def split: option.split)

lemma frame_get_raw:
  assumes "get_raw conn (ANamed a) e = (r, e')" and "ci_lookup (le_names e) a = Some name"
  shows "entry_frame {name} e e'" and "r = Inr l \<Longrightarrow> map_of (le_raw e') name = Some (Some l)"
proof -
  let ?rest = "act_bind (\<lambda>e. (Inr (), e\<lparr>le_raw := fill_None name (le_raw e)\<rparr>)) (\<lambda>_.
     act_bind (act_read (\<lambda>e. dict_list (le_raw e) name)) (\<lambda>_.
     act_bind (sync_unless_None le_nice conn name) (\<lambda>_.
     act_read (\<lambda>e. dict_list (le_raw e) name))))"
  have *: "?rest e = (r, e')"
    using assms by (simp add: get_raw_def act_defs get_attr_name_def attr_name_def ci_getitem_lookup)
  have "frame.keeps {name} ?rest"
    by (intro frame.keeps_intros frame_sync_unless_None)
      (auto simp: frame.keeps_def entry_frame_def map_of_fill_None)
  then show "entry_frame {name} e e'" using * by (rule frame.keepsD)
  assume r: "r = Inr l"
  have "dict_list (le_raw e') name = Inr l"
    using * unfolding r by (elim act_bind_InrE) (simp add: act_read_def)
  then show "map_of (le_raw e') name = Some (Some l)"
    by (auto simp: dict_list_def split: option.splits)
qed

section \<open>The loop\<close>

definition raw_of :: "'v ldap_entry \<Rightarrow> string \<Rightarrow> bytes list" where
  "raw_of e n = (case map_of (le_raw e) n of Some (Some l) \<Rightarrow> l | _ \<Rightarrow> [])"

definition orig_of :: "'v ldap_entry \<Rightarrow> string \<Rightarrow> bytes list" where
  "orig_of e n = (case map_of (le_orig_raw e) n of Some l \<Rightarrow> l | None \<Rightarrow> [])"

abbreviation keys_named :: "'v ldap_entry \<Rightarrow> bool" where
  "keys_named e \<equiv> \<forall>n \<in> fst ` set (le_nice e). ci_lookup (le_names e) n = Some n"

lemma raw_get_result:
  assumes ok: "entry_ok e" and codec: "codec_errors conn" and named: "keys_named e"
    and n: "ci_lookup (le_names e) n \<in> {None, Some n}" and r: "raw_get conn n e = (Inr new, e')"
  shows "entry_frame {n} e e' \<and> new = raw_of e' n"
proof (cases "ci_lookup (le_names e) n")
  case None
  then have "n \<notin> fst ` set (le_raw e)" using named entry_okD(2) [OF ok] by (metis option.distinct(1) set_map)
  then have "map_of (le_raw e) n = None" by (simp add: map_of_eq_None_iff)
  moreover have "new = [] \<and> e' = e"
    using None r by (simp add: raw_get_def get_raw_def act_defs get_attr_name_def attr_name_def ci_getitem_lookup)
  ultimately show ?thesis by (simp add: raw_of_def)
next
  case (Some m)
  with n have m: "ci_lookup (le_names e) n = Some n" by simp
  obtain res e1 where g: "get_raw conn (ANamed n) e = (res, e1)" by (rule prod.exhaust)
  show ?thesis
  proof (cases res)
    case (Inl x)
    then have "value_or_type_error x" using get_raw_error [OF ok codec m, of x] g by simp
    then show ?thesis using r g Inl by (cases x) (auto simp: raw_get_def)
  next
    case (Inr l)
    then show ?thesis using frame_get_raw(1) [OF g m] frame_get_raw(2) [OF g m, of l] r g by (simp add: raw_get_def raw_of_def)
  qed
qed

lemma raw_get_error:
  assumes ok: "entry_ok e" and codec: "codec_errors conn" and x: "fst (raw_get conn n e) = Inl x"
  shows "value_or_type_error x"
proof -
  obtain r e' where g: "get_raw conn (ANamed n) e = (r, e')" by (rule prod.exhaust)
  show ?thesis
  proof (cases "ci_lookup (le_names e) n")
    case None
    then have "fst (raw_get conn n e) = Inr []"
      by (simp add: raw_get_def get_raw_def act_defs get_attr_name_def attr_name_def ci_getitem_lookup)
    with x show ?thesis by simp
  next
    case (Some m)
    have "r = Inl x" using x g by (auto simp: raw_get_def split: sum.splits pyexc.splits)
    then show ?thesis using get_raw_error [OF ok codec Some, of x] g by simp
  qed
qed

lemma attr_mods_error:
  assumes "attr_mods conn n new old = Inl x"
  shows "x = PublicError ''OnlyOneValueAllowed'' n \<and> c_single_value conn n = Some True \<and> 1 < length new"
proof -
  have "1 < length (filter (\<lambda>x. x \<notin> set old) new) \<Longrightarrow> 1 < length new"
    using length_filter_le [of "\<lambda>x. x \<notin> set old" new] by linarith
  then show ?thesis using assms by (auto simp: attr_mods_def Let_def split: if_splits)
qed

lemma frame_named:
  assumes "entry_frame K e e'"
  shows "keys_named e' \<longleftrightarrow> keys_named e" "le_names e' = le_names e" "orig_of e' = orig_of e"
    "n \<notin> K \<Longrightarrow> raw_of e' n = raw_of e n"
  using assms by (auto simp: entry_frame_def orig_of_def raw_of_def fun_eq_iff simp flip: set_map)

lemma modlist_loop_result:
  assumes "entry_ok e" "codec_errors conn" "keys_named e" "distinct ns"
    and "\<forall>n \<in> set ns. ci_lookup (le_names e) n \<in> {None, Some n}"
    and "modlist_loop conn ns e = (Inr ml, e')"
  shows "entry_frame (set ns) e e' \<and>
    (\<forall>n. if n \<in> set ns then attr_mods conn n (raw_of e' n) (orig_of e n) = Inr (mods_of n ml) else mods_of n ml = [])"
  using assms
proof (induction ns arbitrary: e ml)
  case Nil
  then show ?case by (simp add: act_defs)
next
  case (Cons n ns)
  obtain new e1 ms rest where g: "raw_get conn n e = (Inr new, e1)"
    and ms: "attr_mods conn n new (orig_of e1 n) = Inr ms"
    and loop: "modlist_loop conn ns e1 = (Inr rest, e')" and ml: "ml = ms @ rest"
    using Cons.prems(6)
    by (auto simp: act_read_def act_ret_def orig_of_def elim!: act_bind_InrE)
  have f: "entry_frame {n} e e1" "new = raw_of e1 n"
    using raw_get_result [OF Cons.prems(1-3) _ g] Cons.prems(5) by auto
  note f1 = frame_named [OF f(1)]
  have ok1: "entry_ok e1" using entry_inv.keepsD [OF keeps_raw_get g] Cons.prems(1) by simp
  have IH: "entry_frame (set ns) e1 e' \<and>
    (\<forall>n. if n \<in> set ns then attr_mods conn n (raw_of e' n) (orig_of e1 n) = Inr (mods_of n rest) else mods_of n rest = [])"
    using Cons.prems(3-5) f1 by (intro Cons.IH [OF ok1 Cons.prems(2) _ _ _ loop]) auto
  have "entry_frame (set (n # ns)) e e'"
    using f(1) IH by (auto simp: entry_frame_def)
  moreover have "raw_of e' n = new"
    using frame_named(4) [OF conjunct1 [OF IH], of n] Cons.prems(4) f(2) by simp
  moreover have "if m \<in> set (n # ns) then attr_mods conn m (raw_of e' m) (orig_of e m) = Inr (mods_of m ml)
      else mods_of m ml = []" if "raw_of e' n = new" for m
    using that ms Cons.prems(4) conjunct2 [OF IH, THEN spec, of m] attr_mods_names [OF ms, of m]
    by (cases "m = n") (simp_all add: ml f1(3) split: if_splits)
  ultimately show ?case by blast
qed

section \<open>One name per attribute\<close>

definition attr_class :: "'v ldap_conn \<Rightarrow> string \<Rightarrow> string set" where
  "attr_class conn a = (case c_altnames conn a of Some l \<Rightarrow> py_lower ` set l | None \<Rightarrow> {py_lower a})"

text \<open>
  The documented behaviour of the schema: the names of an attribute type include the name it was
  looked up by, and looking any of them up, in any case, gives the same attribute type. (Entries
  whose attributes are addressed by numeric object identifiers are outside this hypothesis.)
\<close>

definition schema_names_ok :: "'v ldap_conn \<Rightarrow> bool" where
  "schema_names_ok conn \<longleftrightarrow>
     (\<forall>a l. c_altnames conn a = Some l \<longrightarrow> py_lower a \<in> py_lower ` set l \<and>
        (\<forall>b. py_lower b \<in> py_lower ` set l \<longrightarrow> c_altnames conn b = Some l))"

lemma schema_namesD:
  assumes "schema_names_ok conn" "c_altnames conn a = Some l"
  shows "py_lower a \<in> py_lower ` set l" "py_lower b \<in> py_lower ` set l \<Longrightarrow> c_altnames conn b = Some l"
  using assms unfolding schema_names_ok_def by blast+

lemma attr_class_self: "schema_names_ok conn \<Longrightarrow> py_lower a \<in> attr_class conn a"
  by (cases "c_altnames conn a") (simp_all add: attr_class_def schema_namesD(1))

lemma attr_class_iff:
  assumes "schema_names_ok conn"
  shows "py_lower b \<in> attr_class conn a \<longleftrightarrow> attr_class conn b = attr_class conn a"
proof
  assume b: "py_lower b \<in> attr_class conn a"
  show "attr_class conn b = attr_class conn a"
  proof (cases "c_altnames conn a")
    case None
    then have "py_lower b = py_lower a" using b by (simp add: attr_class_def)
    moreover have "c_altnames conn b = None"
    proof (cases "c_altnames conn b")
      case (Some l)
      then have "c_altnames conn a = Some l"
        using schema_namesD [OF assms Some] \<open>py_lower b = py_lower a\<close> by simp
      with None show ?thesis by simp
    qed
    ultimately show ?thesis using None by (simp add: attr_class_def)
  next
    case (Some l)
    then have "py_lower b \<in> py_lower ` set l" using b by (simp add: attr_class_def)
    then have "c_altnames conn b = Some l"
      by (rule schema_namesD(2) [OF assms Some])
    with Some show ?thesis by (simp add: attr_class_def)
  qed
next
  assume "attr_class conn b = attr_class conn a"
  then show "py_lower b \<in> attr_class conn a" using attr_class_self [OF assms, of b] by simp
qed

definition names_inv :: "'v ldap_conn \<Rightarrow> string set \<Rightarrow> string cidict \<Rightarrow> string set \<Rightarrow> bool" where
  "names_inv conn K names orig \<longleftrightarrow>
     (\<forall>b n. ci_lookup names b = Some n \<longrightarrow> attr_class conn b = attr_class conn n) \<and>
     (\<forall>n \<in> K. \<forall>b. attr_class conn b = attr_class conn n \<longrightarrow> ci_lookup names b = Some n) \<and>
     (\<forall>o' \<in> orig. \<forall>n. ci_lookup names o' = Some n \<longrightarrow> o' = n) \<and>
     (\<forall>o1 \<in> orig. \<forall>o2 \<in> orig. attr_class conn o1 = attr_class conn o2 \<longrightarrow> o1 = o2)"

lemma names_invI:
  assumes "\<And>b n. ci_lookup names b = Some n \<Longrightarrow> attr_class conn b = attr_class conn n"
    and "\<And>n b. n \<in> K \<Longrightarrow> attr_class conn b = attr_class conn n \<Longrightarrow> ci_lookup names b = Some n"
    and "\<And>o' n. o' \<in> orig \<Longrightarrow> ci_lookup names o' = Some n \<Longrightarrow> o' = n"
    and "\<And>o1 o2. o1 \<in> orig \<Longrightarrow> o2 \<in> orig \<Longrightarrow> attr_class conn o1 = attr_class conn o2 \<Longrightarrow> o1 = o2"
  shows "names_inv conn K names orig"
  using assms unfolding names_inv_def by blast

lemma names_invD:
  assumes "names_inv conn K names orig"
  shows "ci_lookup names b = Some n \<Longrightarrow> attr_class conn b = attr_class conn n"
    and "n \<in> K \<Longrightarrow> attr_class conn b = attr_class conn n \<Longrightarrow> ci_lookup names b = Some n"
    and "o' \<in> orig \<Longrightarrow> ci_lookup names o' = Some n \<Longrightarrow> o' = n"
    and "o1 \<in> orig \<Longrightarrow> o2 \<in> orig \<Longrightarrow> attr_class conn o1 = attr_class conn o2 \<Longrightarrow> o1 = o2"
  using assms unfolding names_inv_def by blast+

lemma lookup_set_altnames_exact:
  "ci_ok d \<Longrightarrow> ci_lookup (set_altnames name alts d) k =
     (if py_lower k \<in> py_lower ` set alts then Some name else ci_lookup d k)"
  unfolding set_altnames_def
  by (induction alts arbitrary: d) (auto simp: ci_ok_set cid.lookup_update)

lemma lookup_new_names:
  assumes "schema_names_ok conn" "ci_ok names"
  shows "ci_lookup (ci_set name name (set_altnames name (case c_altnames conn name of None \<Rightarrow> [] | Some l \<Rightarrow> l) names)) k =
    (if attr_class conn k = attr_class conn name then Some name else ci_lookup names k)"
proof -
  have "py_lower k = py_lower name \<or> py_lower k \<in> py_lower ` set (case c_altnames conn name of None \<Rightarrow> [] | Some l \<Rightarrow> l)
      \<longleftrightarrow> py_lower k \<in> attr_class conn name"
    using attr_class_self [OF assms(1), of name] by (auto simp: attr_class_def split: option.split)
  then show ?thesis
    using assms(2) by (auto simp: cid.lookup_update lookup_set_altnames_exact ci_ok_set_altnames
        attr_class_iff [OF assms(1)])
qed

lemma rename_orig_keys:
  fixes orig :: "(string \<times> bytes list) list"
  shows "(\<forall>o' \<in> fst ` set orig. ci_lookup names o' \<noteq> Some name) \<and> rename_orig names name orig = orig \<or>
    (\<exists>old \<in> fst ` set orig. ci_lookup names old = Some name \<and>
      fst ` set (rename_orig names name orig) = insert name (fst ` set orig - {old}))"
proof (cases "find (\<lambda>(oldname, _). ci_get oldname None names = Some name) orig")
  case None
  then have "\<forall>o' \<in> fst ` set orig. ci_lookup names o' \<noteq> Some name"
    by (auto simp: find_None_iff ci_get_def ci_getitem_lookup split: option.splits)
  with None show ?thesis by (simp add: rename_orig_def)
next
  case (Some x)
  then obtain i where "i < length orig" "orig ! i = x" "ci_get (fst x) None names = Some name"
    by (auto simp: find_Some_iff case_prod_beta)
  then have "x \<in> set orig" "ci_lookup names (fst x) = Some name"
    by (auto simp: ci_get_def ci_getitem_lookup split: option.splits)
  moreover have "fst ` set (rename_orig names name orig) = insert name (fst ` set orig - {fst x})"
  proof -
    have "rename_orig names name orig = AList.update name (snd x) (AList.delete (fst x) orig)"
      using Some by (simp add: rename_orig_def case_prod_beta)
    moreover have "fst ` set (AList.delete (fst x) orig) = fst ` set orig - {fst x}"
      using arg_cong [OF delete_keys [of "fst x" orig], of set] by simp
    ultimately show ?thesis by (simp add: keys_image)
  qed
  ultimately show ?thesis by blast
qed

lemma names_inv_add:
  fixes orig :: "(string \<times> bytes list) list"
  assumes sch: "schema_names_ok conn" and inv: "names_inv conn K names (fst ` set orig)" and ok: "ci_ok names"
    and new: "ci_lookup names name = None"
  defines "names' \<equiv> ci_set name name (set_altnames name (case c_altnames conn name of None \<Rightarrow> [] | Some l \<Rightarrow> l) names)"
  shows "names_inv conn (insert name K) names' (fst ` set (rename_orig names' name orig))"
proof -
  note D = names_invD [OF inv]
  have look: "ci_lookup names' k = (if attr_class conn k = attr_class conn name then Some name else ci_lookup names k)" for k
    unfolding names'_def by (rule lookup_new_names [OF sch ok])
  have fresh: "attr_class conn m \<noteq> attr_class conn name" if "m \<in> K" for m
    using D(2) [OF that, of name] new by auto
  have L1: "ci_lookup names' b = Some n \<Longrightarrow> attr_class conn b = attr_class conn n" for b n
    using D(1) [of b n] by (auto simp: look split: if_splits)
  have L2: "n \<in> insert name K \<Longrightarrow> attr_class conn b = attr_class conn n \<Longrightarrow> ci_lookup names' b = Some n" for n b
    using D(2) [of n b] fresh [of n] by (auto simp: look)
  consider "\<forall>o' \<in> fst ` set orig. ci_lookup names' o' \<noteq> Some name" "rename_orig names' name orig = orig"
    | old where "old \<in> fst ` set orig" "ci_lookup names' old = Some name"
      "fst ` set (rename_orig names' name orig) = insert name (fst ` set orig - {old})"
    using rename_orig_keys [of orig names' name] by blast
  then show ?thesis
  proof cases
    case 1
    show ?thesis
    proof (rule names_invI [OF L1 L2])
      fix o' n assume *: "o' \<in> fst ` set (rename_orig names' name orig)" "ci_lookup names' o' = Some n"
      then have "n \<noteq> name" using 1 by auto
      then show "o' = n" using * 1(2) D(3) [of o' n] by (simp add: look split: if_splits)
    qed (use 1(2) D(4) in simp_all)
  next
    case (2 old)
    have old: "attr_class conn old = attr_class conn name" using L1 2(2) by blast
    then have only: "o' \<in> fst ` set orig - {old} \<Longrightarrow> attr_class conn o' \<noteq> attr_class conn name" for o'
      using D(4) [of o' old] 2(1) by auto
    show ?thesis
    proof (rule names_invI [OF L1 L2])
      fix o' n assume "o' \<in> fst ` set (rename_orig names' name orig)" "ci_lookup names' o' = Some n"
      then show "o' = n" using 2(3) D(3) [of o' n] only [of o'] by (auto simp: look split: if_splits)
    next
      fix o1 o2 assume "o1 \<in> fst ` set (rename_orig names' name orig)" "o2 \<in> fst ` set (rename_orig names' name orig)"
        "attr_class conn o1 = attr_class conn o2"
      then show "o1 = o2" using 2(3) D(4) [of o1 o2] only [of o1] only [of o2] by auto
    qed
  qed
qed

lemma lookup_del_altnames:
  assumes "ci_ok d"
  shows "ci_lookup (del_altnames name d) k = (if ci_lookup d k = Some name then None else ci_lookup d k)"
proof -
  have "(\<exists>alt. (alt, name) \<in> set (zip (map snd (ci_keys d)) (map snd (ci_dict d))) \<and> py_lower alt = py_lower k)
      \<longleftrightarrow> ci_lookup d k = Some name"
  proof
    assume "\<exists>alt. (alt, name) \<in> set (zip (map snd (ci_keys d)) (map snd (ci_dict d))) \<and> py_lower alt = py_lower k"
    then obtain alt where alt: "ci_lookup d alt = Some name" "py_lower alt = py_lower k"
      using item_lookup [OF assms] by blast
    from cid.lookup_cong [OF alt(2), of d] alt(1) show "ci_lookup d k = Some name" by simp
  qed (rule lookup_item [OF assms])
  with del_fold [OF assms, of name "zip (map snd (ci_keys d)) (map snd (ci_dict d))" k]
  show ?thesis by (simp only: del_altnames_def)
qed

lemma names_inv_del:
  assumes "names_inv conn K names orig" "ci_ok names"
  shows "names_inv conn (K - {name}) (del_altnames name names) orig"
proof -
  note D = names_invD [OF assms(1)] and look = lookup_del_altnames [OF assms(2), of name]
  have sub: "ci_lookup (del_altnames name names) b = Some n \<Longrightarrow> ci_lookup names b = Some n" for b n
    by (simp add: look split: if_splits)
  show ?thesis
  proof (rule names_invI)
    fix n b assume "n \<in> K - {name}" "attr_class conn b = attr_class conn n"
    then show "ci_lookup (del_altnames name names) b = Some n" using D(2) [of n b] by (simp add: look)
  qed (use D(1,3,4) sub in blast)+
qed

abbreviation entry_names_inv :: "'v ldap_conn \<Rightarrow> 'v ldap_entry \<Rightarrow> bool" where
  "entry_names_inv conn e \<equiv> names_inv conn (fst ` set (le_nice e)) (le_names e) (fst ` set (le_orig_raw e))"

lemma frame_names_inv: "entry_frame K e e' \<Longrightarrow> entry_names_inv conn e' = entry_names_inv conn e"
  unfolding entry_frame_def by (metis set_map)

lemma frame_mono: "entry_frame K e e' \<Longrightarrow> entry_frame UNIV e e'"
  by (simp add: entry_frame_def)

lemma frame_UNIV: "frame.keeps K m \<Longrightarrow> frame.keeps UNIV m"
  unfolding frame.keeps_def using frame_mono by blast

lemma frame_UNIV_views:
  "frame.keeps UNIV (get_nice conn a)" "frame.keeps UNIV (get_raw conn a)"
  unfolding get_nice_def get_raw_def get_attr_name_def
  by (intro frame.keeps_intros frame_UNIV [OF frame_sync_unless_None];
      simp add: frame.keeps_def entry_frame_def)+

lemma frame_UNIV_items: "frame.keeps UNIV (raw_view_items conn ns)"
  by (induction ns) (auto intro!: frame.keeps_intros frame_UNIV_views)

lemma frame_UNIV_raw_get: "frame.keeps UNIV (raw_get conn n)"
  using frame_UNIV_views(2) [of conn "ANamed n"] unfolding frame.keeps_def raw_get_def
  by (auto split: prod.splits sum.splits pyexc.splits) (metis snd_conv)+

lemma frame_UNIV_modlist: "frame.keeps UNIV (generate_modlist conn)"
proof -
  have "frame.keeps UNIV (modlist_loop conn ns)" for ns
    by (induction ns) (auto intro!: frame.keeps_intros frame_UNIV_raw_get)
  then show ?thesis unfolding generate_modlist_def by (intro frame.keeps_intros)
qed

lemma names_inv_add_attr_name:
  assumes sch: "schema_names_ok conn" and ok: "entry_ok e" and inv: "entry_names_inv conn e"
    and add: "add_attr_name conn n e = (Inr m, e')"
  shows "names_inv conn (insert m (fst ` set (le_nice e))) (le_names e') (fst ` set (le_orig_raw e'))"
    "le_nice e' = le_nice e" "le_raw e' = le_raw e"
proof -
  have "names_inv conn (insert m (fst ` set (le_nice e))) (le_names e') (fst ` set (le_orig_raw e')) \<and>
    le_nice e' = le_nice e \<and> le_raw e' = le_raw e"
  proof (cases "ci_lookup (le_names e) n")
    case None
    then show ?thesis
      using add names_inv_add [OF sch inv entry_okD(1) [OF ok] None]
      by (auto simp: add_attr_name_def ci_getitem_lookup Let_def)
  next
    case (Some k)
    then have "m = k" "e' = e" using add by (auto simp: add_attr_name_def ci_getitem_lookup)
    moreover have "k \<in> fst ` set (le_nice e)" using entry_okD(4) [OF ok Some] by simp
    ultimately show ?thesis using inv by (simp add: insert_absorb)
  qed
  then show "names_inv conn (insert m (fst ` set (le_nice e))) (le_names e') (fst ` set (le_orig_raw e'))"
    "le_nice e' = le_nice e" "le_raw e' = le_raw e" by blast+
qed

lemma store_nice_frame:
  "fst ` set (le_nice (store_nice same v name e)) = insert name (fst ` set (le_nice e))"
  "le_names (store_nice same v name e) = le_names e" "le_orig_raw (store_nice same v name e) = le_orig_raw e"
proof -
  have "name \<in> fst ` set (le_nice e)" if "map_of (le_nice e) name = Some x" for x
    using map_of_SomeD [OF that] by (force intro: image_eqI)
  then show "fst ` set (le_nice (store_nice same v name e)) = insert name (fst ` set (le_nice e))"
    by (auto simp: store_nice_def Let_def keys_image)
qed (simp_all add: store_nice_def Let_def)

lemma store_raw_frame:
  assumes "map fst (le_nice e) = map fst (le_raw e)"
  shows "fst ` set (le_nice (store_raw same l name e)) = insert name (fst ` set (le_nice e))"
    "le_names (store_raw same l name e) = le_names e" "le_orig_raw (store_raw same l name e) = le_orig_raw e"
proof -
  have "name \<in> fst ` set (le_nice e)" if "map_of (le_raw e) name = Some x" for x
  proof -
    have "name \<in> fst ` set (le_raw e)" using map_of_SomeD [OF that] by (force intro: image_eqI)
    then show ?thesis using arg_cong [OF assms, of set] by simp
  qed
  then show "fst ` set (le_nice (store_raw same l name e)) = insert name (fst ` set (le_nice e))"
    by (auto simp: store_raw_def keys_image)
qed (simp_all add: store_raw_def)

lemma frame_inv_keeps:
  "frame.keeps K m \<Longrightarrow> entry_names_inv conn e \<Longrightarrow> entry_names_inv conn (snd (m e))"
  using frame_names_inv [of K e "snd (m e)" conn] by (simp add: frame.keeps_def)

lemmas names_inv_sync = frame_inv_keeps [OF frame_sync_unless_None]

lemma names_inv_set_nice:
  assumes "schema_names_ok conn" "entry_ok e" "entry_names_inv conn e"
  shows "entry_names_inv conn (snd (set_nice conn same a v e))"
proof (cases a)
  case (ANamed n)
  obtain m e' where add: "add_attr_name conn n e = (Inr m, e')"
    by (rule entry_ok_add_attr_name [OF assms(2)])
  have "entry_names_inv conn (store_nice same v m e')"
    using names_inv_add_attr_name [OF assms add] by (simp add: store_nice_frame)
  then show ?thesis using ANamed add names_inv_sync
    by (simp add: set_nice_def act_defs attr_name_def)
qed (use assms in \<open>simp add: set_nice_def act_defs attr_name_def\<close>)

lemma names_inv_set_raw:
  assumes "schema_names_ok conn" "entry_ok e" "entry_names_inv conn e"
  shows "entry_names_inv conn (snd (set_raw conn same a v e))"
proof (cases a)
  case (ANamed n)
  obtain m e' where add: "add_attr_name conn n e = (Inr m, e')"
    by (rule entry_ok_add_attr_name [OF assms(2)])
  note inv = names_inv_add_attr_name [OF assms add]
  show ?thesis
  proof (cases "raw_list v")
    case (Inl x)
    then show ?thesis using assms(3) ANamed by (simp add: set_raw_def act_defs attr_name_def)
  next
    case (Inr l)
    have "entry_names_inv conn (store_raw same l m e')"
      using inv entry_okD(2) [OF assms(2)] by (simp add: store_raw_frame)
    then show ?thesis using ANamed add Inr names_inv_sync
      by (simp add: set_raw_def act_defs attr_name_def)
  qed
qed (use assms in \<open>simp add: set_raw_def act_defs attr_name_def\<close>)

lemma keys_without: "fst ` set (AList.delete k al) = fst ` set al - {k}"
  using arg_cong [OF delete_keys [of k al], of set] by simp

lemma names_inv_delitem:
  assumes "entry_ok e" "entry_names_inv conn e"
  shows "entry_names_inv conn (snd (delitem a e))"
proof (cases a)
  case (ANamed n)
  show ?thesis
  proof (cases "ci_lookup (le_names e) n")
    case None
    then show ?thesis using ANamed assms by (simp add: delitem_ok)
  next
    case (Some m)
    then show ?thesis
      using ANamed assms(1) names_inv_del [OF assms(2) entry_okD(1) [OF assms(1)], of m]
      by (simp add: delitem_ok entry_without_def keys_without)
  qed
qed (use assms in \<open>simp add: delitem_def act_defs get_attr_name_def attr_name_def\<close>)

lemma raw_view_items_keys: "raw_view_items conn ns e = (Inr l, e') \<Longrightarrow> map fst l = ns"
  by (induction ns arbitrary: e l) (auto simp: act_ret_def elim!: act_bind_InrE)

lemma names_inv_self:
  assumes "names_inv conn K names orig"
  shows "names_inv conn K names K"
proof -
  note D = names_invD [OF assms]
  have self: "n \<in> K \<Longrightarrow> ci_lookup names n = Some n" for n by (rule D(2)) simp_all
  show ?thesis
  proof (rule names_invI)
    fix b n assume "ci_lookup names b = Some n"
    then show "attr_class conn b = attr_class conn n" by (rule D(1))
  next
    fix n b assume "n \<in> K" "attr_class conn b = attr_class conn n"
    then show "ci_lookup names b = Some n" by (rule D(2))
  next
    fix m n assume "m \<in> K" "ci_lookup names m = Some n"
    then show "m = n" by (simp add: self)
  next
    fix m n assume mn: "m \<in> K" "n \<in> K" "attr_class conn m = attr_class conn n"
    have "ci_lookup names m = Some n" by (rule D(2) [OF mn(2,3)])
    with self [OF mn(1)] show "m = n" by simp
  qed
qed

lemma names_inv_reset:
  assumes "entry_names_inv conn e"
  shows "entry_names_inv conn (snd (reset_modlist conn e))"
proof -
  obtain r e' where g: "raw_view_items conn (entry_iter e) e = (r, e')" by (rule prod.exhaust)
  have f: "entry_frame UNIV e e'" by (rule frame.keepsD [OF frame_UNIV_items g])
  then have inv: "entry_names_inv conn e'" using assms frame_names_inv [OF f, of conn] by simp
  show ?thesis
  proof (cases r)
    case (Inl x)
    then show ?thesis using g inv by (simp add: reset_modlist_def act_defs)
  next
    case (Inr l)
    have "map fst l = map fst (le_nice e')"
      using raw_view_items_keys [OF g [unfolded Inr]] f by (simp add: entry_iter_def entry_frame_def)
    from arg_cong [OF this, of set] have orig: "fst ` set l = fst ` set (le_nice e')" by simp
    have "names_inv conn (fst ` set (le_nice e')) (le_names e') (fst ` set (le_nice e'))"
      by (rule names_inv_self [OF inv])
    moreover have "snd (reset_modlist conn e) = e'\<lparr>le_orig_raw := l\<rparr>"
      using g Inr by (simp add: reset_modlist_def act_defs)
    ultimately show ?thesis by (simp add: orig)
  qed
qed

lemma reach_names_inv:
  assumes "schema_names_ok conn"
  shows "entry_reach conn e \<Longrightarrow> entry_names_inv conn e"
proof (induction rule: entry_reach.induct)
  case (er_new d)
  show ?case by (rule names_invI) (simp_all add: entry_empty_def)
next
  case (er_set_nice e same a v)
  then show ?case by (intro names_inv_set_nice assms reach_ok)
next
  case (er_set_raw e same a rv)
  then show ?case by (intro names_inv_set_raw assms reach_ok)
next
  case (er_get_nice e a)
  then show ?case
    by (intro frame_inv_keeps [OF frame_UNIV_views(1)])
next
  case (er_get_raw e a)
  then show ?case
    by (intro frame_inv_keeps [OF frame_UNIV_views(2)])
next
  case (er_del e a)
  then show ?case by (intro names_inv_delitem reach_ok)
next
  case (er_clear e)
  show ?case
    by (rule names_invI) (use names_invD(4) [OF er_clear.IH] in \<open>simp_all add: clear_entry_def ci_clear_def\<close>)
next
  case (er_reset e)
  then show ?case by (intro names_inv_reset)
next
  case (er_modlist e)
  then show ?case
    by (intro frame_inv_keeps [OF frame_UNIV_modlist])
next
  case (edit_nice e n l l')
  then show ?case by (simp add: update_existing_keys)
next
  case (edit_raw e n r r')
  then show ?case by simp
qed

lemma modlist_loop_error:
  assumes "entry_ok e" "codec_errors conn" "keys_named e" "distinct ns"
    and "\<forall>n \<in> set ns. ci_lookup (le_names e) n \<in> {None, Some n}"
    and "modlist_loop conn ns e = (Inl x, e')"
  shows "value_or_type_error x \<or>
    (\<exists>n. x = PublicError ''OnlyOneValueAllowed'' n \<and> c_single_value conn n = Some True \<and> 1 < length (raw_of e' n))"
  using assms
proof (induction ns arbitrary: e)
  case Nil
  then show ?case by (simp add: act_defs)
next
  case (Cons n ns)
  obtain r e1 where g: "raw_get conn n e = (r, e1)" by (rule prod.exhaust)
  show ?case
  proof (cases r)
    case (Inl y)
    then have "x = y" using Cons.prems(6) g by (simp add: act_bind_def)
    moreover have "value_or_type_error y"
      using g Inl raw_get_error [OF Cons.prems(1,2), of n y] by simp
    ultimately show ?thesis by simp
  next
    case (Inr new)
    have f: "entry_frame {n} e e1" "new = raw_of e1 n"
      using raw_get_result [OF Cons.prems(1-3) _ g [unfolded Inr]] Cons.prems(5) by auto
    note f1 = frame_named [OF f(1)]
    have ok1: "entry_ok e1" using entry_inv.keepsD [OF keeps_raw_get g] Cons.prems(1) by simp
    show ?thesis
    proof (cases "attr_mods conn n new (orig_of e1 n)")
      case (Inl y)
      then have "x = y" "e' = e1" using Cons.prems(6) g Inr by (simp_all add: act_bind_def act_read_def orig_of_def)
      moreover have "y = PublicError ''OnlyOneValueAllowed'' n" "c_single_value conn n = Some True" "1 < length new"
        using attr_mods_error [OF Inl] by auto
      ultimately show ?thesis using f(2) by auto
    next
      case (Inr ms)
      then have "modlist_loop conn ns e1 = (Inl x, e')"
        using Cons.prems(6) g \<open>r = Inr new\<close>
        by (auto simp: act_bind_def act_read_def act_ret_def orig_of_def split: prod.splits sum.splits)
      then show ?thesis
        using Cons.prems(3-5) f1 by (intro Cons.IH [OF ok1 Cons.prems(2)]) auto
    qed
  qed
qed

text \<open>What the loop over the names needs, on every reachable entry.\<close>

lemma modlist_names:
  assumes "entry_reach conn e" "iters_ok conn" "schema_names_ok conn"
  defines "ns \<equiv> c_iter_names conn (set (entry_iter e) \<union> fst ` set (le_orig_raw e))"
  shows "keys_named e" "set ns = set (entry_iter e) \<union> fst ` set (le_orig_raw e)" "distinct ns"
    "\<forall>n \<in> set ns. ci_lookup (le_names e) n \<in> {None, Some n}"
proof -
  note inv = names_invD [OF reach_names_inv [OF assms(3,1)]]
  show ns: "set ns = set (entry_iter e) \<union> fst ` set (le_orig_raw e)" and "distinct ns"
    using assms(2) by (simp_all add: ns_def iters_ok_def set_iter_set set_iter_distinct)
  show named: "keys_named e" using inv(2) by blast
  show "\<forall>n \<in> set ns. ci_lookup (le_names e) n \<in> {None, Some n}"
  proof
    fix n assume "n \<in> set ns"
    then consider "n \<in> fst ` set (le_nice e)" | "n \<in> fst ` set (le_orig_raw e)"
      unfolding ns by (auto simp: entry_iter_def)
    then show "ci_lookup (le_names e) n \<in> {None, Some n}"
      by cases (use named inv(3) [of n] in \<open>auto intro: ccontr\<close>)
  qed
qed

section \<open>Properties\<close>

text \<open>
  C5: The modification list turns the old entry into the new one. For every entry a program can
  reach, \<open>generate_modlist\<close> either reports a value that cannot be converted, or reports
  \<open>OnlyOneValueAllowed\<close> for a single-valued attribute that holds more than one value, or returns
  a list. If no single-valued attribute holds more than one value, the server accepts the list
  on an entry with the original values, and every attribute then has exactly the values of the
  entry: none is added twice, none deleted that is not there, whatever the order in which the set
  of names is iterated and although the list is sorted afterwards.
\<close>

theorem generate_modlist_correct:
  assumes "entry_reach conn e" and "codec_errors conn" and "iters_ok conn" and "schema_names_ok conn"
  shows "case generate_modlist conn e of
      (Inl x, e') \<Rightarrow> value_or_type_error x \<or>
        (\<exists>n. x = PublicError ''OnlyOneValueAllowed'' n \<and> c_single_value conn n = Some True \<and> 1 < length (raw_of e' n))
    | (Inr ml, e') \<Rightarrow> (\<forall>n. c_single_value conn n = Some True \<longrightarrow> length (raw_of e' n) \<le> 1) \<longrightarrow>
        apply_mods ml (\<lambda>n. set (orig_of e n)) = Some (\<lambda>n. set (raw_of e' n))"
proof -
  let ?names = "set (entry_iter e) \<union> fst ` set (le_orig_raw e)"
  let ?ns = "c_iter_names conn ?names" and ?key = "\<lambda>(_, n, _). py_lower n \<noteq> ''attributetypes''"
  note ok = reach_ok [OF assms(1)] and names = modlist_names [OF assms(1,3,4)]
  have named: "keys_named e" and ns: "set ?ns = ?names" "distinct ?ns"
    and self: "\<forall>n \<in> set ?ns. ci_lookup (le_names e) n \<in> {None, Some n}"
    by (rule names)+
  obtain r e' where loop: "modlist_loop conn ?ns e = (r, e')" by (rule prod.exhaust)
  show ?thesis
  proof (cases r)
    case (Inl x)
    then have "generate_modlist conn e = (Inl x, e')"
      using loop by (simp add: generate_modlist_def act_defs)
    then show ?thesis
      using modlist_loop_error [OF ok assms(2) named ns(2) self loop [unfolded Inl]] by simp
  next
    case (Inr ml)
    note res = modlist_loop_result [OF ok assms(2) named ns(2) self loop [unfolded Inr]]
    have gen: "generate_modlist conn e = (Inr (sort_key ?key ml), e')"
      using loop Inr by (simp add: generate_modlist_def act_defs)
    have ok': "entry_ok e'" using entry_inv.keepsD [OF keeps_generate_modlist gen] ok by simp
    have "apply_mods (sort_key ?key ml) (\<lambda>n. set (orig_of e n)) = Some (\<lambda>n. set (raw_of e' n))"
      if single: "\<forall>n. c_single_value conn n = Some True \<longrightarrow> length (raw_of e' n) \<le> 1"
    proof (rule apply_mods_split)
      fix n
      have sort: "mods_of n (sort_key ?key ml) = mods_of n ml"
        by (rule mods_of_sort [where h = "\<lambda>n. py_lower n \<noteq> ''attributetypes''"]) auto
      show "apply_attr (mods_of n (sort_key ?key ml)) (set (orig_of e n)) = Some (set (raw_of e' n))"
      proof (cases "n \<in> set ?ns")
        case True
        then have "attr_mods conn n (raw_of e' n) (orig_of e n) = Inr (mods_of n ml)" using res by auto
        then show ?thesis unfolding sort using single by (intro attr_mods_correct) auto
      next
        case False
        then have "mods_of n ml = []" "n \<notin> fst ` set (le_orig_raw e)" "n \<notin> fst ` set (le_nice e)"
          using res unfolding ns(1) by (auto simp: entry_iter_def)
        moreover from this have "n \<notin> fst ` set (le_raw e')"
          using res entry_okD(2) [OF ok'] by (auto simp: entry_frame_def simp flip: set_map)
        ultimately show ?thesis
          unfolding sort by (simp add: orig_of_def raw_of_def map_of_eq_None_iff [THEN iffD2])
      qed
    qed
    then show ?thesis by (simp add: gen)
  qed
qed

definition sample_entry :: "string ldap_entry" where
  "sample_entry =
     snd (set_raw plain_conn False (ANamed ''sn'') (RList [RBytes ''c''])
       (snd (set_raw plain_conn False (ANamed ''CN'') (RList [RBytes ''b'', RBytes ''d''])
         (snd (reset_modlist plain_conn
           (snd (set_raw plain_conn False (ANamed ''cn'') (RList [RBytes ''a'', RBytes ''b'']) (entry_empty []))))))))"

theorem generate_modlist_correct_witness:
  "\<exists>ml e'. generate_modlist plain_conn sample_entry = (Inr ml, e') \<and>
     ml = [(MOD_DELETE, ''cn'', Some [''a'']), (MOD_ADD, ''cn'', Some [''d'']), (MOD_REPLACE, ''sn'', Some [''c''])] \<and>
     apply_mods ml (\<lambda>n. set (orig_of sample_entry n)) = Some (\<lambda>n. set (raw_of e' n))"
proof -
  have reach: "entry_reach plain_conn sample_entry"
    unfolding sample_entry_def by (intro entry_reach.intros)
  have s: "schema_names_ok plain_conn" "\<forall>n. c_single_value plain_conn n = None"
    by (simp_all add: schema_names_ok_def plain_conn_def)
  obtain e' where g: "generate_modlist plain_conn sample_entry = (Inr [(MOD_DELETE, ''cn'', Some [''a'']),
      (MOD_ADD, ''cn'', Some [''d'']), (MOD_REPLACE, ''sn'', Some [''c''])], e')"
  proof
    show "generate_modlist plain_conn sample_entry = (Inr [(MOD_DELETE, ''cn'', Some [''a'']),
      (MOD_ADD, ''cn'', Some [''d'']), (MOD_REPLACE, ''sn'', Some [''c''])], snd (generate_modlist plain_conn sample_entry))"
      by (rule prod_eqI, code_simp, simp)
  qed
  show ?thesis
    using generate_modlist_correct [OF reach plain_conn_ok s(1)] s(2) by (simp add: g)
qed

text \<open>
  Two places where the code does not do what it sets out to do. A value removed through both views
  makes the next read fail, because the second removal finds nothing to remove; and a second value
  given to a single-valued attribute is not refused but replaces the first on the server.
\<close>

lemma removal_in_both_views_fails:
  assumes "iters_ok conn" "c_encode conn v = Inr b"
  shows "sync_lists conn name ([v], [b]) ([], []) = (Inl (ValueError ''list.remove(x): x not in list''), ([], []))"
proof -
  have "c_iter_nice conn {v} = [v]"
  proof -
    have "set (c_iter_nice conn {v}) = {v}" "distinct (c_iter_nice conn {v})"
      using assms(1) by (simp_all add: iters_ok_def set_iter_set set_iter_distinct)
    then have "length (c_iter_nice conn {v}) = 1" by (metis card.empty card_insert_disjoint distinct_card empty_iff finite.emptyI One_nat_def)
    then show ?thesis using \<open>set (c_iter_nice conn {v}) = {v}\<close>
      by (cases "c_iter_nice conn {v}") auto
  qed
  then show ?thesis
    by (simp add: sync_lists_def Let_def act_defs on_raw_def sync_dels_def assms(2) list_remove_def)
qed

lemma second_single_value_replaces_first:
  "c_single_value conn n = Some True \<Longrightarrow> a \<noteq> b \<Longrightarrow>
   attr_mods conn n [a, b] [a] = Inr [(MOD_REPLACE, n, Some [b])]"
  by (simp add: attr_mods_def)

end
