(* ===== verification/LDAP_Client.thy ===== *)
theory LDAP_Client
  imports LDAP_Filters LDAP_Modlist
begin

text \<open>
  The operations of \<open>LDAPClient\<close> (\<^verbatim>\<open>src/ipapython/ipaldap.py\<close>) that talk to a directory server:
  searches, page by page if asked for, reading, adding, updating, renaming and deleting entries,
  and the translation of the errors of python-ldap into the public errors of IPA.

  The connection of python-ldap is a parameter, the record \<open>server\<close> of its functions over a state
  \<open>'s\<close>: each gives a result or an exception and the state after the call. Time limits are whole
  seconds. A search that never ends is the value \<open>None\<close>.
\<close>

section \<open>Errors\<close>

datatype ldap_exc_class =
    TIMEOUT | NO_SUCH_OBJECT | ALREADY_EXISTS | TYPE_OR_VALUE_EXISTS | CONSTRAINT_VIOLATION
  | INSUFFICIENT_ACCESS | INVALID_CREDENTIALS | INAPPROPRIATE_AUTH | NO_SUCH_ATTRIBUTE
  | INVALID_SYNTAX | OBJECT_CLASS_VIOLATION | ADMINLIMIT_EXCEEDED | SIZELIMIT_EXCEEDED
  | TIMELIMIT_EXCEEDED | NOT_ALLOWED_ON_RDN | FILTER_ERROR | NOT_ALLOWED_ON_NONLEAF | SERVER_DOWN
  | LOCAL_ERROR | SUCCESS | CONNECT_ERROR | UNWILLING_TO_PERFORM | AUTH_UNKNOWN | OTHER_LDAP_ERROR

text \<open>What a call into python-ldap can raise: an \<open>LDAPError\<close> with its \<open>desc\<close> and \<open>info\<close>, or any other exception.\<close>

datatype client_exc = LDAPError ldap_exc_class string string | OtherExc pyexc

fun is_substring :: "string \<Rightarrow> string \<Rightarrow> bool" where
  "is_substring p [] \<longleftrightarrow> p = []"
| "is_substring p (c # s) \<longleftrightarrow> is_prefix_of p (c # s) \<or> is_substring p s"

text \<open>\<open>Inr ()\<close>: the exception is swallowed.\<close>

definition error_handler :: "string \<Rightarrow> string option \<Rightarrow> client_exc \<Rightarrow> unit res" where
  "error_handler ldap_uri arg_desc x =
     (case x of
        OtherExc e \<Rightarrow> Inl e
      | LDAPError cls desc0 info0 \<Rightarrow>
          let desc = py_strip desc0;
              info = (case arg_desc of None \<Rightarrow> py_strip info0 | Some a \<Rightarrow> py_strip info0 @ '' arguments: '' @ a);
              database_error = Inl (PublicError ''DatabaseError'' (desc @ '': '' @ info))
          in case cls of
            TIMEOUT \<Rightarrow> Inl (PublicError ''DatabaseTimeout'' [])
          | NO_SUCH_OBJECT \<Rightarrow> Inl (PublicError ''NotFound''
              (case arg_desc of None \<Rightarrow> ''no such entry'' | Some a \<Rightarrow> if a = [] then ''no such entry'' else a))
          | ALREADY_EXISTS \<Rightarrow> Inl (PublicError ''DuplicateEntry'' [])
          | TYPE_OR_VALUE_EXISTS \<Rightarrow> Inl (PublicError ''DuplicateEntry'' desc)
          | CONSTRAINT_VIOLATION \<Rightarrow>
              if is_prefix_of ''Another entry with the same attribute value already exists'' info
              then Inl (PublicError ''DuplicateEntry'' []) else database_error
          | INSUFFICIENT_ACCESS \<Rightarrow> Inl (PublicError ''ACIError'' info)
          | INVALID_CREDENTIALS \<Rightarrow> Inl (PublicError ''ACIError'' (info @ '' '' @ desc))
          | INAPPROPRIATE_AUTH \<Rightarrow> Inl (PublicError ''ACIError'' (desc @ '': '' @ info))
          | NO_SUCH_ATTRIBUTE \<Rightarrow> Inl (PublicError ''MidairCollision'' [])
          | INVALID_SYNTAX \<Rightarrow> Inl (PublicError ''InvalidSyntax'' info)
          | OBJECT_CLASS_VIOLATION \<Rightarrow> Inl (PublicError ''ObjectclassViolation'' info)
          | ADMINLIMIT_EXCEEDED \<Rightarrow> Inl (PublicError ''AdminLimitExceeded'' [])
          | SIZELIMIT_EXCEEDED \<Rightarrow> Inl (PublicError ''SizeLimitExceeded'' [])
          | TIMELIMIT_EXCEEDED \<Rightarrow> Inl (PublicError ''TimeLimitExceeded'' [])
          | NOT_ALLOWED_ON_RDN \<Rightarrow> Inl (PublicError ''NotAllowedOnRDN'' info)
          | FILTER_ERROR \<Rightarrow> Inl (PublicError ''BadSearchFilter'' info)
          | NOT_ALLOWED_ON_NONLEAF \<Rightarrow> Inl (PublicError ''NotAllowedOnNonLeaf'' [])
          | SERVER_DOWN \<Rightarrow> Inl (PublicError ''NetworkError'' (ldap_uri @ '': '' @ info))
          | LOCAL_ERROR \<Rightarrow> Inl (PublicError ''ACIError'' info)
          | SUCCESS \<Rightarrow> Inr ()
          | CONNECT_ERROR \<Rightarrow> database_error
          | UNWILLING_TO_PERFORM \<Rightarrow> database_error
          | AUTH_UNKNOWN \<Rightarrow> Inl (PublicError ''ACIError'' (info @ '' ('' @ desc @ '')''))
          | OTHER_LDAP_ERROR \<Rightarrow>
              if is_substring ''NOT_ALLOWED_TO_DELEGATE'' info
              then Inl (PublicError ''ACIError'' ''KDC returned NOT_ALLOWED_TO_DELEGATE'')
              else database_error)"

datatype truncation =
    NotTruncated | TRUNCATED_ADMIN_LIMIT | TRUNCATED_SIZE_LIMIT | TRUNCATED_TIME_LIMIT | TruncatedOther

definition handle_truncated_result :: "truncation \<Rightarrow> unit res" where
  "handle_truncated_result truncated =
     (case truncated of
        NotTruncated \<Rightarrow> Inr ()
      | TRUNCATED_ADMIN_LIMIT \<Rightarrow> Inl (PublicError ''AdminLimitExceeded'' [])
      | TRUNCATED_SIZE_LIMIT \<Rightarrow> Inl (PublicError ''SizeLimitExceeded'' [])
      | TRUNCATED_TIME_LIMIT \<Rightarrow> Inl (PublicError ''TimeLimitExceeded'' [])
      | TruncatedOther \<Rightarrow> Inl (PublicError ''LimitsExceeded'' []))"

section \<open>The client and its connection\<close>

datatype scope = SCOPE_BASE | SCOPE_ONELEVEL | SCOPE_SUBTREE

datatype control = EffectiveRights string | PagedResults int string | OtherControl

record search_req =
  rq_base :: string
  rq_scope :: scope
  rq_filter :: string
  rq_attrs :: "string list option"
  rq_controls :: "control list option"
  rq_timeout :: int
  rq_sizelimit :: int

type_synonym ldap_attrs = "(string \<times> bytes list) list"

record search_msg =
  sm_final :: bool
  sm_list :: "(string option \<times> ldap_attrs) list"
  sm_controls :: "control list"

record 's server =
  sv_search_ext :: "search_req \<Rightarrow> 's \<Rightarrow> (client_exc + int) \<times> 's"
  sv_result3 :: "int \<Rightarrow> 's \<Rightarrow> (client_exc + search_msg) \<times> 's"
  sv_search_ext_s :: "search_req \<Rightarrow> 's \<Rightarrow> (client_exc + unit) \<times> 's"
  sv_whoami_s :: "'s \<Rightarrow> (client_exc + string) \<times> 's"
  sv_add_s :: "string \<Rightarrow> ldap_attrs \<Rightarrow> 's \<Rightarrow> (client_exc + unit) \<times> 's"
  sv_modify_s :: "string \<Rightarrow> ldap_mod list \<Rightarrow> 's \<Rightarrow> (client_exc + unit) \<times> 's"
  sv_delete_s :: "string \<Rightarrow> 's \<Rightarrow> (client_exc + unit) \<times> 's"
  sv_rename_s :: "string \<Rightarrow> string \<Rightarrow> string option \<Rightarrow> bool \<Rightarrow> 's \<Rightarrow> (client_exc + unit) \<times> 's"

record ('v, 's) client =
  cl_conn :: "'v ldap_conn"
  cl_server :: "'s server"
  cl_lib :: dn_lib
  cl_dn2str :: "raw_dn \<Rightarrow> string"
  cl_escape :: "string \<Rightarrow> string"
  cl_uri :: string
  cl_time_limit :: int
  cl_size_limit :: int

text \<open>Exceptions raised outside the error handler leave as they are.\<close>

definition raw_exc :: "client_exc \<Rightarrow> pyexc" where
  "raw_exc x = (case x of OtherExc e \<Rightarrow> e | LDAPError _ desc _ \<Rightarrow> PlainException desc)"

section \<open>Results\<close>

text \<open>\<open>entry.raw[attr] = values\<close> for every item of a dictionary.\<close>

definition set_raws :: "'v ldap_conn \<Rightarrow> ldap_attrs \<Rightarrow> ('v ldap_entry, unit) act" where
  "set_raws conn items =
     act_seq (map (\<lambda>(attr, values). set_raw conn False (ANamed attr) (RList (map RBytes values))) items)"

definition convert_entry :: "('v, 's) client \<Rightarrow> string \<Rightarrow> ldap_attrs \<Rightarrow> 'v ldap_entry res" where
  "convert_entry cl original_dn original_attrs =
     rbind (DN_init (cl_lib cl) [AStr original_dn]) (\<lambda>d.
       case act_bind (set_raws (cl_conn cl) original_attrs) (\<lambda>_. reset_modlist (cl_conn cl)) (entry_empty d) of
         (Inl x, _) \<Rightarrow> Inl x
       | (Inr _, e) \<Rightarrow> Inr e)"

fun convert_result :: "('v, 's) client \<Rightarrow> (string option \<times> ldap_attrs) list \<Rightarrow> 'v ldap_entry list res" where
  "convert_result cl [] = Inr []"
| "convert_result cl ((None, _) # result) = convert_result cl result"
| "convert_result cl ((Some d, attrs) # result) =
     rbind (convert_entry cl d attrs) (\<lambda>e. rbind (convert_result cl result) (\<lambda>es. Inr (e # es)))"

section \<open>Searches\<close>

text \<open>The inner loop of \<open>find_entries\<close>: the messages of one search.\<close>

partial_function (option) read_results ::
    "('v, 's) client \<Rightarrow> int \<Rightarrow> 'v ldap_entry list \<Rightarrow> 's \<Rightarrow>
     ((client_exc + control list) \<times> 'v ldap_entry list \<times> 's) option" where
  "read_results cl mid res s =
     (case sv_result3 (cl_server cl) mid s of
        (Inl x, s') \<Rightarrow> Some (Inl x, res, s')
      | (Inr m, s') \<Rightarrow>
          if sm_final m then Some (Inr (sm_controls m), res, s')
          else (case convert_result cl (sm_list m) of
                  Inl x \<Rightarrow> Some (Inl (OtherExc x), res, s')
                | Inr es \<Rightarrow> read_results cl mid (res @ take 1 es) s'))"

fun page_cookie :: "control list \<Rightarrow> string" where
  "page_cookie [] = []"
| "page_cookie (PagedResults _ cookie # _) = cookie"
| "page_cookie (_ # controls) = page_cookie controls"

text \<open>The exception clauses around one page. \<open>cancel\<close> is the request that ends a paged search.\<close>

definition search_failed ::
    "'s server \<Rightarrow> search_req \<Rightarrow> bool \<Rightarrow> string \<Rightarrow> client_exc \<Rightarrow> 's \<Rightarrow> (client_exc + truncation) \<times> 's" where
  "search_failed sv cancel paged_search cookie x s =
     (case x of
        LDAPError ADMINLIMIT_EXCEEDED _ _ \<Rightarrow> (Inr TRUNCATED_ADMIN_LIMIT, s)
      | LDAPError SIZELIMIT_EXCEEDED _ _ \<Rightarrow> (Inr TRUNCATED_SIZE_LIMIT, s)
      | LDAPError TIMELIMIT_EXCEEDED _ _ \<Rightarrow> (Inr TRUNCATED_TIME_LIMIT, s)
      | LDAPError _ _ _ \<Rightarrow>
          if paged_search \<and> cookie \<noteq> []
          then (case sv_search_ext_s sv cancel s of
                  (Inl (OtherExc y), s') \<Rightarrow> (Inl (OtherExc y), s')
                | (_, s') \<Rightarrow> (Inl x, s'))
          else (Inl x, s)
      | OtherExc _ \<Rightarrow> (Inl x, s))"

text \<open>The outer loop: one search for each page. \<open>mk cookie\<close> is the request for a page.\<close>

partial_function (option) search_pages ::
    "('v, 's) client \<Rightarrow> (string \<Rightarrow> search_req) \<Rightarrow> (string \<Rightarrow> search_req) \<Rightarrow> bool \<Rightarrow> string \<Rightarrow> 'v ldap_entry list \<Rightarrow> 's \<Rightarrow>
     ((client_exc + truncation) \<times> 'v ldap_entry list \<times> 's) option" where
  "search_pages cl mk cancel paged_search cookie res s =
     (case sv_search_ext (cl_server cl) (mk cookie) s of
        (Inl x, s1) \<Rightarrow>
          (case search_failed (cl_server cl) (cancel cookie) paged_search cookie x s1 of
             (r, s2) \<Rightarrow> Some (r, res, s2))
      | (Inr mid, s1) \<Rightarrow>
          (case read_results cl mid res s1 of
             None \<Rightarrow> None
           | Some (Inl x, res', s2) \<Rightarrow>
               (case search_failed (cl_server cl) (cancel cookie) paged_search cookie x s2 of
                  (r, s3) \<Rightarrow> Some (r, res', s3))
           | Some (Inr controls, res', s2) \<Rightarrow>
               (let cookie' = (if paged_search then page_cookie controls else cookie)
                in if \<not> paged_search \<or> cookie' = [] then Some (Inr NotTruncated, res', s2)
                   else search_pages cl mk cancel paged_search cookie' res' s2)))"

record search_args =
  sa_filter :: "string option"
  sa_attrs :: "string list option"
  sa_base :: "raw_dn option"
  sa_scope :: scope
  sa_time_limit :: "int option"
  sa_size_limit :: "int option"
  sa_paged :: bool
  sa_rights :: bool

definition search_request :: "search_args \<Rightarrow> ('v, 's) client \<Rightarrow> control list option \<Rightarrow> search_req" where
  "search_request sa cl sctrls =
     \<lparr>rq_base = cl_dn2str cl (case sa_base sa of None \<Rightarrow> [] | Some d \<Rightarrow> d),
      rq_scope = sa_scope sa,
      rq_filter = (case sa_filter sa of None \<Rightarrow> ''(objectClass=*)'' | Some f \<Rightarrow> if f = [] then ''(objectClass=*)'' else f),
      rq_attrs = map_option (\<lambda>l. if l = [] then [] else map py_lower (c_iter_names (cl_conn cl) (set l))) (sa_attrs sa),
      rq_controls = sctrls,
      rq_timeout =
        (let t = (case sa_time_limit sa of None \<Rightarrow> cl_time_limit cl | Some t \<Rightarrow> t) in if t = 0 then -1 else t),
      rq_sizelimit = (case sa_size_limit sa of None \<Rightarrow> cl_size_limit cl | Some n \<Rightarrow> n)\<rparr>"

definition page_size :: "search_args \<Rightarrow> ('v, 's) client \<Rightarrow> int" where
  "page_size sa cl =
     (let size_limit = (case sa_size_limit sa of None \<Rightarrow> cl_size_limit cl | Some n \<Rightarrow> n)
      in (if size_limit > 0 then size_limit else 2000) - 1)"

definition search_controls :: "search_args \<Rightarrow> ('v, 's) client \<Rightarrow> 's \<Rightarrow> control list res \<times> 's" where
  "search_controls sa cl s =
     (if sa_rights sa
      then (case sv_whoami_s (cl_server cl) s of
              (Inl x, s') \<Rightarrow> (Inl (raw_exc x), s')
            | (Inr who, s') \<Rightarrow> (Inr [EffectiveRights (''dn: '' @ drop 4 who)], s'))
      else (Inr [], s))"

definition page_request ::
    "search_args \<Rightarrow> ('v, 's) client \<Rightarrow> control list \<Rightarrow> bool \<Rightarrow> int \<Rightarrow> string \<Rightarrow> search_req" where
  "page_request sa cl base_sctrls paged psize cookie =
     search_request sa cl
       (if paged then Some (base_sctrls @ [PagedResults psize cookie])
        else if base_sctrls = [] then None else Some base_sctrls)"

definition cancel_request :: "search_args \<Rightarrow> ('v, 's) client \<Rightarrow> string \<Rightarrow> search_req" where
  "cancel_request sa cl cookie = search_request sa cl (Some [PagedResults 0 cookie])"

definition find_entries ::
    "('v, 's) client \<Rightarrow> search_args \<Rightarrow> 's \<Rightarrow> (('v ldap_entry list \<times> truncation) res \<times> 's) option" where
  "find_entries cl sa s =
     (case search_controls sa cl s of
        (Inl x, s1) \<Rightarrow> Some (Inl x, s1)
      | (Inr base_sctrls, s1) \<Rightarrow>
          let psize = page_size sa cl; paged = (sa_paged sa \<and> psize \<noteq> 0)
          in (case search_pages cl (page_request sa cl base_sctrls paged psize) (cancel_request sa cl) paged [] [] s1 of
                None \<Rightarrow> None
              | Some (r, res, s2) \<Rightarrow>
                  (case (case r of Inr t \<Rightarrow> Inr t
                         | Inl x \<Rightarrow> rbind (error_handler (cl_uri cl) None x) (\<lambda>_. Inr NotTruncated)) of
                     Inl x \<Rightarrow> Some (Inl x, s2)
                   | Inr truncated \<Rightarrow>
                       if res = [] \<and> truncated = NotTruncated
                       then Some (Inl (PublicError ''EmptyResult'' ''no matching entry found''), s2)
                       else Some (Inr (res, truncated), s2))))"

definition get_entries :: "('v, 's) client \<Rightarrow> search_args \<Rightarrow> 's \<Rightarrow> ('v ldap_entry list res \<times> 's) option" where
  "get_entries cl sa s =
     (case find_entries cl sa s of
        None \<Rightarrow> None
      | Some (Inl x, s') \<Rightarrow> Some (Inl x, s')
      | Some (Inr (entries, truncated), s') \<Rightarrow>
          Some (rbind (handle_truncated_result truncated) (\<lambda>_. Inr entries), s'))"

definition get_entry ::
    "('v, 's) client \<Rightarrow> raw_dn \<Rightarrow> string list option \<Rightarrow> int option \<Rightarrow> int option \<Rightarrow> bool \<Rightarrow> 's \<Rightarrow>
     ('v ldap_entry res \<times> 's) option" where
  "get_entry cl dn attrs_list time_limit size_limit rights s =
     (case get_entries cl \<lparr>sa_filter = None, sa_attrs = attrs_list, sa_base = Some dn, sa_scope = SCOPE_BASE,
             sa_time_limit = time_limit, sa_size_limit = size_limit, sa_paged = False, sa_rights = rights\<rparr> s of
        None \<Rightarrow> None
      | Some (r, s') \<Rightarrow> Some (rbind r (\<lambda>entries. py_nth entries 0), s'))"

definition find_entry_by_attr ::
    "('v, 's) client \<Rightarrow> string \<Rightarrow> flt_value \<Rightarrow> flt_value \<Rightarrow> string list option \<Rightarrow> raw_dn option \<Rightarrow> 's \<Rightarrow>
     ('v ldap_entry res \<times> 's) option" where
  "find_entry_by_attr cl attr v object_class attrs_list base_dn s =
     (let search_kw = AList.update ''objectClass'' object_class [(attr, v)];
          flt = make_filter (cl_escape cl) search_kw None MATCH_ALL True True True
      in case get_entries cl \<lparr>sa_filter = Some flt, sa_attrs = attrs_list,
             sa_base = Some (case base_dn of None \<Rightarrow> [] | Some d \<Rightarrow> d), sa_scope = SCOPE_SUBTREE,
             sa_time_limit = None, sa_size_limit = None, sa_paged = False, sa_rights = False\<rparr> s of
        None \<Rightarrow> None
      | Some (Inl x, s') \<Rightarrow> Some (Inl x, s')
      | Some (Inr entries, s') \<Rightarrow>
          Some (if 1 < length entries then Inl (PublicError ''SingleMatchExpected'' (nat_to_dec (length entries)))
                else py_nth entries 0, s'))"

text \<open>\<open>EmptyResult\<close> is a \<open>NotFound\<close>.\<close>

definition entry_exists :: "('v, 's) client \<Rightarrow> raw_dn \<Rightarrow> 's \<Rightarrow> (bool res \<times> 's) option" where
  "entry_exists cl dn s =
     (case get_entry cl dn (Some []) None None False s of
        None \<Rightarrow> None
      | Some (Inl x, s') \<Rightarrow>
          Some (case x of
                  PublicError c _ \<Rightarrow> if c = ''NotFound'' \<or> c = ''EmptyResult'' then Inr False else Inl x
                | _ \<Rightarrow> Inl x, s')
      | Some (Inr _, s') \<Rightarrow> Some (Inr True, s'))"

section \<open>Changes\<close>

definition handled :: "('v, 's) client \<Rightarrow> (client_exc + unit) \<times> 's \<Rightarrow> unit res \<times> 's" where
  "handled cl r = (case r of (Inl x, s) \<Rightarrow> (error_handler (cl_uri cl) None x, s) | (Inr _, s) \<Rightarrow> (Inr (), s))"

definition add_entry :: "('v, 's) client \<Rightarrow> 'v ldap_entry \<times> 's \<Rightarrow> unit res \<times> 'v ldap_entry \<times> 's" where
  "add_entry cl = (\<lambda>(entry, s).
     case raw_view_items (cl_conn cl) (entry_iter entry) entry of
       (Inl x, entry') \<Rightarrow> (Inl x, entry', s)
     | (Inr items, entry') \<Rightarrow>
         (case handled cl (sv_add_s (cl_server cl) (cl_dn2str cl (le_dn entry)) (filter (\<lambda>(_, v). v \<noteq> []) items) s) of
            (Inl x, s') \<Rightarrow> (Inl x, entry', s')
          | (Inr _, s') \<Rightarrow> (case reset_modlist (cl_conn cl) entry' of (r, entry'') \<Rightarrow> (r, entry'', s'))))"

definition update_entry :: "('v, 's) client \<Rightarrow> 'v ldap_entry \<times> 's \<Rightarrow> unit res \<times> 'v ldap_entry \<times> 's" where
  "update_entry cl = (\<lambda>(entry, s).
     case generate_modlist (cl_conn cl) entry of
       (Inl x, entry') \<Rightarrow> (Inl x, entry', s)
     | (Inr modlist, entry') \<Rightarrow>
         if modlist = [] then (Inl (PublicError ''EmptyModlist'' []), entry', s)
         else (case handled cl (sv_modify_s (cl_server cl) (cl_dn2str cl (le_dn entry)) modlist s) of
                 (Inl x, s') \<Rightarrow> (Inl x, entry', s')
               | (Inr _, s') \<Rightarrow> (case reset_modlist (cl_conn cl) entry' of (r, entry'') \<Rightarrow> (r, entry'', s'))))"

definition delete_entry :: "('v, 's) client \<Rightarrow> raw_dn \<Rightarrow> 's \<Rightarrow> unit res \<times> 's" where
  "delete_entry cl dn s = handled cl (sv_delete_s (cl_server cl) (cl_dn2str cl dn) s)"

definition move_entry :: "('v, 's) client \<Rightarrow> raw_dn \<Rightarrow> raw_dn \<Rightarrow> bool \<Rightarrow> 's \<Rightarrow> unit res \<times> 's" where
  "move_entry cl dn new_dn del_old s =
     (case DN_eq_DN new_dn dn of
        Inl x \<Rightarrow> (Inl x, s)
      | Inr True \<Rightarrow> (Inl (PublicError ''EmptyModlist'' []), s)
      | Inr False \<Rightarrow>
          (case py_nth new_dn 0 of
             Inl x \<Rightarrow> (Inl x, s)
           | Inr new_rdn \<Rightarrow>
               (case DN_eq_DN (py_slice new_dn (Some 1) None) (py_slice dn (Some 1) None) of
                  Inl x \<Rightarrow> (Inl x, s)
                | Inr same \<Rightarrow>
                    handled cl (sv_rename_s (cl_server cl) (cl_dn2str cl dn) (RDN_str (cl_dn2str cl) new_rdn)
                      (if same then None else Some (cl_dn2str cl (py_slice new_dn (Some 1) None))) del_old s))))"

definition client_modify_s :: "('v, 's) client \<Rightarrow> raw_dn \<Rightarrow> ldap_mod list \<Rightarrow> 's \<Rightarrow> unit res \<times> 's" where
  "client_modify_s cl dn modlist s =
     (case sv_modify_s (cl_server cl) (cl_dn2str cl dn) modlist s of
        (Inl x, s') \<Rightarrow> (Inl (raw_exc x), s')
      | (Inr _, s') \<Rightarrow> (Inr (), s'))"

definition make_dn_from_attr :: "('v, 's) client \<Rightarrow> string \<Rightarrow> ava_input list \<Rightarrow> raw_dn option \<Rightarrow> raw_dn res" where
  "make_dn_from_attr cl attr values parent_dn =
     rbind (py_nth values 0) (\<lambda>v.
       DN_init (cl_lib cl) [ASeq [IStr attr, v], ADN (case parent_dn of None \<Rightarrow> [] | Some d \<Rightarrow> d)])"

definition make_dn :: "('v, 's) client \<Rightarrow> (string \<times> ava_input) list \<Rightarrow> string \<Rightarrow> raw_dn \<Rightarrow> raw_dn res" where
  "make_dn cl entry_attrs primary_key parent_dn =
     (case map_of entry_attrs primary_key of
        None \<Rightarrow> Inl (AssertionError ''primary_key in entry_attrs'')
      | Some v \<Rightarrow> DN_init (cl_lib cl) [ASeq [IStr primary_key, v], ADN parent_dn])"

section \<open>Searches return\<close>

text \<open>
  What a server sends for one search, read message by message (\<open>result3\<close> with \<open>all = 0\<close>): one
  entry or one referral in each message, then a final message with its controls.
\<close>

inductive sends :: "'s server \<Rightarrow> int \<Rightarrow> 's \<Rightarrow> (string \<times> ldap_attrs) list \<Rightarrow> control list \<Rightarrow> 's \<Rightarrow> bool"
  for sv mid where
  final_message: "sv_result3 sv mid s = (Inr m, s') \<Longrightarrow> sm_final m \<Longrightarrow> sends sv mid s [] (sm_controls m) s'"
| entry_message: "sv_result3 sv mid s = (Inr m, s1) \<Longrightarrow> \<not> sm_final m \<Longrightarrow> sm_list m = [(Some d, al)] \<Longrightarrow>
    sends sv mid s1 xs c s' \<Longrightarrow> sends sv mid s ((d, al) # xs) c s'"
| referral_message: "sv_result3 sv mid s = (Inr m, s1) \<Longrightarrow> \<not> sm_final m \<Longrightarrow> sm_list m = [(None, al)] \<Longrightarrow>
    sends sv mid s1 xs c s' \<Longrightarrow> sends sv mid s xs c s'"

definition converts :: "('v, 's) client \<Rightarrow> (string \<times> ldap_attrs) list \<Rightarrow> 'v ldap_entry list \<Rightarrow> bool" where
  "converts cl = list_all2 (\<lambda>(d, al) e. convert_entry cl d al = Inr e)"

text \<open>
  The paged results control of RFC 2696. What a request asks for, apart from its limits and its
  controls, is its key. A server that holds the entries \<open>found\<close> for a key answers a request for
  a page of at most \<open>n\<close> entries, with the cookie of a position, by a page from that position on,
  and by the cookie of the position after it, which is empty at the end; the empty cookie stands
  for the beginning. That no limit is reached is part of the law.
\<close>

type_synonym search_key = "string \<times> scope \<times> string \<times> string set option"

definition request_key :: "search_req \<Rightarrow> search_key" where
  "request_key rq = (rq_base rq, rq_scope rq, rq_filter rq, map_option set (rq_attrs rq))"

definition is_paged :: "control \<Rightarrow> bool" where
  "is_paged c = (case c of PagedResults _ _ \<Rightarrow> True | _ \<Rightarrow> False)"

definition paging_law ::
    "'s server \<Rightarrow> search_key \<Rightarrow> (string \<times> ldap_attrs) list \<Rightarrow> ('s \<Rightarrow> string \<Rightarrow> nat option) \<Rightarrow> bool" where
  "paging_law sv key found pos \<longleftrightarrow> (\<forall>s. pos s [] = Some 0) \<and>
     (\<forall>rq n c s k. request_key rq = key \<longrightarrow> rq_controls rq = Some [PagedResults n c] \<longrightarrow> 0 < n \<longrightarrow>
        (rq_sizelimit rq \<le> 0 \<or> int (length found) \<le> rq_sizelimit rq) \<longrightarrow> pos s c = Some k \<longrightarrow>
        (\<exists>mid s1 m tot c' ctrls s2. sv_search_ext sv rq s = (Inr mid, s1) \<and>
           m \<le> nat n \<and> (k < length found \<longrightarrow> 0 < m) \<and>
           sends sv mid s1 (take m (drop k found)) ctrls s2 \<and> filter is_paged ctrls = [PagedResults tot c'] \<and>
           (if length found \<le> k + m then c' = [] else c' \<noteq> [] \<and> pos s2 c' = Some (k + m))))"

lemma read_results_sends:
  assumes "sends (cl_server cl) mid s xs c s'" and "converts cl xs es"
  shows "read_results cl mid res s = Some (Inr c, res @ es, s')"
  using assms
proof (induction arbitrary: res es rule: sends.induct)
  case (final_message s m s')
  then show ?case by (subst read_results.simps) (simp add: converts_def)
next
  case (entry_message s m s1 d al xs c s')
  from entry_message.prems obtain e es' where e: "es = e # es'" "convert_entry cl d al = Inr e" "converts cl xs es'"
    by (auto simp: converts_def list_all2_Cons1)
  with entry_message.hyps(1-3) entry_message.IH [OF e(3), of "res @ [e]"] show ?case
    by (subst read_results.simps) simp
next
  case (referral_message s m s1 al xs c s')
  with referral_message.IH [OF referral_message.prems, of res] show ?case by (subst read_results.simps) simp
qed

lemma page_cookie_filter: "filter is_paged c = [PagedResults tot cookie] \<Longrightarrow> page_cookie c = cookie"
proof (induction c)
  case (Cons x c)
  then show ?case by (cases x) (simp_all add: is_paged_def)
qed simp

text \<open>From the cookie of a position on, the loop returns with the entries from there to the end.\<close>

lemma search_pages_from:
  assumes law: "paging_law (cl_server cl) key found pos"
    and mk: "\<And>cookie. request_key (mk cookie) = key \<and> rq_controls (mk cookie) = Some [PagedResults n cookie] \<and>
      (rq_sizelimit (mk cookie) \<le> 0 \<or> int (length found) \<le> rq_sizelimit (mk cookie))" and n: "0 < n"
  shows "pos s cookie = Some k \<Longrightarrow> converts cl (drop k found) es \<Longrightarrow>
    \<exists>s'. search_pages cl mk cancel True cookie res s = Some (Inr NotTruncated, res @ es, s')"
proof (induction "length found - k" arbitrary: k cookie res es s rule: less_induct)
  case less
  from law [unfolded paging_law_def, THEN conjunct2, rule_format, of "mk cookie" n cookie s k] mk n less.prems(1)
  obtain mid s1 m tot c' ctrls s2 where p: "sv_search_ext (cl_server cl) (mk cookie) s = (Inr mid, s1)"
      "k < length found \<longrightarrow> 0 < m" "sends (cl_server cl) mid s1 (take m (drop k found)) ctrls s2"
      "filter is_paged ctrls = [PagedResults tot c']"
      "if length found \<le> k + m then c' = [] else c' \<noteq> [] \<and> pos s2 c' = Some (k + m)" by blast
  have es: "converts cl (take m (drop k found)) (take m es)" "converts cl (drop (k + m) found) (drop m es)"
    using list_all2_takeI [OF less.prems(2) [unfolded converts_def], of m]
      list_all2_dropI [OF less.prems(2) [unfolded converts_def], of m]
    by (simp_all add: converts_def add.commute)
  note step = search_pages.simps [of cl mk cancel True cookie res s]
    p(1) read_results_sends [OF p(3) es(1)] page_cookie_filter [OF p(4)] Let_def
  show ?case
  proof (cases "length found \<le> k + m")
    case True
    then have "drop m es = []" using list_all2_lengthD [OF es(2) [unfolded converts_def]] by simp
    then have "take m es = es" by simp
    with True p(5) show ?thesis by (simp add: step)
  next
    case False
    then have "length found - (k + m) < length found - k" using p(2) by simp
    from less.hyps [OF this _ es(2), of s2 c' "res @ take m es"] p(5) False show ?thesis by (simp add: step)
  qed
qed

text \<open>An unpaged search is one round, whatever cookie the server sends.\<close>

lemma search_unpaged_sends:
  assumes "sv_search_ext (cl_server cl) (mk cookie) s = (Inr mid, s1)" "sends (cl_server cl) mid s1 xs c s'" "converts cl xs es"
  shows "search_pages cl mk cancel False cookie res s = Some (Inr NotTruncated, res @ es, s')"
  using assms by (subst search_pages.simps) (simp add: read_results_sends [OF assms(2,3)] Let_def)

lemma find_entries_nonempty:
  assumes "find_entries cl sa s = Some (Inr (es, NotTruncated), s')"
  shows "es \<noteq> []"
  using assms by (auto simp: find_entries_def Let_def split: prod.splits sum.splits option.splits if_splits)

lemma get_entries_nonempty:
  assumes "get_entries cl sa s = Some (Inr es, s')"
  shows "es \<noteq> []"
proof -
  from assms obtain t where t: "find_entries cl sa s = Some (Inr (es, t), s')" "handle_truncated_result t = Inr ()"
    by (auto simp: get_entries_def rbind_def split: option.splits sum.splits prod.splits)
  then have "t = NotTruncated" by (cases t) (auto simp: handle_truncated_result_def)
  with t show ?thesis by (auto dest: find_entries_nonempty)
qed

section \<open>Settled entries\<close>

text \<open>An attribute is settled when its raw list is built and agrees with the last synchronisation.\<close>

definition settled :: "'v ldap_entry \<Rightarrow> string \<Rightarrow> bool" where
  "settled e n \<longleftrightarrow>
     (\<exists>l. map_of (le_raw e) n = Some (Some l) \<and>
        (map_of (le_nice e) n = Some None \<or>
         (\<exists>ns. map_of (le_nice e) n = Some (Some ns) \<and> sync_record e n = (ns, l))))"

lemma settled_frame: "entry_frame K e e' \<Longrightarrow> n \<notin> K \<Longrightarrow> settled e' n \<longleftrightarrow> settled e n"
  by (simp add: entry_frame_def settled_def)

lemma get_raw_Some:
  "ci_lookup (le_names e) a = Some name \<Longrightarrow> get_raw conn (ANamed a) e =
     act_bind (act_read (\<lambda>e. dict_list (le_raw e) name)) (\<lambda>_.
     act_bind (sync_unless_None le_nice conn name) (\<lambda>_.
     act_read (\<lambda>e. dict_list (le_raw e) name))) (e\<lparr>le_raw := fill_None name (le_raw e)\<rparr>)"
  by (simp add: get_raw_def act_defs get_attr_name_def attr_name_def ci_getitem_lookup)

lemma sync_attr_settles:
  assumes "sync_attr conn name e = (Inr u, e')"
  shows "settled e' name"
proof -
  obtain nice raw where nr: "dict_list (le_nice e) name = Inr nice" "dict_list (le_raw e) name = Inr raw"
    using assms by (auto simp: sync_attr_def split: sum.splits)
  then have m: "map_of (le_nice e) name = Some (Some nice)" "map_of (le_raw e) name = Some (Some raw)"
    by (auto simp: dict_list_def split: option.splits)
  show ?thesis
  proof (cases "(nice, raw) = sync_record e name")
    case True
    then show ?thesis using assms nr m by (auto simp: sync_attr_def Let_def settled_def)
  next
    case False
    obtain r l where "sync_lists conn name (sync_record e name) (nice, raw) = (r, l)" by (rule prod.exhaust)
    then show ?thesis using assms nr False
      by (cases r) (auto simp: sync_attr_def Let_def settled_def set_lists_def update_conv')
  qed
qed

lemma get_raw_settles:
  assumes "ci_lookup (le_names e) a = Some name" "get_raw conn (ANamed a) e = (Inr l, e')"
  shows "settled e' name"
proof -
  let ?e = "e\<lparr>le_raw := fill_None name (le_raw e)\<rparr>"
  obtain u where u: "sync_unless_None le_nice conn name ?e = (Inr u, e')" and l: "dict_list (le_raw e') name = Inr l"
    using assms(2) unfolding get_raw_Some [OF assms(1)] by (auto simp: act_read_def elim!: act_bind_InrE)
  have raw: "map_of (le_raw e') name = Some (Some l)" using l by (auto simp: dict_list_def split: option.splits)
  show ?thesis
  proof (cases "map_of (le_nice ?e) name")
    case (Some nice)
    show ?thesis
    proof (cases nice)
      case None
      then show ?thesis using Some u raw by (auto simp: sync_unless_None_def settled_def)
    next
      case (Some ns)
      then have "sync_attr conn name ?e = (Inr u, e')"
        using \<open>map_of (le_nice ?e) name = Some nice\<close> u by (simp add: sync_unless_None_def)
      then show ?thesis by (rule sync_attr_settles)
    qed
  qed (use u in \<open>simp add: sync_unless_None_def\<close>)
qed

lemma get_raw_settled:
  assumes "ci_lookup (le_names e) a = Some name" "settled e name"
  shows "\<exists>e'. get_raw conn (ANamed a) e = (Inr (raw_of e name), e') \<and> entry_frame {} e e'"
proof -
  obtain l where l: "map_of (le_raw e) name = Some (Some l)"
    and nice: "map_of (le_nice e) name = Some None \<or>
      (\<exists>ns. map_of (le_nice e) name = Some (Some ns) \<and> sync_record e name = (ns, l))"
    using assms(2) by (auto simp: settled_def)
  have same: "e\<lparr>le_raw := fill_None name (le_raw e)\<rparr> = e" using l by (simp add: fill_None_def)
  have "\<exists>e'. sync_unless_None le_nice conn name e = (Inr (), e') \<and> entry_frame {} e e'"
    using nice l by (auto simp: sync_unless_None_def sync_attr_def dict_list_def Let_def entry_frame_def)
  then obtain e' where e': "sync_unless_None le_nice conn name e = (Inr (), e')" "entry_frame {} e e'" by blast
  moreover have "dict_list (le_raw e') name = Inr l" using e'(2) l by (simp add: entry_frame_def dict_list_def)
  ultimately show ?thesis
    unfolding get_raw_Some [OF assms(1)] same
    using l by (auto simp: act_bind_def act_read_def dict_list_def raw_of_def)
qed

lemma frame_trans: "entry_frame K e e1 \<Longrightarrow> entry_frame K e1 e2 \<Longrightarrow> entry_frame K e e2"
  by (rule frame.R_trans)

lemma frame_empty_mono: "entry_frame {} e e' \<Longrightarrow> entry_frame K e e'"
  by (simp add: entry_frame_def)

lemma frame_names: "entry_frame K e e' \<Longrightarrow> le_names e' = le_names e"
  and frame_orig: "entry_frame K e e' \<Longrightarrow> le_orig_raw e' = le_orig_raw e"
  by (simp_all add: entry_frame_def)

lemma raw_of_frame_empty: "entry_frame {} e e' \<Longrightarrow> raw_of e' = raw_of e"
  by (rule ext) (simp add: entry_frame_def raw_of_def)

lemma modlist_loop_settles:
  assumes "entry_ok e" "codec_errors conn" "keys_named e" "distinct ns"
    and "\<forall>n \<in> set ns. ci_lookup (le_names e) n \<in> {None, Some n}"
    and "modlist_loop conn ns e = (Inr ml, e')"
  shows "\<forall>n \<in> set ns. ci_lookup (le_names e) n = Some n \<longrightarrow> settled e' n"
  using assms
proof (induction ns arbitrary: e ml)
  case (Cons n ns)
  obtain new e1 ms rest where g: "raw_get conn n e = (Inr new, e1)"
    and loop: "modlist_loop conn ns e1 = (Inr rest, e')"
    using Cons.prems(6)
    by (auto simp: act_read_def act_ret_def elim!: act_bind_InrE)
  have f: "entry_frame {n} e e1"
    using raw_get_result [OF Cons.prems(1-3) _ g] Cons.prems(5) by auto
  note f1 = frame_named [OF f]
  have ok1: "entry_ok e1" using entry_inv.keepsD [OF keeps_raw_get g] Cons.prems(1) by simp
  have tail: "entry_frame (set ns) e1 e'"
    using modlist_loop_result [OF ok1 Cons.prems(2) _ _ _ loop] Cons.prems(3-5) f1 by auto
  have IH: "\<forall>n \<in> set ns. ci_lookup (le_names e1) n = Some n \<longrightarrow> settled e' n"
    using Cons.prems(3-5) f1 by (intro Cons.IH [OF ok1 Cons.prems(2) _ _ _ loop]) auto
  have "settled e' n" if n: "ci_lookup (le_names e) n = Some n"
  proof -
    obtain r e2 where gr: "get_raw conn (ANamed n) e = (r, e2)" by (rule prod.exhaust)
    have "r = Inr new \<and> e2 = e1"
      using g gr get_raw_error [OF Cons.prems(1,2) n]
      by (cases r) (auto simp: raw_get_def split: pyexc.splits)
    then have "settled e1 n" using get_raw_settles [OF n] gr by simp
    then show ?thesis using settled_frame [OF tail, of n] Cons.prems(4) by simp
  qed
  with IH f1(2) show ?case by simp
qed simp

lemma raw_view_items_settled:
  assumes "\<forall>n \<in> set ns. ci_lookup (le_names e) n = Some n \<and> settled e n"
  shows "\<exists>e'. raw_view_items conn ns e = (Inr (map (\<lambda>n. (n, raw_of e n)) ns), e') \<and> entry_frame {} e e'"
  using assms
proof (induction ns arbitrary: e)
  case Nil
  then show ?case by (simp add: act_defs)
next
  case (Cons n ns)
  obtain e1 where e1: "get_raw conn (ANamed n) e = (Inr (raw_of e n), e1)" "entry_frame {} e e1"
    using get_raw_settled [of e n n conn] Cons.prems by auto
  have "\<forall>n \<in> set ns. ci_lookup (le_names e1) n = Some n \<and> settled e1 n"
    using Cons.prems settled_frame [OF e1(2)] frame_names [OF e1(2)] by simp
  then obtain e2 where e2: "raw_view_items conn ns e1 = (Inr (map (\<lambda>n. (n, raw_of e1 n)) ns), e2)" "entry_frame {} e1 e2"
    using Cons.IH by blast
  have "entry_frame {} e e2" using e1(2) e2(2) by (rule frame_trans)
  then show ?case
    using e1 e2(1) by (simp add: act_defs raw_of_frame_empty [OF e1(2)])
qed

lemma modlist_loop_unchanged:
  assumes "\<forall>n \<in> set ns. ci_lookup (le_names e) n = Some n \<and> settled e n \<and> orig_of e n = raw_of e n"
  shows "\<exists>e'. modlist_loop conn ns e = (Inr [], e') \<and> entry_frame {} e e'"
  using assms
proof (induction ns arbitrary: e)
  case Nil
  then show ?case by (simp add: act_defs)
next
  case (Cons n ns)
  obtain e1 where e1: "get_raw conn (ANamed n) e = (Inr (raw_of e n), e1)" "entry_frame {} e e1"
    using get_raw_settled [of e n n conn] Cons.prems by auto
  have orig: "orig_of e1 = orig_of e" using frame_named(3) [OF e1(2)] .
  have "\<forall>n \<in> set ns. ci_lookup (le_names e1) n = Some n \<and> settled e1 n \<and> orig_of e1 n = raw_of e1 n"
    using Cons.prems settled_frame [OF e1(2)] frame_names [OF e1(2)] by (simp add: orig raw_of_frame_empty [OF e1(2)])
  then obtain e2 where e2: "modlist_loop conn ns e1 = (Inr [], e2)" "entry_frame {} e1 e2"
    using Cons.IH by blast
  have "attr_mods conn n (raw_of e n) (orig_of e1 n) = Inr []"
    using Cons.prems by (simp add: orig attr_mods_def)
  then show ?case
    using e1(1) e2 frame_trans [OF e1(2) e2(2)]
    by (simp add: act_defs raw_get_def orig_of_def)
qed

lemma map_of_raw_pairs: "map_of (map (\<lambda>n. (n, f n)) ns) k = (if k \<in> set ns then Some (f k) else None)"
  by (induction ns) auto

text \<open>After a reset the original values are the values, and there is nothing to modify.\<close>

lemma reset_settled:
  assumes named: "keys_named e" and set: "\<forall>n \<in> fst ` set (le_nice e). settled e n" and it: "iters_ok conn"
  shows "\<exists>e' e''. reset_modlist conn e = (Inr (), e') \<and> raw_of e' = raw_of e \<and>
    (\<forall>n \<in> fst ` set (le_nice e). orig_of e' n = raw_of e n) \<and>
    (\<forall>n. n \<notin> fst ` set (le_nice e) \<longrightarrow> orig_of e' n = []) \<and>
    generate_modlist conn e' = (Inr [], e'')"
proof -
  let ?ns = "entry_iter e"
  have ns: "set ?ns = fst ` set (le_nice e)" by (simp add: entry_iter_def)
  obtain e1 where e1: "raw_view_items conn ?ns e = (Inr (map (\<lambda>n. (n, raw_of e n)) ?ns), e1)" "entry_frame {} e e1"
    using raw_view_items_settled [of ?ns e conn] named set ns by auto
  let ?e = "e1\<lparr>le_orig_raw := map (\<lambda>n. (n, raw_of e n)) ?ns\<rparr>"
  have reset: "reset_modlist conn e = (Inr (), ?e)" using e1(1) by (simp add: reset_modlist_def act_defs)
  have raw: "raw_of ?e = raw_of e" using raw_of_frame_empty [OF e1(2)] by (simp add: raw_of_def fun_eq_iff)
  have orig: "orig_of ?e n = (if n \<in> set ?ns then raw_of e n else [])" for n
    by (simp add: orig_of_def map_of_raw_pairs)
  have keys: "entry_iter ?e = ?ns" using e1(2) by (simp add: entry_frame_def entry_iter_def)
  let ?names = "c_iter_names conn (set (entry_iter ?e) \<union> fst ` set (le_orig_raw ?e))"
  have names: "set ?names = set ?ns"
    using it by (simp add: iters_ok_def set_iter_set keys image_image)
  have "\<forall>n \<in> set ?names. ci_lookup (le_names ?e) n = Some n \<and> settled ?e n \<and> orig_of ?e n = raw_of ?e n"
  proof
    fix n assume "n \<in> set ?names"
    then have n: "n \<in> set ?ns" using names by simp
    have "settled ?e n = settled e n" using settled_frame [OF e1(2), of n] by (simp add: settled_def)
    then show "ci_lookup (le_names ?e) n = Some n \<and> settled ?e n \<and> orig_of ?e n = raw_of ?e n"
      using n bspec [OF named, of n] bspec [OF set, of n] frame_names [OF e1(2)]
      by (simp add: orig raw ns del: image_iff)
  qed
  then obtain e2 where "modlist_loop conn ?names ?e = (Inr [], e2)"
    using modlist_loop_unchanged [of ?names ?e conn] by blast
  then have gen: "generate_modlist conn ?e = (Inr [], e2)" by (simp add: generate_modlist_def act_defs)
  show ?thesis
    by (rule exI [of _ ?e], rule exI [of _ e2]) (use reset raw orig gen in \<open>simp add: ns\<close>)
qed

section \<open>Properties\<close>

text \<open>The key a search is meant to have: the base, the filter or its default, the lowered attribute names.\<close>

definition asked :: "search_args \<Rightarrow> ('v, 's) client \<Rightarrow> search_key" where
  "asked sa cl =
     (cl_dn2str cl (case sa_base sa of None \<Rightarrow> [] | Some d \<Rightarrow> d), sa_scope sa,
      (if sa_filter sa \<in> {None, Some []} then ''(objectClass=*)'' else the (sa_filter sa)),
      map_option (\<lambda>l. py_lower ` set l) (sa_attrs sa))"

definition limit_of :: "search_args \<Rightarrow> ('v, 's) client \<Rightarrow> int" where
  "limit_of sa cl = (if sa_size_limit sa = None then cl_size_limit cl else the (sa_size_limit sa))"

lemma page_request_asks:
  assumes "iters_ok (cl_conn cl)"
  shows "request_key (page_request sa cl [] True n cookie) = asked sa cl"
    "rq_controls (page_request sa cl [] True n cookie) = Some [PagedResults n cookie]"
    "rq_sizelimit (page_request sa cl [] True n cookie) = limit_of sa cl"
proof -
  have "set (c_iter_names (cl_conn cl) (set l)) = set l" for l using assms by (simp add: iters_ok_def set_iter_set)
  then show "request_key (page_request sa cl [] True n cookie) = asked sa cl"
    by (auto simp: request_key_def page_request_def search_request_def asked_def option.map_comp comp_def image_image
        split: option.splits if_splits intro!: option.map_cong)
qed (auto simp: page_request_def search_request_def limit_of_def split: option.splits)

text \<open>
  C15: A paged search without effective rights returns, with every entry. The server is only
  assumed to implement the paged results control: a request with the cookie of a position gets at
  most the entries asked for from that position on, and the cookie of the position after them. If
  the search holds the entries \<open>found\<close>, the size limit is not below their number and not one (the
  code then searches without pages), and the entries can be converted, then \<open>find_entries\<close> returns all of them, converted, once each and in order, and not
  truncated, and \<open>get_entries\<close> the same list; if there is none both raise \<open>EmptyResult\<close>.
\<close>

theorem paged_search_returns_all:
  assumes "sa_paged sa" and "limit_of sa cl \<noteq> 1" and "\<not> sa_rights sa" and "iters_ok (cl_conn cl)"
    and "paging_law (cl_server cl) (asked sa cl) found pos"
    and "limit_of sa cl \<le> 0 \<or> int (length found) \<le> limit_of sa cl"
    and "converts cl found es"
  shows "\<exists>s'. find_entries cl sa s =
      Some (if found = [] then Inl (PublicError ''EmptyResult'' ''no matching entry found'') else Inr (es, NotTruncated), s') \<and>
    get_entries cl sa s =
      Some (if found = [] then Inl (PublicError ''EmptyResult'' ''no matching entry found'') else Inr es, s')"
proof -
  have size: "0 < page_size sa cl"
    using assms(2) by (auto simp: page_size_def limit_of_def Let_def split: option.splits)
  let ?mk = "page_request sa cl [] True (page_size sa cl)"
  have start: "pos s [] = Some 0" using assms(5) by (simp add: paging_law_def)
  obtain s' where "search_pages cl ?mk (cancel_request sa cl) True [] [] s = Some (Inr NotTruncated, es, s')"
    using search_pages_from [OF assms(5) _ size start, of ?mk es "cancel_request sa cl" "[]"] assms(6,7)
    by (auto simp: page_request_asks [OF assms(4)])
  moreover have "es = [] \<longleftrightarrow> found = []" using list_all2_lengthD [OF assms(7) [unfolded converts_def]] by auto
  ultimately have "find_entries cl sa s = Some (if found = []
      then Inl (PublicError ''EmptyResult'' ''no matching entry found'') else Inr (es, NotTruncated), s')"
    using assms(1,3) size by (simp add: find_entries_def search_controls_def Let_def)
  then show ?thesis by (auto simp: get_entries_def handle_truncated_result_def)
qed

text \<open>
  A server that holds a list of entries and serves it in pages: its state is what is left to send
  and the cookie to end with; the cookie of a position has its length.
\<close>

definition page_server :: "(string \<times> ldap_attrs) list \<Rightarrow> ((string \<times> ldap_attrs) list \<times> string) server" where
  "page_server entries =
     \<lparr>sv_search_ext = (\<lambda>rq s. case rq_controls rq of
          Some [PagedResults n c] \<Rightarrow>
            (Inr 1, take (nat n) (drop (length c) entries),
             if length entries \<le> length c + nat n then [] else replicate (length c + nat n) CHR ''x'')
        | _ \<Rightarrow> (Inr 1, entries, [])),
      sv_result3 = (\<lambda>_ s. case s of
          ([], c) \<Rightarrow> (Inr \<lparr>sm_final = True, sm_list = [], sm_controls = [PagedResults 0 c]\<rparr>, ([], c))
        | ((d, al) # xs, c) \<Rightarrow> (Inr \<lparr>sm_final = False, sm_list = [(Some d, al)], sm_controls = []\<rparr>, (xs, c))),
      sv_search_ext_s = (\<lambda>_ s. (Inr (), s)),
      sv_whoami_s = (\<lambda>s. (Inr ''dn: '', s)),
      sv_add_s = (\<lambda>_ _ s. (Inr (), s)),
      sv_modify_s = (\<lambda>_ _ s. (Inr (), s)),
      sv_delete_s = (\<lambda>_ s. (Inr (), s)),
      sv_rename_s = (\<lambda>_ _ _ _ s. (Inr (), s))\<rparr>"

lemma page_server_sends: "sends (page_server entries) mid (xs, c) xs [PagedResults 0 c] ([], c)"
proof (induction xs)
  case Nil
  show ?case using final_message [of "page_server entries" mid "([], c)"] by (simp add: page_server_def)
next
  case (Cons x xs)
  obtain d al where x: "x = (d, al)" by (cases x)
  show ?case
    unfolding x by (rule entry_message [where m = "\<lparr>sm_final = False, sm_list = [(Some d, al)], sm_controls = []\<rparr>",
          OF _ _ _ Cons.IH]) (simp_all add: page_server_def)
qed

lemma page_server_law: "paging_law (page_server entries) key entries (\<lambda>_ c. Some (length c))"
  unfolding paging_law_def
proof (intro conjI allI impI)
  fix rq :: search_req and n c s k
  assume ctl: "rq_controls rq = Some [PagedResults n c]" and n: "0 < n"
    and k: "(\<lambda>_ c. Some (length c)) s c = Some k"
  let ?c = "if length entries \<le> k + nat n then [] else replicate (k + nat n) CHR ''x''"
  have "sv_search_ext (page_server entries) rq s = (Inr 1, take (nat n) (drop k entries), ?c)"
    using k by (simp add: page_server_def ctl)
  moreover have "filter is_paged [PagedResults 0 ?c] = [PagedResults 0 ?c]" by (simp add: is_paged_def)
  moreover have "if length entries \<le> k + nat n then ?c = [] else ?c \<noteq> [] \<and> Some (length ?c) = Some (k + nat n)"
    using n by simp
  moreover have "0 < nat n" using n by simp
  ultimately show "\<exists>mid s1 m tot c' ctrls s2. sv_search_ext (page_server entries) rq s = (Inr mid, s1) \<and>
      m \<le> nat n \<and> (k < length entries \<longrightarrow> 0 < m) \<and>
      sends (page_server entries) mid s1 (take m (drop k entries)) ctrls s2 \<and> filter is_paged ctrls = [PagedResults tot c'] \<and>
      (if length entries \<le> k + m then c' = [] else c' \<noteq> [] \<and> Some (length c') = Some (k + m))"
    using page_server_sends by blast
qed simp

definition sample_client :: "'s server \<Rightarrow> (string, 's) client" where
  "sample_client sv =
     \<lparr>cl_conn = plain_conn, cl_server = sv,
      cl_lib = \<lparr>lib_str2dn = (\<lambda>s. Some [[(''cn'', s, 1)]]), lib_dotted = (\<lambda>_. [])\<rparr>,
      cl_dn2str = (\<lambda>d. concat (map (\<lambda>(_, v, _). v) (concat d))), cl_escape = id, cl_uri = ''ldap://'',
      cl_time_limit = 0, cl_size_limit = 0\<rparr>"

definition sample_search :: search_args where
  "sample_search =
     \<lparr>sa_filter = None, sa_attrs = None, sa_base = None, sa_scope = SCOPE_SUBTREE, sa_time_limit = None,
      sa_size_limit = Some 3, sa_paged = True, sa_rights = False\<rparr>"

text \<open>Three entries in pages of two.\<close>

theorem paged_search_returns_all_witness:
  "\<exists>s' es. find_entries (sample_client (page_server [(''a'', []), (''b'', []), (''c'', [])])) sample_search ([], [])
     = Some (Inr (es, NotTruncated), s') \<and> map le_dn es = [[[(''cn'', ''a'', 1)]], [[(''cn'', ''b'', 1)]], [[(''cn'', ''c'', 1)]]]"
proof -
  let ?found = "[(''a'', []), (''b'', []), (''c'', [])]"
  let ?cl = "sample_client (page_server ?found)"
  let ?es = "map (\<lambda>d. entry_empty [[(''cn'', d, 1)]]) [''a'', ''b'', ''c'']"
  have "convert_entry ?cl ''a'' [] = Inr (entry_empty [[(''cn'', ''a'', 1)]])"
    "convert_entry ?cl ''b'' [] = Inr (entry_empty [[(''cn'', ''b'', 1)]])"
    "convert_entry ?cl ''c'' [] = Inr (entry_empty [[(''cn'', ''c'', 1)]])"
    by code_simp+
  then have conv: "converts ?cl ?found ?es" by (simp add: converts_def)
  have srv: "cl_server ?cl = page_server ?found" "cl_conn ?cl = plain_conn" by (simp_all add: sample_client_def)
  have args: "sa_paged sample_search" "limit_of sample_search ?cl \<noteq> 1" "\<not> sa_rights sample_search"
    "limit_of sample_search ?cl \<le> 0 \<or> int (length ?found) \<le> limit_of sample_search ?cl"
    by (simp_all add: sample_search_def limit_of_def)
  have it: "iters_ok (cl_conn ?cl)" unfolding srv by (rule plain_conn_ok(2))
  have law: "paging_law (cl_server ?cl) (asked sample_search ?cl) ?found (\<lambda>_ c. Some (length c))"
    unfolding srv by (rule page_server_law)
  from paged_search_returns_all [OF args(1,2,3) it law args(4) conv, of "([], [])"]
  show ?thesis by (auto simp: entry_empty_def)
qed

text \<open>
  What a directory server does with a modification: it applies it to the values of the entry, or
  reports an error and changes nothing.
\<close>

definition modify_law :: "'s server \<Rightarrow> ('s \<Rightarrow> string \<Rightarrow> string \<Rightarrow> bytes set) \<Rightarrow> bool" where
  "modify_law sv db \<longleftrightarrow>
     (\<forall>d ml s. case sv_modify_s sv d ml s of
        (Inr _, s') \<Rightarrow> (\<exists>vals. apply_mods ml (db s d) = Some vals \<and> db s' = (db s)(d := vals))
      | (Inl x, s') \<Rightarrow> db s' = db s \<and> (\<exists>cls desc info. x = LDAPError cls desc info \<and> cls \<noteq> SUCCESS))"

lemma error_handler_raises:
  "cls \<noteq> SUCCESS \<Longrightarrow> \<exists>c m. error_handler uri arg (LDAPError cls desc info) = Inl (PublicError c m) \<and> c \<noteq> ''EmptyModlist''"
  by (cases cls) (simp_all add: error_handler_def Let_def)

lemma generate_modlist_settles:
  assumes "entry_reach conn e" "codec_errors conn" "iters_ok conn" "schema_names_ok conn"
    and "generate_modlist conn e = (Inr ml, e')"
  shows "keys_named e'" "\<forall>n \<in> fst ` set (le_nice e'). settled e' n" "entry_frame UNIV e e'"
proof -
  let ?ns = "c_iter_names conn (set (entry_iter e) \<union> fst ` set (le_orig_raw e))"
  note ok = reach_ok [OF assms(1)] and names = modlist_names [OF assms(1,3,4)]
  obtain ml' where loop: "modlist_loop conn ?ns e = (Inr ml', e')"
    using assms(5) by (auto simp: generate_modlist_def act_read_def act_ret_def elim!: act_bind_InrE)
  show f: "entry_frame UNIV e e'" by (rule frame.keepsD [OF frame_UNIV_modlist assms(5)])
  show "keys_named e'" using names(1) frame_named(1) [OF f] by simp
  show "\<forall>n \<in> fst ` set (le_nice e'). settled e' n"
  proof
    fix n assume "n \<in> fst ` set (le_nice e')"
    then have n: "n \<in> fst ` set (le_nice e)"
      using f by (auto simp: entry_frame_def simp flip: set_map)
    have "n \<in> set ?ns" unfolding names(2) using n by (simp add: entry_iter_def)
    then show "settled e' n"
      using modlist_loop_settles [OF ok assms(2) names(1,3,4) loop] bspec [OF names(1) n] by blast
  qed
qed

lemma reset_after_modlist:
  assumes "entry_reach conn e" "codec_errors conn" "iters_ok conn" "schema_names_ok conn"
    and "generate_modlist conn e = (Inr ml, e1)"
  obtains e2 e3 where "reset_modlist conn e1 = (Inr (), e2)" "raw_of e2 = raw_of e1"
    "orig_of e2 = raw_of e2" "generate_modlist conn e2 = (Inr [], e3)"
proof -
  note settles = generate_modlist_settles [OF assms]
  obtain e2 e3 where e2: "reset_modlist conn e1 = (Inr (), e2)" "raw_of e2 = raw_of e1"
    "\<forall>n \<in> fst ` set (le_nice e1). orig_of e2 n = raw_of e1 n"
    "\<forall>n. n \<notin> fst ` set (le_nice e1) \<longrightarrow> orig_of e2 n = []" "generate_modlist conn e2 = (Inr [], e3)"
    using reset_settled [OF settles(1,2) assms(3)] by blast
  have ok1: "entry_ok e1"
    using entry_inv.keepsD [OF keeps_generate_modlist assms(5)] reach_ok [OF assms(1)] by simp
  have "orig_of e2 n = raw_of e2 n" for n
  proof (cases "n \<in> fst ` set (le_nice e1)")
    case False
    then have "n \<notin> fst ` set (le_raw e1)" using arg_cong [OF entry_okD(2) [OF ok1], of set] by simp
    then have "raw_of e1 n = []" by (simp add: raw_of_def map_of_eq_None_iff [THEN iffD2])
    with False e2(2,4) show ?thesis by simp
  qed (use e2(2,3) in auto)
  then have "orig_of e2 = raw_of e2" by (rule ext)
  with e2 that show ?thesis by blast
qed

text \<open>
  C6: \<open>update_entry\<close> makes the server agree with the entry. For a reachable entry whose original
  values are those on the server and whose single-valued attributes hold at most one value: if it
  returns, the server holds exactly the values of the entry and nothing else has changed, the
  entry remembers them as its original values, and updating it again raises \<open>EmptyModlist\<close> and
  does not touch the server; if it raises, the server is unchanged, and when what it raises is
  \<open>EmptyModlist\<close> the server already holds the values of the entry.
\<close>

theorem update_entry_makes_server_agree:
  assumes "entry_reach (cl_conn cl) e" and "codec_errors (cl_conn cl)" and "iters_ok (cl_conn cl)"
    and "schema_names_ok (cl_conn cl)" and "modify_law (cl_server cl) db"
    and "db s (cl_dn2str cl (le_dn e)) = (\<lambda>n. set (orig_of e n))"
    and "\<forall>n. c_single_value (cl_conn cl) n = Some True \<longrightarrow> length (raw_of (snd (generate_modlist (cl_conn cl) e)) n) \<le> 1"
  shows "case update_entry cl (e, s) of
      (Inr _, e', s') \<Rightarrow>
        db s' = (db s)(cl_dn2str cl (le_dn e) := \<lambda>n. set (raw_of e' n)) \<and>
        (\<lambda>n. set (orig_of e' n)) = (\<lambda>n. set (raw_of e' n)) \<and>
        (\<exists>e''. update_entry cl (e', s') = (Inl (PublicError ''EmptyModlist'' []), e'', s'))
    | (Inl x, e', s') \<Rightarrow> db s' = db s \<and>
        (x = PublicError ''EmptyModlist'' [] \<longrightarrow> db s' (cl_dn2str cl (le_dn e)) = (\<lambda>n. set (raw_of e' n)))"
proof -
  let ?conn = "cl_conn cl" and ?d = "cl_dn2str cl (le_dn e)"
  note correct = generate_modlist_correct [OF assms(1-4)]
  obtain r e1 where g: "generate_modlist ?conn e = (r, e1)" by (rule prod.exhaust)
  show ?thesis
  proof (cases r)
    case (Inl x)
    with correct g have "x \<noteq> PublicError ''EmptyModlist'' []" by auto
    then show ?thesis using g Inl by (simp add: update_entry_def)
  next
    case (Inr ml)
    have app: "apply_mods ml (db s ?d) = Some (\<lambda>n. set (raw_of e1 n))"
      using correct g Inr assms(6,7) by simp
    show ?thesis
    proof (cases "ml = []")
      case True
      then show ?thesis using g Inr app by (simp add: update_entry_def)
    next
      case False
      obtain q s1 where m: "sv_modify_s (cl_server cl) ?d ml s = (q, s1)" by (rule prod.exhaust)
      have law: "case sv_modify_s (cl_server cl) ?d ml s of
          (Inr _, s') \<Rightarrow> (\<exists>vals. apply_mods ml (db s ?d) = Some vals \<and> db s' = (db s)(?d := vals))
        | (Inl x, s') \<Rightarrow> db s' = db s \<and> (\<exists>cls desc info. x = LDAPError cls desc info \<and> cls \<noteq> SUCCESS)"
        by (rule spec [OF spec [OF spec [OF assms(5) [unfolded modify_law_def]]]])
      show ?thesis
      proof (cases q)
        case (Inl y)
        then obtain cls desc info where "y = LDAPError cls desc info" "cls \<noteq> SUCCESS" and db: "db s1 = db s"
          using law m by auto
        then obtain c t where "error_handler (cl_uri cl) None y = Inl (PublicError c t)" "c \<noteq> ''EmptyModlist''"
          using error_handler_raises by blast
        then show ?thesis using g Inr False m Inl db by (simp add: update_entry_def handled_def)
      next
        case (Inr u)
        have db: "db s1 = (db s)(?d := \<lambda>n. set (raw_of e1 n))" using law m Inr app by auto
        note g1 = g [unfolded \<open>r = Inr ml\<close>]
        obtain e2 e3 where e2: "reset_modlist ?conn e1 = (Inr (), e2)" "raw_of e2 = raw_of e1"
          "orig_of e2 = raw_of e2" "generate_modlist ?conn e2 = (Inr [], e3)"
          by (rule reset_after_modlist [OF assms(1-4) g1])
        have "update_entry cl (e, s) = (Inr (), e2, s1)"
          using g1 False m Inr e2(1) by (simp add: update_entry_def handled_def)
        moreover have "update_entry cl (e2, s1) = (Inl (PublicError ''EmptyModlist'' []), e3, s1)"
          using e2(4) by (simp add: update_entry_def)
        ultimately show ?thesis using db e2(2,3) by simp
      qed
    qed
  qed
qed

text \<open>A server whose state is the values of its entries.\<close>

definition value_server :: "(string \<Rightarrow> string \<Rightarrow> bytes set) server" where
  "value_server =
     \<lparr>sv_search_ext = (\<lambda>_ s. (Inr 1, s)),
      sv_result3 = (\<lambda>_ s. (Inr \<lparr>sm_final = True, sm_list = [], sm_controls = []\<rparr>, s)),
      sv_search_ext_s = (\<lambda>_ s. (Inr (), s)),
      sv_whoami_s = (\<lambda>s. (Inr ''dn: '', s)),
      sv_add_s = (\<lambda>_ _ s. (Inr (), s)),
      sv_modify_s = (\<lambda>d ml s. case apply_mods ml (s d) of
          None \<Rightarrow> (Inl (LDAPError NO_SUCH_ATTRIBUTE [] []), s) | Some vals \<Rightarrow> (Inr (), s(d := vals))),
      sv_delete_s = (\<lambda>_ s. (Inr (), s)),
      sv_rename_s = (\<lambda>_ _ _ _ s. (Inr (), s))\<rparr>"

lemma value_server_law: "modify_law value_server id"
  by (auto simp: modify_law_def value_server_def split: option.split)

theorem update_entry_makes_server_agree_witness:
  "\<exists>e' s'. update_entry (sample_client value_server) (sample_entry, \<lambda>_ n. set (orig_of sample_entry n)) = (Inr (), e', s') \<and>
     s' [] = (\<lambda>n. set (raw_of e' n)) \<and>
     fst (update_entry (sample_client value_server) (e', s')) = Inl (PublicError ''EmptyModlist'' [])"
proof -
  let ?cl = "sample_client value_server" and ?s = "\<lambda>_ n. set (orig_of sample_entry n)"
  have cl: "cl_conn ?cl = plain_conn" "cl_server ?cl = value_server" by (simp_all add: sample_client_def)
  have reach: "entry_reach (cl_conn ?cl) sample_entry"
    unfolding cl sample_entry_def by (intro entry_reach.intros)
  have sch: "schema_names_ok plain_conn" "\<forall>n. c_single_value plain_conn n = None"
    by (simp_all add: schema_names_ok_def plain_conn_def)
  have dn: "cl_dn2str ?cl (le_dn sample_entry) = []" by code_simp
  have upd: "fst (update_entry ?cl (sample_entry, ?s)) = Inr ()" by code_simp
  obtain e' s' where u: "update_entry ?cl (sample_entry, ?s) = (Inr (), e', s')"
    using upd by (metis prod.collapse)
  show ?thesis
    using update_entry_makes_server_agree [where cl = ?cl and e = sample_entry and db = id and s = ?s, OF reach]
      plain_conn_ok sch value_server_law u by (fastforce simp: cl dn)
qed

end
