(* ===== verification/LDAP_Cache.thy ===== *)
theory LDAP_Cache
  imports LDAP_Client
begin

text \<open>
  The class \<open>LDAPCache\<close> of \<^verbatim>\<open>src/ipapython/ipaldap.py\<close>: an \<open>LDAPClient\<close> that keeps the entries and
  the "not found" errors it has read. The cache is an \<open>OrderedDict\<close> keyed by DN, here a list with
  the oldest entry first; two DNs are the same key when their comparison keys are equal
  (\<open>DN_eq_DN_keys\<close>). Logging is not modelled.
\<close>

section \<open>The cache\<close>

record 'v cache_entry =
  ce_entry :: "'v ldap_entry option"
  ce_attrs :: "string set"
  ce_exception :: "pyexc option"
  ce_all :: bool

record 'v ldap_cache =
  lc_cache :: "(raw_dn \<times> 'v cache_entry) list"
  lc_enable :: bool
  lc_size :: int
  lc_hits :: nat
  lc_misses :: nat

definition LDAPCache_init :: "bool \<Rightarrow> int \<Rightarrow> 'v ldap_cache" where
  "LDAPCache_init enable_cache cache_size =
     \<lparr>lc_cache = [], lc_enable = (enable_cache \<and> cache_size > 0), lc_size = cache_size, lc_hits = 0, lc_misses = 0\<rparr>"

definition same_dn :: "raw_dn \<Rightarrow> raw_dn \<Rightarrow> bool" where
  "same_dn d e \<longleftrightarrow> dn_keys d = dn_keys e"

definition cache_find :: "raw_dn \<Rightarrow> 'v ldap_cache \<Rightarrow> 'v cache_entry option" where
  "cache_find dn c = map_option snd (find (\<lambda>(d, _). same_dn d dn) (lc_cache c))"

definition remove_cache_entry :: "raw_dn \<Rightarrow> 'v ldap_cache \<Rightarrow> 'v ldap_cache" where
  "remove_cache_entry dn c = c\<lparr>lc_cache := filter (\<lambda>(d, _). \<not> same_dn d dn) (lc_cache c)\<rparr>"

definition clear_cache :: "'v ldap_cache \<Rightarrow> 'v ldap_cache" where
  "clear_cache c = c\<lparr>lc_cache := [], lc_hits := 0, lc_misses := 0\<rparr>"

definition BANNED_ATTRS :: "string list" where
  "BANNED_ATTRS = [''idnsname'', ''cospriority'', ''usercertificate'', ''usercertificate;binary'']"

definition in_subtree :: "('v, 's) client \<Rightarrow> string \<Rightarrow> raw_dn \<Rightarrow> bool res" where
  "in_subtree cl text dn = rbind (DN_init (cl_lib cl) [AStr text]) (\<lambda>base. DN_contains dn (ADN base))"

definition not_cacheable :: "('v, 's) client \<Rightarrow> raw_dn \<Rightarrow> bool res" where
  "not_cacheable cl dn =
     rbind (in_subtree cl ''cn=config'' dn) (\<lambda>a. if a then Inr True else
     rbind (in_subtree cl ''cn=kerberos'' dn) (\<lambda>b. if b then Inr True else
     in_subtree cl ''o=ipaca'' dn))"

datatype 'v payload = Failure pyexc | Success "'v ldap_entry" "string set" bool

text \<open>
  The key is removed first, so the new entry is added at the end, where \<open>move_to_end\<close> would put
  it; then the oldest entry goes if there are too many.
\<close>

definition cache_append :: "raw_dn \<Rightarrow> 'v cache_entry \<Rightarrow> 'v ldap_cache \<Rightarrow> 'v ldap_cache" where
  "cache_append dn ce c =
     (let l = lc_cache c @ [(dn, ce)]
      in c\<lparr>lc_cache := (if int (length l) > lc_size c then tl l else l)\<rparr>)"

definition add_cache_entry :: "('v, 's) client \<Rightarrow> raw_dn \<Rightarrow> 'v payload \<Rightarrow> ('v ldap_cache, unit) act" where
  "add_cache_entry cl dn p = (\<lambda>c.
     if \<not> lc_enable c then (Inr (), c)
     else
       let c1 = remove_cache_entry dn c
       in case not_cacheable cl dn of
            Inl x \<Rightarrow> (Inl x, c1)
          | Inr True \<Rightarrow> (Inr (), c1)
          | Inr False \<Rightarrow>
              (case p of
                 Failure x \<Rightarrow>
                   (Inr (), cache_append dn \<lparr>ce_entry = None, ce_attrs = {}, ce_exception = Some x, ce_all = False\<rparr> c1)
               | Success e attrs get_all \<Rightarrow>
                   if set BANNED_ATTRS \<inter> attrs = {}
                   then (Inr (), cache_append dn \<lparr>ce_entry = Some (entry_copy (le_dn e) e), ce_attrs = attrs,
                           ce_exception = None, ce_all = get_all\<rparr> c1)
                   else (Inr (), c1)))"

section \<open>Copies\<close>

text \<open>
  \<open>copy_entry\<close>, as an action on the entry that is copied: reading its raw view may synchronise it.
  An empty set of attributes stands for all of them.
\<close>

definition copied_items :: "string set \<Rightarrow> ldap_attrs \<Rightarrow> ldap_attrs" where
  "copied_items attrs items =
     (if attrs = {} then items
      else map (\<lambda>(a, vs). (py_lower a, vs)) (filter (\<lambda>(a, _). py_lower a \<in> attrs) items))"

definition copy_entry :: "'v ldap_conn \<Rightarrow> raw_dn \<Rightarrow> string set \<Rightarrow> ('v ldap_entry, 'v ldap_entry) act" where
  "copy_entry conn dn attrs =
     act_bind (act_read (\<lambda>e. Inr (entry_iter e))) (\<lambda>ns.
     act_bind (raw_view_items conn ns) (\<lambda>items.
     act_bind (act_read (\<lambda>_. case set_raws conn (copied_items attrs items) (entry_empty dn) of
         (Inl x, _) \<Rightarrow> Inl x | (Inr _, new_entry) \<Rightarrow> Inr new_entry)) (\<lambda>new_entry.
     act_bind (raw_view_items conn ns) (\<lambda>orig.
     act_read (\<lambda>_. case reset_modlist conn (new_entry\<lparr>le_orig_raw := orig\<rparr>) of
         (Inl x, _) \<Rightarrow> Inl x | (Inr _, new_entry') \<Rightarrow> Inr new_entry')))))"

section \<open>Reading\<close>

definition cache_hit :: "'v ldap_cache \<Rightarrow> 'v ldap_cache" where
  "cache_hit c = c\<lparr>lc_hits := Suc (lc_hits c)\<rparr>"

definition cache_miss :: "'v ldap_cache \<Rightarrow> 'v ldap_cache" where
  "cache_miss c = c\<lparr>lc_misses := Suc (lc_misses c)\<rparr>"

text \<open>The cached entry was changed in place.\<close>

definition cache_put :: "raw_dn \<Rightarrow> 'v ldap_entry \<Rightarrow> 'v ldap_cache \<Rightarrow> 'v ldap_cache" where
  "cache_put dn e c =
     c\<lparr>lc_cache := map (\<lambda>(d, ce). if same_dn d dn then (d, ce\<lparr>ce_entry := Some e\<rparr>) else (d, ce)) (lc_cache c)\<rparr>"

definition cached_copy ::
    "'v ldap_conn \<Rightarrow> raw_dn \<Rightarrow> string set \<Rightarrow> 'v ldap_entry \<Rightarrow> ('v ldap_cache, 'v ldap_entry) act" where
  "cached_copy conn dn attrs e = (\<lambda>c.
     case copy_entry conn dn attrs e of (r, e') \<Rightarrow> (r, cache_put dn e' (cache_hit c)))"

definition wanted_attrs :: "string list option \<Rightarrow> string list" where
  "wanted_attrs attrs_list =
     (case attrs_list of
        None \<Rightarrow> [''*'']
      | Some l \<Rightarrow> if l = [] then [''*''] else if l = [''''] then [''dn''] else l)"

text \<open>What \<open>get_entry\<close> finds in the cache: an error to raise again, an entry to copy, or nothing.\<close>

datatype 'v lookup = Reraise pyexc | CopyOf "'v ldap_entry" "string set" | Miss

definition cache_lookup :: "raw_dn \<Rightarrow> string list \<Rightarrow> bool \<Rightarrow> 'v ldap_cache \<Rightarrow> 'v lookup" where
  "cache_lookup dn attrs rights c =
     (case (if rights then None else cache_find dn c) of
        None \<Rightarrow> Miss
      | Some ce \<Rightarrow>
          (case (ce_exception ce, ce_entry ce) of
             (Some x, _) \<Rightarrow> Reraise x
           | (None, None) \<Rightarrow> Miss
           | (None, Some e) \<Rightarrow>
               if attrs = [''*''] \<and> ce_all ce then CopyOf e {}
               else if set (map py_lower attrs) \<subseteq> py_lower ` ce_attrs ce then CopyOf e (set (map py_lower attrs))
               else Miss))"

definition fetched ::
    "('v, 's) client \<Rightarrow> raw_dn \<Rightarrow> bool \<Rightarrow> 'v ldap_entry res \<Rightarrow> ('v ldap_cache, 'v ldap_entry) act" where
  "fetched cl dn get_all r = (\<lambda>c.
     case r of
       Inl x \<Rightarrow>
         (case x of
            PublicError cls _ \<Rightarrow>
              if cls = ''NotFound'' \<or> cls = ''EmptyResult''
              then (case add_cache_entry cl dn (Failure x) c of
                      (Inl y, c') \<Rightarrow> (Inl y, c')
                    | (Inr _, c') \<Rightarrow> (Inl x, cache_miss c'))
              else (Inl x, c)
          | _ \<Rightarrow> (Inl x, c))
     | Inr entry \<Rightarrow>
         (case copy_entry (cl_conn cl) dn {} entry of
            (Inl x, entry') \<Rightarrow> (Inl x, c)
          | (Inr e, entry') \<Rightarrow>
              (case add_cache_entry cl dn
                 (Success e (set (map py_lower (ci_iterkeys (le_names entry)))) get_all) c of
                 (Inl x, c') \<Rightarrow> (Inl x, c')
               | (Inr _, c') \<Rightarrow> (Inr entry', cache_miss c'))))"

definition cache_get_entry ::
    "('v, 's) client \<Rightarrow> raw_dn \<Rightarrow> string list option \<Rightarrow> int option \<Rightarrow> int option \<Rightarrow> bool \<Rightarrow> 'v ldap_cache \<times> 's \<Rightarrow>
     ('v ldap_entry res \<times> 'v ldap_cache \<times> 's) option" where
  "cache_get_entry cl dn attrs_list time_limit size_limit rights = (\<lambda>(c, s).
     if \<not> lc_enable c
     then (case get_entry cl dn attrs_list time_limit size_limit rights s of
             None \<Rightarrow> None | Some (r, s') \<Rightarrow> Some (r, c, s'))
     else
       let attrs = wanted_attrs attrs_list
       in case cache_lookup dn attrs rights c of
            Reraise x \<Rightarrow> Some (Inl x, cache_hit c, s)
          | CopyOf e sel \<Rightarrow> (case cached_copy (cl_conn cl) dn sel e c of (r, c') \<Rightarrow> Some (r, c', s))
          | Miss \<Rightarrow>
              (case get_entry cl dn (Some attrs) time_limit size_limit rights s of
                 None \<Rightarrow> None
               | Some (r, s') \<Rightarrow> (case fetched cl dn (attrs = [''*'']) r c of (r', c') \<Rightarrow> Some (r', c', s'))))"

section \<open>Writing\<close>

definition cache_add_entry ::
    "('v, 's) client \<Rightarrow> 'v ldap_entry \<times> 'v ldap_cache \<times> 's \<Rightarrow> unit res \<times> 'v ldap_entry \<times> 'v ldap_cache \<times> 's" where
  "cache_add_entry cl = (\<lambda>(e, c, s).
     case add_entry cl (e, s) of (r, e', s') \<Rightarrow> (r, e', remove_cache_entry (le_dn e) c, s'))"

definition cache_update_entry ::
    "('v, 's) client \<Rightarrow> 'v ldap_entry \<times> 'v ldap_cache \<times> 's \<Rightarrow> unit res \<times> 'v ldap_entry \<times> 'v ldap_cache \<times> 's" where
  "cache_update_entry cl = (\<lambda>(e, c, s).
     case update_entry cl (e, s) of (r, e', s') \<Rightarrow> (r, e', remove_cache_entry (le_dn e) c, s'))"

definition cache_delete_entry :: "('v, 's) client \<Rightarrow> raw_dn \<Rightarrow> 'v ldap_cache \<times> 's \<Rightarrow> unit res \<times> 'v ldap_cache \<times> 's" where
  "cache_delete_entry cl dn = (\<lambda>(c, s).
     case delete_entry cl dn s of (r, s') \<Rightarrow> (r, remove_cache_entry dn c, s'))"

definition cache_move_entry ::
    "('v, 's) client \<Rightarrow> raw_dn \<Rightarrow> raw_dn \<Rightarrow> bool \<Rightarrow> 'v ldap_cache \<times> 's \<Rightarrow> unit res \<times> 'v ldap_cache \<times> 's" where
  "cache_move_entry cl dn new_dn del_old = (\<lambda>(c, s).
     case move_entry cl dn new_dn del_old s of
       (r, s') \<Rightarrow> (r, remove_cache_entry new_dn (remove_cache_entry dn c), s'))"

text \<open>The entries named by the values of some attributes are dropped too; a
  missing value list cannot be iterated. The values are taken to be ASCII text.\<close>

definition MEMBER_ATTRS :: "string list" where
  "MEMBER_ATTRS = [''member'', ''ipaallowedtoperform_write_keys'', ''managedby_host'']"

definition drop_values :: "('v, 's) client \<Rightarrow> bytes list \<Rightarrow> ('v ldap_cache, unit) act" where
  "drop_values cl vs =
     act_seq (map (\<lambda>v. act_bind (act_read (\<lambda>_. DN_init (cl_lib cl) [AStr v]))
       (\<lambda>d c. (Inr (), remove_cache_entry d c))) vs)"

definition drop_members :: "('v, 's) client \<Rightarrow> ldap_mod list \<Rightarrow> ('v ldap_cache, unit) act" where
  "drop_members cl modlist =
     act_seq (map (\<lambda>(_, attr, vs).
       if py_lower attr \<in> set MEMBER_ATTRS
       then (case vs of
               None \<Rightarrow> act_raise (TypeError ''NoneType object is not iterable'')
             | Some l \<Rightarrow> drop_values cl l)
       else act_ret ()) modlist)"

definition cache_modify_s ::
    "('v, 's) client \<Rightarrow> raw_dn \<Rightarrow> ldap_mod list \<Rightarrow> 'v ldap_cache \<times> 's \<Rightarrow> unit res \<times> 'v ldap_cache \<times> 's" where
  "cache_modify_s cl dn modlist = (\<lambda>(c, s).
     case drop_members cl modlist c of
       (Inl x, c') \<Rightarrow> (Inl x, c', s)
     | (Inr _, c') \<Rightarrow>
         (case client_modify_s cl dn modlist s of (r, s') \<Rightarrow> (r, remove_cache_entry dn c', s')))"

section \<open>Entries that hold a list of attributes\<close>

definition holds :: "'v ldap_conn \<Rightarrow> 'v ldap_entry \<Rightarrow> ldap_attrs \<Rightarrow> bool" where
  "holds conn e items \<longleftrightarrow>
     entry_ok e \<and> names_inv conn (fst ` set (le_nice e)) (le_names e) {} \<and> entry_iter e = map fst items \<and>
     (\<forall>(n, vs) \<in> set items. map_of (le_raw e) n = Some (Some vs) \<and> map_of (le_nice e) n = Some None)"

definition one_per_class :: "'v ldap_conn \<Rightarrow> ldap_attrs \<Rightarrow> bool" where
  "one_per_class conn items \<longleftrightarrow> distinct (map (attr_class conn) (map fst items))"

text \<open>The values an entry gives for a name, and those a list of attributes has for it.\<close>

definition attr_values :: "'v ldap_entry \<Rightarrow> string \<Rightarrow> bytes list option" where
  "attr_values e a = map_option (raw_of e) (ci_lookup (le_names e) a)"

definition item_values :: "'v ldap_conn \<Rightarrow> ldap_attrs \<Rightarrow> string \<Rightarrow> bytes list option" where
  "item_values conn items a =
     map_option snd (find (\<lambda>(n, _). attr_class conn n = attr_class conn a) items)"

lemma holds_keys:
  assumes "holds conn e items"
  shows "set (entry_iter e) = fst ` set items" "fst ` set (le_nice e) = fst ` set items"
  using assms by (simp_all add: holds_def entry_iter_def flip: set_map)

lemma holds_settled:
  assumes "holds conn e items" "n \<in> fst ` set items"
  shows "settled e n"
  using assms by (auto simp: holds_def settled_def)

lemma holds_named:
  assumes "holds conn e items"
  shows "keys_named e"
  using assms names_invD(2) unfolding holds_def by blast

lemma holds_raw:
  assumes "holds conn e items" "(n, vs) \<in> set items"
  shows "raw_of e n = vs"
  using assms by (auto simp: holds_def raw_of_def)

lemma holds_raw_items:
  assumes "holds conn e items"
  shows "map (\<lambda>n. (n, raw_of e n)) (entry_iter e) = items"
proof -
  have "entry_iter e = map fst items" using assms by (simp add: holds_def)
  then show ?thesis using holds_raw [OF assms] by (auto intro!: map_idI)
qed

lemma holds_frame:
  assumes "holds conn e items" "entry_frame {} e e'" "entry_ok e'"
  shows "holds conn e' items"
proof -
  have "entry_iter e' = entry_iter e" using assms(2) by (simp add: entry_frame_def entry_iter_def)
  moreover have "fst ` set (le_nice e') = fst ` set (le_nice e)" "le_names e' = le_names e"
    using assms(2) by (simp_all add: entry_frame_def flip: set_map)
  ultimately show ?thesis using assms by (auto simp: holds_def entry_frame_def)
qed

lemma holds_lookup:
  assumes "holds conn e items"
  shows "ci_lookup (le_names e) a = Some m \<longleftrightarrow> m \<in> fst ` set items \<and> attr_class conn a = attr_class conn m"
proof -
  have inv: "names_inv conn (fst ` set items) (le_names e) {}" and ok: "entry_ok e"
    using assms holds_keys(2) [OF assms] by (simp_all add: holds_def)
  show ?thesis
    using names_invD(1,2) [OF inv, of a m] names_invD(2) [OF inv, of m a] entry_okD(4) [OF ok, of a m]
      holds_keys(2) [OF assms] by auto
qed

lemma holds_lookup_None:
  assumes "holds conn e items" "\<forall>m \<in> fst ` set items. attr_class conn m \<noteq> attr_class conn a"
  shows "ci_lookup (le_names e) a = None"
proof (rule ccontr)
  assume "ci_lookup (le_names e) a \<noteq> None"
  then obtain m where "ci_lookup (le_names e) a = Some m" by blast
  with holds_lookup [OF assms(1), of a m] assms(2) show False by auto
qed

lemma holds_values:
  assumes "holds conn e items" "one_per_class conn items"
  shows "attr_values e a = item_values conn items a"
proof (cases "find (\<lambda>(n, _). attr_class conn n = attr_class conn a) items")
  case None
  then have "ci_lookup (le_names e) a = None"
    by (intro holds_lookup_None [OF assms(1)]) (auto simp: find_None_iff)
  with None show ?thesis by (simp add: attr_values_def item_values_def)
next
  case (Some x)
  obtain n vs where x: "x = (n, vs)" by (rule prod.exhaust)
  have "(n, vs) \<in> set items" "attr_class conn n = attr_class conn a"
    using find_Some_in [OF Some] by (simp_all add: x)
  moreover from this have "ci_lookup (le_names e) a = Some n"
    using holds_lookup [OF assms(1), of a n] by force
  ultimately show ?thesis
    using Some holds_raw [OF assms(1)] by (simp add: attr_values_def item_values_def x)
qed

lemma holds_empty: "holds conn (entry_empty d) []"
  by (simp add: holds_def entry_ok_empty entry_iter_def) (simp add: entry_empty_def names_inv_def)

lemma holds_orig: "holds conn e items \<Longrightarrow> holds conn (e\<lparr>le_orig_raw := orig\<rparr>) items"
  by (simp add: holds_def entry_iter_def)

lemma raw_items_RBytes [simp]: "raw_items (map RBytes vs) = Inr vs"
  by (induction vs) auto

lemma set_raw_holds:
  assumes sch: "schema_names_ok conn" and h: "holds conn e items" and orig: "le_orig_raw e = []"
    and new: "\<forall>m \<in> fst ` set items. attr_class conn m \<noteq> attr_class conn n"
  shows "\<exists>e'. set_raw conn False (ANamed n) (RList (map RBytes vs)) e = (Inr (), e') \<and>
    holds conn e' (items @ [(n, vs)]) \<and> le_orig_raw e' = []"
proof -
  have ok: "entry_ok e" and inv: "entry_names_inv conn e" using h orig by (simp_all add: holds_def)
  have none: "ci_lookup (le_names e) n = None"
    using new by (rule holds_lookup_None [OF h])
  have notin: "n \<notin> fst ` set items" using new by auto
  obtain e1 where add: "add_attr_name conn n e = (Inr n, e1)" "le_nice e1 = le_nice e" "le_raw e1 = le_raw e"
    "le_orig_raw e1 = []"
    using none orig by (simp add: add_attr_name_def ci_getitem_lookup Let_def rename_orig_def)
  let ?e = "store_raw False vs n e1"
  have res: "set_raw conn False (ANamed n) (RList (map RBytes vs)) e = (Inr (), ?e)"
    using add by (simp add: set_raw_def act_defs attr_name_def raw_list_def sync_unless_None_def store_raw_def update_conv')
  have ok': "entry_ok ?e" using entry_inv.keepsD [OF keeps_set_raw res] ok by simp
  have orig': "le_orig_raw ?e = []" using add(4) by (simp add: store_raw_def)
  have inv': "names_inv conn (fst ` set (le_nice ?e)) (le_names ?e) {}"
    using names_inv_set_raw [OF sch ok inv, of False "ANamed n" "RList (map RBytes vs)"] res orig' by simp
  have iter: "entry_iter ?e = map fst items @ [n]"
    using h add(2) notin by (simp add: holds_def entry_iter_def store_raw_def update_keys holds_keys(2) [OF h] flip: set_map)
  have "map_of (le_raw ?e) m = Some (Some ws) \<and> map_of (le_nice ?e) m = Some None"
    if "(m, ws) \<in> set (items @ [(n, vs)])" for m ws
    using that h notin add(2,3) by (force simp: holds_def store_raw_def update_conv')
  then show ?thesis using res ok' inv' iter orig' by (auto simp: holds_def)
qed

lemma set_raws_holds:
  assumes sch: "schema_names_ok conn"
  shows "holds conn e items \<Longrightarrow> le_orig_raw e = [] \<Longrightarrow> one_per_class conn (items @ new) \<Longrightarrow>
    \<exists>e'. set_raws conn new e = (Inr (), e') \<and> holds conn e' (items @ new)"
proof (induction new arbitrary: e items)
  case Nil
  then show ?case by (simp add: set_raws_def act_defs)
next
  case (Cons x new)
  obtain n vs where x: "x = (n, vs)" by (rule prod.exhaust)
  have "attr_class conn n \<notin> attr_class conn ` fst ` set items"
    using Cons.prems(3) by (simp add: x one_per_class_def image_image)
  then have "\<forall>m \<in> fst ` set items. attr_class conn m \<noteq> attr_class conn n" by (metis imageI)
  from set_raw_holds [OF sch Cons.prems(1,2) this, of vs]
  obtain e1 where e1: "set_raw conn False (ANamed n) (RList (map RBytes vs)) e = (Inr (), e1)"
    "holds conn e1 (items @ [(n, vs)])" "le_orig_raw e1 = []" by blast
  have "one_per_class conn ((items @ [(n, vs)]) @ new)" using Cons.prems(3) by (simp add: x)
  from Cons.IH [OF e1(2,3) this]
  obtain e2 where "set_raws conn new e1 = (Inr (), e2)" "holds conn e2 ((items @ [(n, vs)]) @ new)" by blast
  with e1(1) show ?case by (simp add: set_raws_def act_defs x)
qed

lemma read_items_holds:
  assumes "holds conn e items"
  shows "\<exists>e'. raw_view_items conn (entry_iter e) e = (Inr items, e') \<and> holds conn e' items \<and> entry_iter e' = entry_iter e"
proof -
  have set: "\<forall>n \<in> set (entry_iter e). ci_lookup (le_names e) n = Some n \<and> settled e n"
    using holds_named [OF assms] holds_settled [OF assms] holds_keys [OF assms] by auto
  obtain e1 where e1: "raw_view_items conn (entry_iter e) e = (Inr items, e1)" "entry_frame {} e e1"
    using raw_view_items_settled [OF set, of conn] holds_raw_items [OF assms] by auto
  have "entry_ok e1" using entry_inv.keepsD [OF keeps_raw_view_items e1(1)] assms by (simp add: holds_def)
  then have "holds conn e1 items" by (rule holds_frame [OF assms e1(2)])
  then show ?thesis using e1 assms by (auto simp: holds_def)
qed

lemma reset_holds:
  assumes "holds conn e items"
  shows "\<exists>e'. reset_modlist conn e = (Inr (), e') \<and> holds conn e' items"
proof -
  obtain e1 where e1: "raw_view_items conn (entry_iter e) e = (Inr items, e1)" "holds conn e1 items"
    using read_items_holds [OF assms] by blast
  then have "holds conn (e1\<lparr>le_orig_raw := items\<rparr>) items" by (intro holds_orig)
  then show ?thesis using e1(1) by (simp add: reset_modlist_def act_defs)
qed

lemma attr_class_lower:
  assumes "schema_names_ok conn"
  shows "attr_class conn (py_lower a) = attr_class conn a"
  using attr_class_iff [OF assms, of "py_lower a" a] attr_class_self [OF assms, of a] by simp

lemma copied_items_classes:
  assumes "schema_names_ok conn" "one_per_class conn items"
  shows "one_per_class conn (copied_items attrs items)"
proof -
  have low: "map (attr_class conn) (map fst (map (\<lambda>(a, vs). (py_lower a, vs)) l)) = map (attr_class conn) (map fst l)"
    for l :: ldap_attrs
    by (simp add: attr_class_lower [OF assms(1)] case_prod_beta)
  have "distinct (map (attr_class conn) (map fst (filter P items)))" for P
    using assms(2) by (simp add: one_per_class_def distinct_map_filter)
  then have "distinct (map (attr_class conn) (map fst (map (\<lambda>(a, vs). (py_lower a, vs)) (filter P items))))" for P
    unfolding low .
  then show ?thesis using assms(2) by (cases "attrs = {}") (simp_all only: copied_items_def one_per_class_def if_True if_False refl)
qed

lemma copy_entry_holds:
  assumes "schema_names_ok conn" "holds conn e items" "one_per_class conn items"
  shows "\<exists>new e'. copy_entry conn dn attrs e = (Inr new, e') \<and> holds conn new (copied_items attrs items) \<and> holds conn e' items"
proof -
  obtain e1 where e1: "raw_view_items conn (entry_iter e) e = (Inr items, e1)" "holds conn e1 items" "entry_iter e1 = entry_iter e"
    using read_items_holds [OF assms(2)] by blast
  obtain e2 where e2: "raw_view_items conn (entry_iter e) e1 = (Inr items, e2)" "holds conn e2 items"
    using read_items_holds [OF e1(2)] e1(3) by auto
  let ?ci = "copied_items attrs items"
  obtain n1 where n1: "set_raws conn ?ci (entry_empty dn) = (Inr (), n1)" "holds conn n1 ?ci"
    using set_raws_holds [OF assms(1) holds_empty, of dn ?ci] copied_items_classes [OF assms(1,3)]
    by (auto simp: entry_empty_def)
  obtain n2 where "reset_modlist conn (n1\<lparr>le_orig_raw := items\<rparr>) = (Inr (), n2)" "holds conn n2 ?ci"
    using reset_holds [OF holds_orig [OF n1(2)]] by blast
  then show ?thesis using e1(1) e2 n1(1) by (simp add: copy_entry_def act_defs)
qed

end
