(* ===== verification/Cache_Coherence.thy ===== *)
theory Cache_Coherence
  imports LDAP_Cache
begin

text \<open>
  The cache of \<open>LDAPCache\<close> against the directory it stands for: what it keeps of an entry agrees
  with the directory unless the entry changed without the cache being told, so a read from the
  cache returns what a read from the server would, and it never holds more entries than its size.
\<close>

section \<open>The directory behind the cache\<close>

text \<open>
  \<open>db s\<close> is the content of the directory in the server state \<open>s\<close>, by the comparison keys of DNs,
  and \<open>oper\<close> tells the operational attributes. The hypotheses are what a directory server
  documents: a search of one entry returns the attributes it is asked for (RFC 4511, 4.5.1.8: by any
  name of their type, \<open>*\<close> for the user attributes, \<open>+\<close> for the operational ones), or
  \<open>noSuchObject\<close>, and changes nothing; an entry has one value list for each attribute type.
  Nothing is assumed about writes: a write may change any entry, as a rename does with the
  descendants of the entry and a change of members with \<open>memberOf\<close>.
\<close>

type_synonym dn_key = "(nat \<times> (string \<times> string) list) list"

definition wants :: "'v ldap_conn \<Rightarrow> (string \<Rightarrow> bool) \<Rightarrow> string set \<Rightarrow> string \<Rightarrow> bool" where
  "wants conn oper L a \<longleftrightarrow>
     ''*'' \<in> L \<and> \<not> oper a \<or> ''+'' \<in> L \<and> oper a \<or> attr_class conn a \<inter> L \<noteq> {}"

definition select_attrs :: "'v ldap_conn \<Rightarrow> (string \<Rightarrow> bool) \<Rightarrow> string list option \<Rightarrow> ldap_attrs \<Rightarrow> ldap_attrs" where
  "select_attrs conn oper req al =
     filter (\<lambda>(a, _). case req of
        None \<Rightarrow> \<not> oper a
      | Some l \<Rightarrow> if l = [] then \<not> oper a else wants conn oper (set l) a) al"

definition search_law :: "('v, 's) client \<Rightarrow> ('s \<Rightarrow> dn_key \<Rightarrow> ldap_attrs option) \<Rightarrow> (string \<Rightarrow> bool) \<Rightarrow> bool" where
  "search_law cl db oper \<longleftrightarrow>
     (\<forall>rq dn s. rq_base rq = cl_dn2str cl dn \<and> rq_scope rq = SCOPE_BASE \<and> rq_controls rq = None \<longrightarrow>
        (case db s (dn_keys dn) of
           None \<Rightarrow> (\<exists>desc info s'. sv_search_ext (cl_server cl) rq s = (Inl (LDAPError NO_SUCH_OBJECT desc info), s') \<and> db s' = db s)
         | Some al \<Rightarrow>
             (\<exists>mid s1 m s2 f s3 dtext d. sv_search_ext (cl_server cl) rq s = (Inr mid, s1) \<and>
                sv_result3 (cl_server cl) mid s1 = (Inr m, s2) \<and> \<not> sm_final m \<and>
                sm_list m = [(Some dtext, select_attrs (cl_conn cl) oper (rq_attrs rq) al)] \<and>
                DN_init (cl_lib cl) [AStr dtext] = Inr d \<and>
                sv_result3 (cl_server cl) mid s2 = (Inr f, s3) \<and> sm_final f \<and> db s3 = db s)))"

definition content_ok :: "'v ldap_conn \<Rightarrow> ldap_attrs \<Rightarrow> bool" where
  "content_ok conn al \<longleftrightarrow>
     one_per_class conn al \<and> (\<forall>n \<in> fst ` set al. ''*'' \<notin> attr_class conn n \<and> ''+'' \<notin> attr_class conn n)"

definition special_dns_parse :: "('v, 's) client \<Rightarrow> bool" where
  "special_dns_parse cl \<longleftrightarrow>
     (\<forall>t \<in> {''cn=config'', ''cn=kerberos'', ''o=ipaca''}. lib_str2dn (cl_lib cl) t \<noteq> None)"

definition directory_law :: "('v, 's) client \<Rightarrow> ('s \<Rightarrow> dn_key \<Rightarrow> ldap_attrs option) \<Rightarrow> (string \<Rightarrow> bool) \<Rightarrow> bool" where
  "directory_law cl db oper \<longleftrightarrow>
     search_law cl db oper \<and> special_dns_parse cl \<and>
     iters_ok (cl_conn cl) \<and> schema_names_ok (cl_conn cl) \<and>
     (\<forall>s k al. db s k = Some al \<longrightarrow> content_ok (cl_conn cl) al)"

lemma directory_lawD:
  assumes "directory_law cl db oper"
  shows "search_law cl db oper" "special_dns_parse cl" "iters_ok (cl_conn cl)"
    "schema_names_ok (cl_conn cl)" "db s k = Some al \<Longrightarrow> content_ok (cl_conn cl) al"
  using assms unfolding directory_law_def by blast+

text \<open>The part of a content that the attributes \<open>L\<close> (lower case) select.\<close>

definition picks :: "'v ldap_conn \<Rightarrow> (string \<Rightarrow> bool) \<Rightarrow> string set \<Rightarrow> ldap_attrs \<Rightarrow> ldap_attrs" where
  "picks conn oper L al = filter (\<lambda>(a, _). wants conn oper L a) al"

lemma one_per_class_filter: "one_per_class conn al \<Longrightarrow> one_per_class conn (filter P al)"
  by (simp add: one_per_class_def distinct_map_filter)

lemma picks_classes: "one_per_class conn al \<Longrightarrow> one_per_class conn (picks conn oper L al)"
  unfolding picks_def by (rule one_per_class_filter)

lemma select_picks:
  assumes it: "iters_ok conn" and ok: "content_ok conn al" and ne: "attrs \<noteq> Some ['''']"
  shows "select_attrs conn oper
      (map_option (\<lambda>l. if l = [] then [] else map py_lower (c_iter_names conn (set l))) attrs) al =
    picks conn oper (py_lower ` set (wanted_attrs attrs)) al"
proof (cases "attrs = None \<or> attrs = Some []")
  case True
  have "\<not> oper n \<longleftrightarrow> wants conn oper {''*''} n" if "(n, vs) \<in> set al" for n vs
    using that ok by (force simp: wants_def content_ok_def)
  moreover have "py_lower ''*'' = ''*''" by code_simp
  ultimately show ?thesis
    using True by (auto simp: select_attrs_def picks_def wanted_attrs_def intro!: filter_cong)
next
  case False
  then obtain l where l: "attrs = Some l" "l \<noteq> []" by auto
  have "set (c_iter_names conn (set l)) = set l" using it by (simp add: iters_ok_def set_iter_set)
  moreover from this have "c_iter_names conn (set l) \<noteq> []" using l(2) by auto
  ultimately show ?thesis using l ne by (simp add: select_attrs_def picks_def wanted_attrs_def)
qed

lemma convert_entry_holds:
  assumes "schema_names_ok (cl_conn cl)" "one_per_class (cl_conn cl) al" "DN_init (cl_lib cl) [AStr dtext] = Inr d"
  shows "\<exists>e. convert_entry cl dtext al = Inr e \<and> holds (cl_conn cl) e al"
proof -
  obtain e1 where e1: "set_raws (cl_conn cl) al (entry_empty d) = (Inr (), e1)" "holds (cl_conn cl) e1 al"
    using set_raws_holds [OF assms(1) holds_empty, of d al] assms(2) by (auto simp: entry_empty_def)
  obtain e2 where "reset_modlist (cl_conn cl) e1 = (Inr (), e2)" "holds (cl_conn cl) e2 al"
    using reset_holds [OF e1(2)] by blast
  then show ?thesis using e1(1) assms(3) by (simp add: convert_entry_def act_defs)
qed

lemma search_law_found:
  assumes "search_law cl db oper" "rq_base rq = cl_dn2str cl dn" "rq_scope rq = SCOPE_BASE" "rq_controls rq = None" "db s (dn_keys dn) = Some al"
  shows "\<exists>mid s1 m s2 f s3 dtext d. sv_search_ext (cl_server cl) rq s = (Inr mid, s1) \<and>
    sv_result3 (cl_server cl) mid s1 = (Inr m, s2) \<and> \<not> sm_final m \<and>
    sm_list m = [(Some dtext, select_attrs (cl_conn cl) oper (rq_attrs rq) al)] \<and> DN_init (cl_lib cl) [AStr dtext] = Inr d \<and>
    sv_result3 (cl_server cl) mid s2 = (Inr f, s3) \<and> sm_final f \<and> db s3 = db s"
  using spec [OF spec [OF spec [OF assms(1) [unfolded search_law_def], of rq], of dn], of s] assms(2-5) by simp

lemma search_law_missing:
  assumes "search_law cl db oper" "rq_base rq = cl_dn2str cl dn" "rq_scope rq = SCOPE_BASE" "rq_controls rq = None" "db s (dn_keys dn) = None"
  shows "\<exists>desc info s'. sv_search_ext (cl_server cl) rq s = (Inl (LDAPError NO_SUCH_OBJECT desc info), s') \<and> db s' = db s"
  using spec [OF spec [OF spec [OF assms(1) [unfolded search_law_def], of rq], of dn], of s] assms(2-5) by simp

text \<open>What the client's \<open>get_entry\<close> returns on such a server.\<close>

lemma get_entry_found:
  assumes law: "directory_law cl db oper" and db: "db s (dn_keys dn) = Some al" and ne: "attrs \<noteq> Some ['''']"
  shows "\<exists>e s'. get_entry cl dn attrs t z False s = Some (Inr e, s') \<and> db s' = db s \<and>
    holds (cl_conn cl) e (picks (cl_conn cl) oper (py_lower ` set (wanted_attrs attrs)) al)"
proof -
  let ?al = "picks (cl_conn cl) oper (py_lower ` set (wanted_attrs attrs)) al"
  let ?sa = "\<lparr>sa_filter = None, sa_attrs = attrs, sa_base = Some dn, sa_scope = SCOPE_BASE,
    sa_time_limit = t, sa_size_limit = z, sa_paged = False, sa_rights = False\<rparr>"
  let ?rq = "page_request ?sa cl [] False (page_size ?sa cl) []"
  have rq: "rq_base ?rq = cl_dn2str cl dn" "rq_scope ?rq = SCOPE_BASE" "rq_controls ?rq = None" "select_attrs (cl_conn cl) oper (rq_attrs ?rq) al = ?al"
    using select_picks [OF directory_lawD(3,5) [OF law] ne, OF db]
    by (simp_all add: page_request_def search_request_def)
  note sl = directory_lawD(1) [OF law]
  obtain mid s1 m s2 f s3 dtext d where w: "sv_search_ext (cl_server cl) ?rq s = (Inr mid, s1)"
      "sv_result3 (cl_server cl) mid s1 = (Inr m, s2)" "\<not> sm_final m"
      "sm_list m = [(Some dtext, ?al)]" "DN_init (cl_lib cl) [AStr dtext] = Inr d"
      "sv_result3 (cl_server cl) mid s2 = (Inr f, s3)" "sm_final f" "db s3 = db s"
    using search_law_found [where db = db and s = s, OF sl rq(1-3) db] rq(4) by auto
  have "one_per_class (cl_conn cl) ?al"
    using directory_lawD(5) [OF law db] by (auto simp: content_ok_def intro!: picks_classes)
  then obtain e where e: "convert_entry cl dtext ?al = Inr e" "holds (cl_conn cl) e ?al"
    using convert_entry_holds [OF directory_lawD(4) [OF law] _ w(5)] by blast
  have "sends (cl_server cl) mid s1 [(dtext, ?al)] (sm_controls f) s3"
    using w by (intro entry_message [OF w(2,3,4)] final_message)
  moreover have "converts cl [(dtext, ?al)] [e]" using e(1) by (simp add: converts_def)
  ultimately have "search_pages cl (page_request ?sa cl [] False (page_size ?sa cl)) (cancel_request ?sa cl) False [] [] s
      = Some (Inr NotTruncated, [e], s3)"
    using search_unpaged_sends [where mk = "page_request ?sa cl [] False (page_size ?sa cl)", OF w(1)] by simp
  then have "find_entries cl ?sa s = Some (Inr ([e], NotTruncated), s3)"
    by (simp add: find_entries_def search_controls_def Let_def)
  then have "get_entry cl dn attrs t z False s = Some (Inr e, s3)"
    by (simp add: get_entry_def get_entries_def handle_truncated_result_def py_nth_def)
  with w(8) e(2) show ?thesis by blast
qed

abbreviation not_found :: pyexc where
  "not_found \<equiv> PublicError ''NotFound'' ''no such entry''"

lemma get_entry_missing:
  assumes law: "directory_law cl db oper" and db: "db s (dn_keys dn) = None"
  shows "\<exists>s'. get_entry cl dn attrs t z False s = Some (Inl not_found, s') \<and> db s' = db s"
proof -
  let ?sa = "\<lparr>sa_filter = None, sa_attrs = attrs, sa_base = Some dn, sa_scope = SCOPE_BASE,
    sa_time_limit = t, sa_size_limit = z, sa_paged = False, sa_rights = False\<rparr>"
  let ?mk = "page_request ?sa cl [] False (page_size ?sa cl)"
  have rq: "rq_base (?mk []) = cl_dn2str cl dn" "rq_scope (?mk []) = SCOPE_BASE" "rq_controls (?mk []) = None"
    by (simp_all add: page_request_def search_request_def)
  note sl = directory_lawD(1) [OF law]
  obtain desc info s' where w: "sv_search_ext (cl_server cl) (?mk []) s = (Inl (LDAPError NO_SUCH_OBJECT desc info), s')" "db s' = db s"
    using search_law_missing [where db = db and s = s, OF sl rq db] by blast
  have "search_pages cl ?mk (cancel_request ?sa cl) False [] [] s = Some (Inl (LDAPError NO_SUCH_OBJECT desc info), [], s')"
    by (subst search_pages.simps) (simp add: w search_failed_def)
  then have "find_entries cl ?sa s = Some (Inl not_found, s')"
    by (simp add: find_entries_def search_controls_def Let_def error_handler_def)
  with w(2) show ?thesis by (simp add: get_entry_def get_entries_def)
qed

section \<open>Coherence\<close>

definition ce_coherent :: "'v ldap_conn \<Rightarrow> (string \<Rightarrow> bool) \<Rightarrow> ldap_attrs option \<Rightarrow> 'v cache_entry \<Rightarrow> bool" where
  "ce_coherent conn oper content ce \<longleftrightarrow>
     (case ce_exception ce of
        Some x \<Rightarrow> content = None \<and> x = not_found
      | None \<Rightarrow>
          (case ce_entry ce of
             None \<Rightarrow> True
           | Some e \<Rightarrow>
               (\<exists>al P. content = Some al \<and> holds conn e (filter P al) \<and>
                  ce_attrs ce \<subseteq> \<Union> (attr_class conn ` fst ` set (filter P al)) \<and>
                  (ce_all ce \<longrightarrow> filter P al = picks conn oper {''*''} al))))"

text \<open>The cache is coherent but for the entries with the keys \<open>F\<close>.\<close>

definition coherent ::
    "('v, 's) client \<Rightarrow> ('s \<Rightarrow> dn_key \<Rightarrow> ldap_attrs option) \<Rightarrow> (string \<Rightarrow> bool) \<Rightarrow> dn_key set \<Rightarrow>
     'v ldap_cache \<Rightarrow> 's \<Rightarrow> bool" where
  "coherent cl db oper F c s \<longleftrightarrow>
     (\<forall>(d, ce) \<in> set (lc_cache c). dn_keys d \<notin> F \<longrightarrow> ce_coherent (cl_conn cl) oper (db s (dn_keys d)) ce)"

definition cache_ok :: "'v ldap_cache \<Rightarrow> bool" where
  "cache_ok c \<longleftrightarrow>
     distinct (map (\<lambda>(d, _). dn_keys d) (lc_cache c)) \<and> (if lc_enable c then 0 < lc_size c else lc_cache c = []) \<and>
     int (length (lc_cache c)) \<le> max 0 (lc_size c)"

lemma coherent_cong: "db s' = db s \<Longrightarrow> coherent cl db oper F c s' \<longleftrightarrow> coherent cl db oper F c s"
  by (simp add: coherent_def)

lemma coherent_remove:
  assumes "coherent cl db oper F c s" "\<And>k. k \<noteq> dn_keys dn \<Longrightarrow> db s' k = db s k"
  shows "coherent cl db oper F (remove_cache_entry dn c) s'"
  using assms by (auto simp: coherent_def remove_cache_entry_def same_dn_def)

lemma coherent_append:
  assumes "coherent cl db oper F c s" "ce_coherent (cl_conn cl) oper (db s (dn_keys dn)) ce"
  shows "coherent cl db oper F (cache_append dn ce c) s"
proof -
  have "set (tl l) \<subseteq> set l" for l :: "(raw_dn \<times> 'a cache_entry) list" by (cases l) auto
  from this [of "lc_cache c @ [(dn, ce)]"]
  have "set (lc_cache (cache_append dn ce c)) \<subseteq> insert (dn, ce) (set (lc_cache c))"
    by (auto simp: cache_append_def Let_def)
  with assms show ?thesis by (auto simp: coherent_def)
qed

text \<open>Dropping entries.\<close>

definition shrinks :: "'v ldap_cache \<Rightarrow> 'v ldap_cache \<Rightarrow> bool" where
  "shrinks c c' \<longleftrightarrow> (\<exists>P. c' = c\<lparr>lc_cache := filter P (lc_cache c)\<rparr>)"

interpretation shrinking: act_relation "shrinks :: 'v ldap_cache \<Rightarrow> 'v ldap_cache \<Rightarrow> bool"
proof unfold_locales
  fix c d e :: "'v ldap_cache"
  show "shrinks c c" unfolding shrinks_def by (rule exI [of _ "\<lambda>_. True"]) simp
  assume "shrinks c d" "shrinks d e"
  then show "shrinks c e" unfolding shrinks_def by auto
qed

lemma shrinks_remove: "shrinks c (remove_cache_entry dn c)"
  by (auto simp: shrinks_def remove_cache_entry_def)

lemma shrinks_coherent: "shrinks c c' \<Longrightarrow> coherent cl db oper F c s \<Longrightarrow> coherent cl db oper F c' s"
  by (auto simp: shrinks_def coherent_def)

lemma shrinks_ok:
  assumes "shrinks c c'" "cache_ok c"
  shows "cache_ok c'"
proof -
  obtain P where P: "c' = c\<lparr>lc_cache := filter P (lc_cache c)\<rparr>" using assms(1) by (auto simp: shrinks_def)
  have "int (length (filter P (lc_cache c))) \<le> int (length (lc_cache c))" by simp
  also have "\<dots> \<le> max 0 (lc_size c)" using assms(2) by (simp add: cache_ok_def)
  finally show ?thesis using assms(2) by (simp add: P cache_ok_def distinct_map_filter)
qed

lemma cache_ok_remove: "cache_ok c \<Longrightarrow> cache_ok (remove_cache_entry dn c)"
  by (rule shrinks_ok [OF shrinks_remove])

lemma cache_ok_append:
  assumes "cache_ok c" "lc_enable c" "\<forall>(d, _) \<in> set (lc_cache c). \<not> same_dn d dn"
  shows "cache_ok (cache_append dn ce c)"
proof -
  let ?key = "\<lambda>x :: raw_dn \<times> 'a cache_entry. case x of (d, _) \<Rightarrow> dn_keys d"
  let ?l = "lc_cache c @ [(dn, ce)]"
  have d: "distinct (map ?key ?l)" using assms(1,3) by (auto simp: cache_ok_def same_dn_def)
  then have "distinct (map ?key (tl ?l))" by (simp only: map_tl distinct_tl)
  with d have "distinct (map ?key (lc_cache (cache_append dn ce c)))"
    by (simp only: cache_append_def Let_def ldap_cache.simps split: if_split) simp
  moreover have len: "int (length (lc_cache c)) \<le> lc_size c" "0 < lc_size c"
    using assms(1,2) by (auto simp: cache_ok_def)
  then have "int (length (lc_cache (cache_append dn ce c))) \<le> lc_size c"
    by (simp add: cache_append_def Let_def)
  moreover have "lc_size (cache_append dn ce c) = lc_size c" "lc_enable (cache_append dn ce c) = lc_enable c"
    by (simp_all add: cache_append_def Let_def)
  ultimately show ?thesis using assms(2) len(2) by (simp only: cache_ok_def) simp
qed

lemma in_subtree_total:
  assumes "lib_str2dn (cl_lib cl) t = Some d"
  shows "\<exists>b. in_subtree cl t dn = Inr b"
proof -
  have "DN_init (cl_lib cl) [AStr t] = Inr (map sort_avas d)"
    by (simp add: DN_init_def rdns_from_sequence_def rdns_from_value_def assms)
  moreover have "DN_contains dn (ADN (map sort_avas d)) = Inr (\<exists>i. match_at dn (map sort_avas d) i)"
    by (rule DN_contains_spec) (simp add: as_pattern_def)
  ultimately have "in_subtree cl t dn = Inr (\<exists>i. match_at dn (map sort_avas d) i)"
    by (simp add: in_subtree_def del: rbind_eq_Inr)
  then show ?thesis by blast
qed

lemma not_cacheable_total:
  assumes "special_dns_parse cl"
  shows "\<exists>b. not_cacheable cl dn = Inr b"
proof -
  have "\<exists>b. in_subtree cl t dn = Inr b" if "t \<in> {''cn=config'', ''cn=kerberos'', ''o=ipaca''}" for t
    using assms that in_subtree_total unfolding special_dns_parse_def by blast
  from this [of "''cn=config''"] this [of "''cn=kerberos''"] this [of "''o=ipaca''"]
  obtain a b c where "in_subtree cl ''cn=config'' dn = Inr a" "in_subtree cl ''cn=kerberos'' dn = Inr b"
    "in_subtree cl ''o=ipaca'' dn = Inr c" by auto
  then have "not_cacheable cl dn = Inr (a \<or> b \<or> c)" by (simp add: not_cacheable_def)
  then show ?thesis by blast
qed

text \<open>The values of a copy are those of the items it was made from.\<close>

lemma find_lower:
  assumes "schema_names_ok conn"
  shows "find (\<lambda>(n, _). attr_class conn n = A) (map (\<lambda>(a, vs). (py_lower a, vs)) l) =
    map_option (\<lambda>(a, vs). (py_lower a, vs)) (find (\<lambda>(n, _). attr_class conn n = A) l)"
  by (induction l) (auto simp: attr_class_lower [OF assms])

lemma copied_items_values:
  assumes "schema_names_ok conn"
  shows "item_values conn (copied_items R al) a =
    item_values conn (if R = {} then al else filter (\<lambda>(n, _). py_lower n \<in> R) al) a"
  unfolding copied_items_def item_values_def
  by (cases "R = {}") (simp_all add: find_lower [OF assms] option.map_comp comp_def case_prod_beta)

text \<open>The names an entry knows belong to the types of its attributes.\<close>

lemma attr_class_is_lower: "x \<in> attr_class conn a \<Longrightarrow> py_lower x = x"
  by (auto simp: attr_class_def split: option.splits)

lemma holds_names:
  assumes sch: "schema_names_ok conn" and h: "holds conn e items"
  shows "set (map py_lower (ci_iterkeys (le_names e))) \<subseteq> \<Union> (attr_class conn ` fst ` set items)"
proof
  fix x assume x: "x \<in> set (map py_lower (ci_iterkeys (le_names e)))"
  have ok: "ci_ok (le_names e)" using h entry_okD(1) unfolding holds_def by blast
  then have "map py_lower (ci_iterkeys (le_names e)) = map fst (ci_dict (le_names e))"
    by (simp add: ci_iterkeys_lower ci_ok_def)
  with x obtain m where "map_of (ci_dict (le_names e)) x = Some m"
    by (cases "map_of (ci_dict (le_names e)) x") (auto simp: map_of_eq_None_iff)
  moreover have low: "py_lower x = x" using x by auto
  ultimately have "ci_lookup (le_names e) x = Some m" by (simp add: ci_lookup_def)
  then have "m \<in> fst ` set items" "attr_class conn x = attr_class conn m"
    using holds_lookup [OF h] by simp_all
  moreover have "x \<in> attr_class conn x" using attr_class_self [OF sch, of x] low by simp
  ultimately show "x \<in> \<Union> (attr_class conn ` fst ` set items)" by auto
qed

text \<open>
  What a hit hands out. The cached part of the content has an attribute for every name that is
  asked for, so what the copy keeps of it is what the server would select.
\<close>

lemma one_per_class_unique:
  assumes "one_per_class conn al" "(n, vs) \<in> set al" "(m, ws) \<in> set al" "attr_class conn n = attr_class conn m"
  shows "(n, vs) = (m, ws)"
proof -
  have "inj_on (attr_class conn \<circ> fst) (set al)" using assms(1) by (simp add: one_per_class_def distinct_map)
  from inj_onD [OF this _ assms(2,3)] assms(4) show ?thesis by simp
qed

lemma hit_items:
  assumes sch: "schema_names_ok conn" and ok: "content_ok conn al"
    and sub: "R \<subseteq> \<Union> (attr_class conn ` fst ` set (filter P al))"
    and named: "\<forall>n \<in> fst ` set al. \<forall>r \<in> R. r \<in> attr_class conn n \<longrightarrow> py_lower n = r"
  shows "filter (\<lambda>(n, _). py_lower n \<in> R) (filter P al) = picks conn oper R al"
proof -
  have star: "''*'' \<notin> R" "''+'' \<notin> R" using sub ok by (fastforce simp: content_ok_def)+
  have "P (n, vs) \<and> py_lower n \<in> R \<longleftrightarrow> wants conn oper R n" if n: "(n, vs) \<in> set al" for n vs
  proof
    assume "P (n, vs) \<and> py_lower n \<in> R"
    then show "wants conn oper R n" using attr_class_self [OF sch, of n] by (auto simp: wants_def)
  next
    assume "wants conn oper R n"
    then obtain r where r: "r \<in> attr_class conn n" "r \<in> R" using star by (auto simp: wants_def)
    then obtain m ws where m: "(m, ws) \<in> set al" "P (m, ws)" "r \<in> attr_class conn m" using sub by auto
    have "attr_class conn n = attr_class conn m"
      using r(1) m(3) attr_class_iff [OF sch, of r] attr_class_is_lower [OF r(1)] by simp
    then have "(n, vs) = (m, ws)"
      using ok n m(1) by (intro one_per_class_unique) (simp_all add: content_ok_def)
    moreover have "py_lower n = r" using named n r by force
    ultimately show "P (n, vs) \<and> py_lower n \<in> R" using m(2) r(2) by simp
  qed
  then show ?thesis unfolding picks_def filter_filter by (auto intro!: filter_cong)
qed

section \<open>Every operation keeps the cache coherent\<close>

definition entry_of :: "'v payload \<Rightarrow> 'v cache_entry" where
  "entry_of p =
     (case p of
        Failure x \<Rightarrow> \<lparr>ce_entry = None, ce_attrs = {}, ce_exception = Some x, ce_all = False\<rparr>
      | Success e attrs get_all \<Rightarrow>
          \<lparr>ce_entry = Some (entry_copy (le_dn e) e), ce_attrs = attrs, ce_exception = None, ce_all = get_all\<rparr>)"

lemma add_cache_entry_cases:
  "snd (add_cache_entry cl dn p c) \<in>
     {c, remove_cache_entry dn c} \<union> (if lc_enable c then {cache_append dn (entry_of p) (remove_cache_entry dn c)} else {})"
  by (auto simp: add_cache_entry_def entry_of_def Let_def split: sum.split bool.split payload.split)

lemma add_cache_entry_total:
  assumes "special_dns_parse cl"
  shows "fst (add_cache_entry cl dn p c) = Inr ()"
proof -
  obtain b where "not_cacheable cl dn = Inr b" using not_cacheable_total [OF assms] by blast
  then show ?thesis by (auto simp: add_cache_entry_def Let_def split: bool.split payload.split)
qed

lemma add_cache_entry_coherent:
  assumes "coherent cl db oper F c s" "ce_coherent (cl_conn cl) oper (db s (dn_keys dn)) (entry_of p)"
  shows "coherent cl db oper F (snd (add_cache_entry cl dn p c)) s"
proof -
  have rm: "coherent cl db oper F (remove_cache_entry dn c) s" by (rule coherent_remove [OF assms(1)]) simp
  then have "coherent cl db oper F (cache_append dn (entry_of p) (remove_cache_entry dn c)) s"
    by (rule coherent_append) (rule assms(2))
  with rm assms(1) add_cache_entry_cases [of cl dn p c] show ?thesis by (auto split: if_splits)
qed

lemma add_cache_entry_ok:
  assumes "cache_ok c"
  shows "cache_ok (snd (add_cache_entry cl dn p c))"
proof -
  have "\<forall>(d, _) \<in> set (lc_cache (remove_cache_entry dn c)). \<not> same_dn d dn"
    by (simp add: remove_cache_entry_def)
  moreover have "lc_enable c \<Longrightarrow> lc_enable (remove_cache_entry dn c)"
    by (simp add: remove_cache_entry_def)
  ultimately have "lc_enable c \<Longrightarrow> cache_ok (cache_append dn (entry_of p) (remove_cache_entry dn c))"
    using cache_ok_remove [OF assms] by (intro cache_ok_append) simp_all
  with assms cache_ok_remove [OF assms] add_cache_entry_cases [of cl dn p c] show ?thesis by (auto split: if_splits)
qed

lemma entry_copy_same [simp]: "entry_copy (le_dn e) e = e"
  by (simp add: entry_copy_def)

lemma cache_count [simp]:
  "coherent cl db oper F (cache_hit c) s = coherent cl db oper F c s" "cache_ok (cache_hit c) = cache_ok c"
  "coherent cl db oper F (cache_miss c) s = coherent cl db oper F c s" "cache_ok (cache_miss c) = cache_ok c"
  by (simp_all add: coherent_def cache_ok_def cache_hit_def cache_miss_def)

lemma fetched_missing:
  assumes law: "directory_law cl db oper" and coh: "coherent cl db oper F c s" and db: "db s (dn_keys dn) = None"
  shows "\<exists>c'. fetched cl dn get_all (Inl not_found) c = (Inl not_found, c') \<and> coherent cl db oper F c' s"
proof -
  have "ce_coherent (cl_conn cl) oper (db s (dn_keys dn)) (entry_of (Failure not_found))"
    by (simp add: ce_coherent_def entry_of_def db)
  then have c: "coherent cl db oper F (snd (add_cache_entry cl dn (Failure not_found) c)) s"
    by (rule add_cache_entry_coherent [OF coh])
  have "fst (add_cache_entry cl dn (Failure not_found) c) = Inr ()"
    by (rule add_cache_entry_total [OF directory_lawD(2) [OF law]])
  then obtain c' where "add_cache_entry cl dn (Failure not_found) c = (Inr (), c')"
    by (metis prod.collapse)
  with c show ?thesis by (simp add: fetched_def)
qed

lemma fetched_found:
  assumes law: "directory_law cl db oper" and coh: "coherent cl db oper F c s" and db: "db s (dn_keys dn) = Some al"
    and h: "holds (cl_conn cl) entry (picks (cl_conn cl) oper L al)" and all: "get_all \<Longrightarrow> L = {''*''}"
  shows "\<exists>e c'. fetched cl dn get_all (Inr entry) c = (Inr e, c') \<and> coherent cl db oper F c' s \<and>
    holds (cl_conn cl) e (picks (cl_conn cl) oper L al)"
proof -
  let ?conn = "cl_conn cl"
  let ?al = "picks ?conn oper L al"
  note sch = directory_lawD(4) [OF law]
  have one: "one_per_class ?conn ?al"
    using directory_lawD(5) [OF law db] by (auto simp: content_ok_def intro!: picks_classes)
  obtain new e where new: "copy_entry ?conn dn {} entry = (Inr new, e)" "holds ?conn new ?al" "holds ?conn e ?al"
    using copy_entry_holds [OF sch h one, of dn "{}"] by (auto simp: copied_items_def)
  let ?p = "Success new (set (map py_lower (ci_iterkeys (le_names entry)))) get_all"
  have "\<exists>P. holds ?conn new (filter P al) \<and>
      set (map py_lower (ci_iterkeys (le_names entry))) \<subseteq> \<Union> (attr_class ?conn ` fst ` set (filter P al)) \<and>
      (get_all \<longrightarrow> filter P al = picks ?conn oper {''*''} al)"
    using new(2) holds_names [OF sch h] all unfolding picks_def by blast
  then have "ce_coherent ?conn oper (db s (dn_keys dn)) (entry_of ?p)"
    unfolding ce_coherent_def entry_of_def db by simp
  then have c: "coherent cl db oper F (snd (add_cache_entry cl dn ?p c)) s"
    by (rule add_cache_entry_coherent [OF coh])
  have "fst (add_cache_entry cl dn ?p c) = Inr ()"
    by (rule add_cache_entry_total [OF directory_lawD(2) [OF law]])
  then obtain c' where "add_cache_entry cl dn ?p c = (Inr (), c')" by (metis prod.collapse)
  with c new(1,3) show ?thesis by (simp add: fetched_def)
qed

text \<open>The answer of a read, up to how an entry stores its values.\<close>

fun answers :: "ldap_attrs option \<Rightarrow> 'v ldap_conn \<Rightarrow> 'v ldap_entry res \<Rightarrow> bool" where
  "answers content conn (Inl x) \<longleftrightarrow> content = None \<and> x = not_found"
| "answers content conn (Inr e) \<longleftrightarrow> (\<exists>al. content = Some al \<and> (\<forall>a. attr_values e a = item_values conn al a))"

lemma answers_unique:
  assumes "answers content conn r" "answers content conn q"
  shows "(\<exists>x. r = Inl x \<and> q = Inl x) \<or> (\<exists>e f. r = Inr e \<and> q = Inr f \<and> attr_values e = attr_values f)"
  using assms by (cases r; cases q) auto

lemma get_entry_answers:
  assumes law: "directory_law cl db oper" and ne: "attrs \<noteq> Some ['''']"
  shows "\<exists>r s'. get_entry cl dn attrs t z False s = Some (r, s') \<and> db s' = db s \<and>
    answers (map_option (picks (cl_conn cl) oper (py_lower ` set (wanted_attrs attrs))) (db s (dn_keys dn))) (cl_conn cl) r"
proof (cases "db s (dn_keys dn)")
  case None
  then show ?thesis using get_entry_missing [OF law None] by fastforce
next
  case (Some al)
  obtain e s' where e: "get_entry cl dn attrs t z False s = Some (Inr e, s')" "db s' = db s"
    "holds (cl_conn cl) e (picks (cl_conn cl) oper (py_lower ` set (wanted_attrs attrs)) al)"
    using get_entry_found [OF law Some ne] by blast
  have "one_per_class (cl_conn cl) (picks (cl_conn cl) oper (py_lower ` set (wanted_attrs attrs)) al)"
    using directory_lawD(5) [OF law Some] by (auto simp: content_ok_def intro!: picks_classes)
  with e show ?thesis using Some holds_values [OF e(3)] by simp
qed

section \<open>Reads\<close>

lemma cache_find_in:
  assumes "cache_find dn c = Some ce"
  shows "\<exists>d. (d, ce) \<in> set (lc_cache c) \<and> same_dn d dn"
proof -
  obtain x where "find (\<lambda>(d, _). same_dn d dn) (lc_cache c) = Some x" "snd x = ce"
    using assms by (auto simp: cache_find_def)
  with find_Some_in [of "\<lambda>(d, _). same_dn d dn" "lc_cache c" x] show ?thesis by (cases x) auto
qed

lemma coherent_find:
  assumes "coherent cl db oper F c s" "cache_find dn c = Some ce" "dn_keys dn \<notin> F"
  shows "ce_coherent (cl_conn cl) oper (db s (dn_keys dn)) ce"
  using assms(1,3) cache_find_in [OF assms(2)] by (auto simp: coherent_def same_dn_def)

lemma coherent_put:
  assumes coh: "coherent cl db oper F c s" and ok: "cache_ok c" and f: "cache_find dn c = Some ce"
    and ce: "ce_coherent (cl_conn cl) oper (db s (dn_keys dn)) (ce\<lparr>ce_entry := Some e\<rparr>)"
  shows "coherent cl db oper F (cache_put dn e c) s"
proof -
  obtain d where d: "(d, ce) \<in> set (lc_cache c)" "dn_keys d = dn_keys dn"
    using cache_find_in [OF f] by (auto simp: same_dn_def)
  have "inj_on (\<lambda>(d, _). dn_keys d) (set (lc_cache c))" using ok by (simp add: cache_ok_def distinct_map)
  then have "ce' = ce" if "(d', ce') \<in> set (lc_cache c)" "dn_keys d' = dn_keys dn" for d' ce'
    using inj_onD [of "\<lambda>(d, _). dn_keys d" "set (lc_cache c)" "(d', ce')" "(d, ce)"] that d by simp
  then show ?thesis using coh ce by (auto simp: coherent_def cache_put_def same_dn_def split: if_splits)
qed

lemma cache_put_ok: "cache_ok (cache_put dn e c) = cache_ok c"
proof -
  have "map (\<lambda>(d, _). dn_keys d) (lc_cache (cache_put dn e c)) = map (\<lambda>(d, _). dn_keys d) (lc_cache c)"
    by (simp add: cache_put_def comp_def case_prod_beta)
  then show ?thesis by (simp add: cache_ok_def) (simp add: cache_put_def)
qed

lemma lookup_Reraise:
  assumes "coherent cl db oper F c s" "cache_lookup dn attrs rights c = Reraise x" "dn_keys dn \<notin> F"
  shows "db s (dn_keys dn) = None \<and> x = not_found"
proof -
  obtain ce where f: "cache_find dn c = Some ce" "ce_exception ce = Some x"
    using assms(2) by (auto simp: cache_lookup_def split: option.splits if_splits)
  from coherent_find [OF assms(1) f(1) assms(3)] f(2) show ?thesis by (simp add: ce_coherent_def)
qed

lemma lookup_CopyOf:
  assumes "coherent cl db oper F c s" "cache_lookup dn attrs rights c = CopyOf e R" "dn_keys dn \<notin> F"
  shows "\<exists>ce al P. cache_find dn c = Some ce \<and> ce_exception ce = None \<and> db s (dn_keys dn) = Some al \<and>
    holds (cl_conn cl) e (filter P al) \<and>
    ce_attrs ce \<subseteq> \<Union> (attr_class (cl_conn cl) ` fst ` set (filter P al)) \<and>
    (ce_all ce \<longrightarrow> filter P al = picks (cl_conn cl) oper {''*''} al) \<and>
    (attrs = [''*''] \<and> R = {} \<and> ce_all ce \<or> R = set (map py_lower attrs) \<and> R \<subseteq> py_lower ` ce_attrs ce)"
proof -
  obtain ce where f: "cache_find dn c = Some ce" "ce_exception ce = None" "ce_entry ce = Some e"
      "attrs = [''*''] \<and> R = {} \<and> ce_all ce \<or> R = set (map py_lower attrs) \<and> R \<subseteq> py_lower ` ce_attrs ce"
    using assms(2) by (auto simp: cache_lookup_def split: option.splits if_splits)
  obtain al P where "db s (dn_keys dn) = Some al" "holds (cl_conn cl) e (filter P al)"
      "ce_attrs ce \<subseteq> \<Union> (attr_class (cl_conn cl) ` fst ` set (filter P al))"
      "ce_all ce \<longrightarrow> filter P al = picks (cl_conn cl) oper {''*''} al"
    using coherent_find [OF assms(1) f(1) assms(3)] unfolding ce_coherent_def f(2,3) by auto
  with f show ?thesis by blast
qed

definition named_as_stored :: "'v ldap_conn \<Rightarrow> ldap_attrs option \<Rightarrow> string list option \<Rightarrow> bool" where
  "named_as_stored conn content attrs \<longleftrightarrow>
     (case content of
        None \<Rightarrow> True
      | Some al \<Rightarrow> list_all (\<lambda>(n, _). list_all (\<lambda>r. py_lower r \<in> attr_class conn n \<longrightarrow> py_lower n = py_lower r)
          (wanted_attrs attrs)) al)"

lemma hit_picks:
  assumes sch: "schema_names_ok conn" and al: "content_ok conn al"
    and sub: "A \<subseteq> \<Union> (attr_class conn ` fst ` set (filter P al))"
    and full: "all \<longrightarrow> filter P al = picks conn oper {''*''} al"
    and R: "wanted_attrs attrs = [''*''] \<and> R = {} \<and> all \<or>
       R = set (map py_lower (wanted_attrs attrs)) \<and> R \<subseteq> py_lower ` A"
    and named: "named_as_stored conn (Some al) attrs"
  shows "(if R = {} then filter P al else filter (\<lambda>(n, _). py_lower n \<in> R) (filter P al)) =
    picks conn oper (py_lower ` set (wanted_attrs attrs)) al"
proof (cases "R = {}")
  case True
  have "wanted_attrs attrs \<noteq> []" by (auto simp: wanted_attrs_def split: option.split)
  with True have "R \<noteq> set (map py_lower (wanted_attrs attrs))" by simp
  with R have "wanted_attrs attrs = [''*'']" "all" by blast+
  moreover have "py_lower ''*'' = ''*''" by code_simp
  ultimately show ?thesis using full True by simp
next
  case False
  have "set (map py_lower (wanted_attrs attrs)) = py_lower ` set (wanted_attrs attrs)" by simp
  with R False have R': "R = py_lower ` set (wanted_attrs attrs)" "R \<subseteq> py_lower ` A" by metis+
  have "r \<in> A" if r: "r \<in> py_lower ` A" for r
  proof -
    obtain x where x: "x \<in> A" "r = py_lower x" using r by blast
    have "x \<in> \<Union> (attr_class conn ` fst ` set (filter P al))" using sub x(1) by (rule subsetD)
    then obtain n where "x \<in> attr_class conn n" by (elim UN_E)
    then have "py_lower x = x" by (rule attr_class_is_lower)
    with x show ?thesis by simp
  qed
  then have "R \<subseteq> A" using R'(2) by blast
  then have sub': "R \<subseteq> \<Union> (attr_class conn ` fst ` set (filter P al))" using sub by (rule order_trans)
  have "\<forall>n \<in> fst ` set al. \<forall>r \<in> R. r \<in> attr_class conn n \<longrightarrow> py_lower n = r"
    using named unfolding R'(1) by (auto simp: named_as_stored_def list_all_iff)
  then have "filter (\<lambda>(n, _). py_lower n \<in> R) (filter P al) = picks conn oper R al"
    by (rule hit_items [OF sch al sub'])
  with False R'(1) show ?thesis by simp
qed

lemma cached_copy_correct:
  assumes law: "directory_law cl db oper" and coh: "coherent cl db oper F c s" and ok: "cache_ok c"
    and l: "cache_lookup dn (wanted_attrs attrs) rights c = CopyOf e R" and F: "dn_keys dn \<notin> F"
  shows "\<exists>new c'. cached_copy (cl_conn cl) dn R e c = (Inr new, c') \<and> coherent cl db oper F c' s \<and>
    (named_as_stored (cl_conn cl) (db s (dn_keys dn)) attrs \<longrightarrow>
     answers (map_option (picks (cl_conn cl) oper (py_lower ` set (wanted_attrs attrs))) (db s (dn_keys dn))) (cl_conn cl) (Inr new))"
proof -
  let ?conn = "cl_conn cl" and ?L = "py_lower ` set (wanted_attrs attrs)"
  note sch = directory_lawD(4) [OF law]
  from lookup_CopyOf [OF coh l F] obtain ce al P where f: "cache_find dn c = Some ce" "ce_exception ce = None"
      "db s (dn_keys dn) = Some al" "holds ?conn e (filter P al)"
      "ce_attrs ce \<subseteq> \<Union> (attr_class ?conn ` fst ` set (filter P al))"
      "ce_all ce \<longrightarrow> filter P al = picks ?conn oper {''*''} al"
      "wanted_attrs attrs = [''*''] \<and> R = {} \<and> ce_all ce \<or>
       R = set (map py_lower (wanted_attrs attrs)) \<and> R \<subseteq> py_lower ` ce_attrs ce" by blast
  note al = directory_lawD(5) [OF law f(3)]
  have one: "one_per_class ?conn (filter P al)"
    using al by (auto simp: content_ok_def intro!: one_per_class_filter)
  obtain new e' where new: "copy_entry ?conn dn R e = (Inr new, e')"
      "holds ?conn new (copied_items R (filter P al))" "holds ?conn e' (filter P al)"
    using copy_entry_holds [OF sch f(4) one] by blast
  have "ce_coherent ?conn oper (Some al) (ce\<lparr>ce_entry := Some e'\<rparr>)"
    using f(2,5,6) new(3) by (auto simp: ce_coherent_def)
  then have coh': "coherent cl db oper F (cache_put dn e' (cache_hit c)) s"
    using coh ok f(1,3) by (intro coherent_put [where ce = ce]) (simp_all add: cache_find_def cache_hit_def coherent_def cache_ok_def)
  have "attr_values new a = item_values ?conn (picks ?conn oper ?L al) a" if "named_as_stored ?conn (Some al) attrs" for a
    using holds_values [OF new(2) copied_items_classes [OF sch one], of a] copied_items_values [OF sch, of R "filter P al" a]
    unfolding hit_picks [OF sch al f(5-7) that] by simp
  then show ?thesis using new(1) coh' f(3) by (simp add: cached_copy_def)
qed

text \<open>A read through an enabled cache, on a server as above.\<close>

lemma wanted_attrs_idem [simp]: "wanted_attrs (Some (wanted_attrs attrs)) = wanted_attrs attrs"
  by (auto simp: wanted_attrs_def split: option.split)

lemma wanted_attrs_plain: "wanted_attrs attrs \<noteq> ['''']"
  by (auto simp: wanted_attrs_def split: option.split)

lemma cache_miss_correct:
  assumes law: "directory_law cl db oper" and coh: "coherent cl db oper F c s" and at: "attrs = wanted_attrs attrs'"
  shows "\<exists>q s1 r c'. get_entry cl dn (Some attrs) t z False s = Some (q, s1) \<and> db s1 = db s \<and>
    fetched cl dn (attrs = [''*'']) q c = (r, c') \<and> coherent cl db oper F c' s1 \<and>
    answers (map_option (picks (cl_conn cl) oper (py_lower ` set attrs)) (db s (dn_keys dn))) (cl_conn cl) r"
proof -
  have ne: "Some attrs \<noteq> Some ['''']" and w: "wanted_attrs (Some attrs) = attrs"
    using at wanted_attrs_plain by simp_all
  have star: "attrs = [''*''] \<Longrightarrow> py_lower ` set attrs = {''*''}"
  proof -
    have "py_lower ''*'' = ''*''" by code_simp
    then show "attrs = [''*''] \<Longrightarrow> py_lower ` set attrs = {''*''}" by simp
  qed
  show ?thesis
  proof (cases "db s (dn_keys dn)")
    case None
    obtain s1 where g: "get_entry cl dn (Some attrs) t z False s = Some (Inl not_found, s1)" "db s1 = db s"
      using get_entry_missing [OF law None] by blast
    have coh1: "coherent cl db oper F c s1" using coh coherent_cong [of db s1 s] g(2) by blast
    have db1: "db s1 (dn_keys dn) = None" using g(2) None by simp
    obtain c' where "fetched cl dn (attrs = [''*'']) (Inl not_found) c = (Inl not_found, c')" "coherent cl db oper F c' s1"
      using fetched_missing [OF law coh1 db1] by blast
    with g None show ?thesis by simp
  next
    case (Some al)
    obtain e s1 where g: "get_entry cl dn (Some attrs) t z False s = Some (Inr e, s1)" "db s1 = db s"
        "holds (cl_conn cl) e (picks (cl_conn cl) oper (py_lower ` set attrs) al)"
      using get_entry_found [OF law Some ne] unfolding w by blast
    have coh1: "coherent cl db oper F c s1" using coh coherent_cong [of db s1 s] g(2) by blast
    have db1: "db s1 (dn_keys dn) = Some al" using g(2) Some by simp
    obtain e' c' where f: "fetched cl dn (attrs = [''*'']) (Inr e) c = (Inr e', c')" "coherent cl db oper F c' s1"
        "holds (cl_conn cl) e' (picks (cl_conn cl) oper (py_lower ` set attrs) al)"
      using fetched_found [OF law coh1 db1 g(3) star] by blast
    have "one_per_class (cl_conn cl) (picks (cl_conn cl) oper (py_lower ` set attrs) al)"
      using directory_lawD(5) [OF law Some] by (auto simp: content_ok_def intro!: picks_classes)
    with g f show ?thesis using Some holds_values [OF f(3)] by simp
  qed
qed

lemma cache_get_entry_correct:
  assumes law: "directory_law cl db oper" and coh: "coherent cl db oper F c s" and ok: "cache_ok c" and en: "lc_enable c"
    and F: "dn_keys dn \<notin> F"
  shows "\<exists>r c' s'. cache_get_entry cl dn attrs t z False (c, s) = Some (r, c', s') \<and>
    db s' = db s \<and> coherent cl db oper F c' s' \<and>
    (named_as_stored (cl_conn cl) (db s (dn_keys dn)) attrs \<longrightarrow>
     answers (map_option (picks (cl_conn cl) oper (py_lower ` set (wanted_attrs attrs))) (db s (dn_keys dn))) (cl_conn cl) r)"
proof (cases "cache_lookup dn (wanted_attrs attrs) False c")
  case (Reraise x)
  with lookup_Reraise [OF coh Reraise F] en coh show ?thesis by (simp add: cache_get_entry_def)
next
  case (CopyOf e R)
  obtain new c' where "cached_copy (cl_conn cl) dn R e c = (Inr new, c')" "coherent cl db oper F c' s"
    "named_as_stored (cl_conn cl) (db s (dn_keys dn)) attrs \<longrightarrow>
     answers (map_option (picks (cl_conn cl) oper (py_lower ` set (wanted_attrs attrs))) (db s (dn_keys dn))) (cl_conn cl) (Inr new)"
    using cached_copy_correct [OF law coh ok CopyOf F] by blast
  with CopyOf en show ?thesis by (simp add: cache_get_entry_def)
next
  case Miss
  obtain q s1 r c' where "get_entry cl dn (Some (wanted_attrs attrs)) t z False s = Some (q, s1)" "db s1 = db s"
    "fetched cl dn (wanted_attrs attrs = [''*'']) q c = (r, c')" "coherent cl db oper F c' s1"
    "answers (map_option (picks (cl_conn cl) oper (py_lower ` set (wanted_attrs attrs))) (db s (dn_keys dn))) (cl_conn cl) r"
    using cache_miss_correct [OF law coh refl] by blast
  with Miss en show ?thesis by (simp add: cache_get_entry_def)
qed

section \<open>Writes\<close>

lemma remove_shrinks: "shrinking.keeps (\<lambda>c. (Inr x, remove_cache_entry dn c))"
  by (rule shrinking.keepsI) (simp add: shrinks_remove)

lemma drop_values_shrinks: "shrinking.keeps (drop_values cl vs)"
  unfolding drop_values_def
  by (induction vs) (auto intro!: shrinking.keeps_intros remove_shrinks simp del: act_seq.simps)

lemma drop_members_shrinks: "shrinking.keeps (drop_members cl ml)"
  unfolding drop_members_def
  by (induction ml)
    (auto intro!: shrinking.keeps_intros drop_values_shrinks simp del: act_seq.simps split: option.split)

section \<open>Sequences of operations\<close>

datatype 'v cache_op =
    OpGet raw_dn "string list option" "int option" "int option" bool
  | OpAdd "'v ldap_entry"
  | OpUpdate "'v ldap_entry"
  | OpDelete raw_dn
  | OpMove raw_dn raw_dn bool
  | OpModify raw_dn "ldap_mod list"
  | OpClear

fun cache_step :: "('v, 's) client \<Rightarrow> 'v cache_op \<Rightarrow> 'v ldap_cache \<times> 's \<Rightarrow> ('v ldap_cache \<times> 's) option" where
  "cache_step cl (OpGet dn attrs t z rights) st = map_option snd (cache_get_entry cl dn attrs t z rights st)"
| "cache_step cl (OpAdd e) (c, s) = Some (snd (snd (cache_add_entry cl (e, c, s))))"
| "cache_step cl (OpUpdate e) (c, s) = Some (snd (snd (cache_update_entry cl (e, c, s))))"
| "cache_step cl (OpDelete dn) st = Some (snd (cache_delete_entry cl dn st))"
| "cache_step cl (OpMove dn new del) st = Some (snd (cache_move_entry cl dn new del st))"
| "cache_step cl (OpModify dn ml) st = Some (snd (cache_modify_s cl dn ml st))"
| "cache_step cl OpClear (c, s) = Some (clear_cache c, s)"

inductive cache_reach :: "('v, 's) client \<Rightarrow> ('v cache_op \<Rightarrow> bool) \<Rightarrow> 'v ldap_cache \<times> 's \<Rightarrow> bool"
  for cl :: "('v, 's) client" and allowed :: "'v cache_op \<Rightarrow> bool" where
  start: "cache_reach cl allowed (LDAPCache_init enable_cache cache_size, s)"
| step: "cache_reach cl allowed st \<Longrightarrow> allowed op \<Longrightarrow> cache_step cl op st = Some st' \<Longrightarrow> cache_reach cl allowed st'"

text \<open>The cache never exceeds its size and has one entry for each DN, whatever the server does.\<close>

lemma fetched_ok:
  assumes "cache_ok c"
  shows "cache_ok (snd (fetched cl dn all r c))"
proof -
  have add: "cache_ok c1" if "add_cache_entry cl dn p c = (q, c1)" for p q c1
    using add_cache_entry_ok [OF assms, of cl dn p] that by simp
  show ?thesis
  proof (cases r)
    case (Inl x)
    obtain q c1 where "add_cache_entry cl dn (Failure x) c = (q, c1)" by (rule prod.exhaust)
    then show ?thesis using add [of "Failure x"] assms
      by (cases x) (auto simp: fetched_def Inl split: sum.split)
  next
    case (Inr entry)
    obtain q e where copy: "copy_entry (cl_conn cl) dn {} entry = (q, e)" by (rule prod.exhaust)
    show ?thesis
    proof (cases q)
      case (Inl x)
      with copy Inr assms show ?thesis by (simp add: fetched_def)
    next
      case new: (Inr new)
      let ?p = "Success new (set (map py_lower (ci_iterkeys (le_names entry)))) all"
      obtain u c1 where u: "add_cache_entry cl dn ?p c = (u, c1)" by (rule prod.exhaust)
      then have "cache_ok c1" by (rule add)
      with u copy new Inr show ?thesis by (simp add: fetched_def split: sum.split)
    qed
  qed
qed

lemma cache_get_entry_ok:
  assumes "cache_ok c" "cache_get_entry cl dn attrs t z rights (c, s) = Some (r, c', s')"
  shows "cache_ok c'"
proof (cases "lc_enable c")
  case False
  with assms show ?thesis by (auto simp: cache_get_entry_def split: option.splits)
next
  case True
  show ?thesis
  proof (cases "cache_lookup dn (wanted_attrs attrs) rights c")
    case (Reraise x)
    with True assms show ?thesis by (auto simp: cache_get_entry_def)
  next
    case (CopyOf e R)
    with True assms show ?thesis
      by (auto simp: cache_get_entry_def cached_copy_def cache_put_ok split: prod.splits)
  next
    case Miss
    then obtain q where "fetched cl dn (wanted_attrs attrs = [''*'']) q c = (r, c')"
      using True assms(2) by (auto simp: cache_get_entry_def Let_def split: prod.splits option.splits)
    with fetched_ok [OF assms(1), of cl dn "wanted_attrs attrs = [''*'']" q] show ?thesis by simp
  qed
qed

lemma cache_modify_shrinks: "shrinks c (fst (snd (cache_modify_s cl dn ml (c, s))))"
proof -
  obtain r c1 where d: "drop_members cl ml c = (r, c1)" by (rule prod.exhaust)
  have "shrinks c c1" by (rule shrinking.keepsD [OF drop_members_shrinks d])
  with d shrinking.R_trans [OF _ shrinks_remove] show ?thesis
    by (auto simp: cache_modify_s_def split: sum.split prod.split)
qed

lemma cache_write_states:
  "snd (snd (cache_add_entry cl (e, c, s))) = (remove_cache_entry (le_dn e) c, snd (snd (add_entry cl (e, s))))"
  "snd (snd (cache_update_entry cl (e, c, s))) = (remove_cache_entry (le_dn e) c, snd (snd (update_entry cl (e, s))))"
  "snd (cache_delete_entry cl dn (c, s)) = (remove_cache_entry dn c, snd (delete_entry cl dn s))"
  "snd (cache_move_entry cl dn new del (c, s)) =
     (remove_cache_entry new (remove_cache_entry dn c), snd (move_entry cl dn new del s))"
  by (simp_all add: cache_add_entry_def cache_update_entry_def cache_delete_entry_def cache_move_entry_def
      split: prod.split)

lemma cache_step_ok:
  assumes "cache_step cl op (c, s) = Some (c', s')" "cache_ok c"
  shows "cache_ok c'"
proof (cases op)
  case (OpGet dn attrs t z rights)
  with assms cache_get_entry_ok [OF assms(2)] show ?thesis by auto
next
  case (OpModify dn ml)
  have "c' = fst (snd (cache_modify_s cl dn ml (c, s)))" using assms(1) OpModify by (simp add: prod_eq_iff)
  then show ?thesis using shrinks_ok [OF cache_modify_shrinks assms(2), of cl dn ml s] by simp
next
  case OpClear
  with assms show ?thesis by (auto simp: clear_cache_def cache_ok_def)
qed (use assms cache_ok_remove in \<open>auto simp: cache_write_states\<close>)

lemma coherent_clear: "coherent cl db oper F (clear_cache c) s"
  by (simp add: coherent_def clear_cache_def)

section \<open>Which entries an operation touches\<close>

text \<open>
  The entries a write names, by their keys: the one it writes, both ends of a rename, and for a
  modification the entries listed as values of the attributes whose change the server mirrors in
  them. A modification with a value that is no DN names nothing, since it raises before it reaches
  the server.
\<close>

definition mirrored_attr :: "string \<Rightarrow> bool" where
  "mirrored_attr attr \<longleftrightarrow>
     py_lower attr = ''member'' \<or> py_lower attr = ''ipaallowedtoperform_write_keys'' \<or> py_lower attr = ''managedby_host''"

definition member_values :: "ldap_mod list \<Rightarrow> bytes option set" where
  "member_values ml =
     (\<Union>(_, attr, vs) \<in> set ml. if mirrored_attr attr then (case vs of None \<Rightarrow> {None} | Some l \<Rightarrow> Some ` set l) else {})"

definition value_dn :: "('v, 's) client \<Rightarrow> bytes option \<Rightarrow> raw_dn option" where
  "value_dn cl v =
     (case v of None \<Rightarrow> None | Some t \<Rightarrow> (case DN_init (cl_lib cl) [AStr t] of Inl _ \<Rightarrow> None | Inr d \<Rightarrow> Some d))"

fun named :: "('v, 's) client \<Rightarrow> 'v cache_op \<Rightarrow> dn_key set" where
  "named cl (OpGet _ _ _ _ _) = {}"
| "named cl (OpAdd e) = {dn_keys (le_dn e)}"
| "named cl (OpUpdate e) = {dn_keys (le_dn e)}"
| "named cl (OpDelete dn) = {dn_keys dn}"
| "named cl (OpMove dn new _) = {dn_keys dn, dn_keys new}"
| "named cl (OpModify dn ml) =
     (if \<forall>v \<in> member_values ml. value_dn cl v \<noteq> None
      then insert (dn_keys dn) {dn_keys d |d. Some d \<in> value_dn cl ` member_values ml} else {})"
| "named cl OpClear = UNIV"

text \<open>A read with effective rights may leave an entry in the cache that holds the rights too.\<close>

fun rights_read :: "'v cache_op \<Rightarrow> dn_key set" where
  "rights_read (OpGet dn _ _ _ rights) = (if rights then {dn_keys dn} else {})"
| "rights_read _ = {}"

text \<open>
  A run of the cache. With the state goes the set of the entries that changed without the cache
  being told: a step adds to it the entries that differ on the server after it, and takes away those
  it names. The directory may change between the operations as well.
\<close>

definition changed :: "('s \<Rightarrow> dn_key \<Rightarrow> ldap_attrs option) \<Rightarrow> 's \<Rightarrow> 's \<Rightarrow> dn_key set" where
  "changed db s s' = {k. db s' k \<noteq> db s k}"

inductive cache_run ::
    "('v, 's) client \<Rightarrow> ('s \<Rightarrow> dn_key \<Rightarrow> ldap_attrs option) \<Rightarrow> 'v ldap_cache \<Rightarrow> 's \<Rightarrow> dn_key set \<Rightarrow> bool"
  for cl :: "('v, 's) client" and db where
  begin_run: "cache_run cl db (LDAPCache_init enable_cache cache_size) s {}"
| operation: "cache_run cl db c s F \<Longrightarrow> cache_step cl op (c, s) = Some (c', s') \<Longrightarrow>
    cache_run cl db c' s' (F \<union> changed db s s' \<union> rights_read op - named cl op)"
| elsewhere: "cache_run cl db c s F \<Longrightarrow> cache_run cl db c s' (F \<union> changed db s s')"

text \<open>Every write drops what it names, and no operation caches another entry than the one it reads.\<close>

definition absent :: "dn_key set \<Rightarrow> 'v ldap_cache \<Rightarrow> bool" where
  "absent K c \<longleftrightarrow> (\<forall>(d, _) \<in> set (lc_cache c). dn_keys d \<notin> K)"

lemma absent_shrinks: "shrinks c c' \<Longrightarrow> absent K c \<Longrightarrow> absent K c'"
  by (auto simp: shrinks_def absent_def)

lemma absent_remove: "absent {dn_keys d} (remove_cache_entry d c)"
  by (auto simp: absent_def remove_cache_entry_def same_dn_def)

lemma absent_Un: "absent (K \<union> L) c \<longleftrightarrow> absent K c \<and> absent L c"
  by (auto simp: absent_def)

lemma drop_values_absent:
  "drop_values cl vs c = (Inr (), c') \<Longrightarrow>
     (\<forall>v \<in> Some ` set vs. value_dn cl v \<noteq> None) \<and> absent {dn_keys d |d. Some d \<in> value_dn cl ` Some ` set vs} c'"
proof (induction vs arbitrary: c)
  case Nil
  then show ?case by (simp add: absent_def)
next
  case (Cons v vs)
  then obtain d where d: "DN_init (cl_lib cl) [AStr v] = Inr d"
      "drop_values cl vs (remove_cache_entry d c) = (Inr (), c')"
    by (auto simp: drop_values_def act_defs split: sum.splits)
  have "absent {dn_keys d} c'"
    using shrinking.keepsD [OF drop_values_shrinks d(2)] absent_remove by (rule absent_shrinks)
  then have "absent ({dn_keys d} \<union> {dn_keys d |d. Some d \<in> value_dn cl ` Some ` set vs}) c'"
    using Cons.IH [OF d(2)] by (simp only: absent_Un)
  moreover have "{dn_keys d |d. Some d \<in> value_dn cl ` Some ` set (v # vs)} =
      {dn_keys d} \<union> {dn_keys d |d. Some d \<in> value_dn cl ` Some ` set vs}"
    using d(1) by (auto simp: value_dn_def)
  ultimately show ?case using Cons.IH [OF d(2)] d(1) by (simp add: value_dn_def)
qed

lemma member_values_Cons:
  "member_values ((m, attr, vs) # ml) =
     (if mirrored_attr attr then (case vs of None \<Rightarrow> {None} | Some l \<Rightarrow> Some ` set l) else {}) \<union> member_values ml"
  by (simp add: member_values_def)

lemma mirrored_attr_MEMBER: "py_lower attr \<in> set MEMBER_ATTRS \<longleftrightarrow> mirrored_attr attr"
  by (auto simp: MEMBER_ATTRS_def mirrored_attr_def)

lemma drop_members_absent:
  "drop_members cl ml c = (Inr (), c') \<Longrightarrow>
     (\<forall>v \<in> member_values ml. value_dn cl v \<noteq> None) \<and> absent {dn_keys d |d. Some d \<in> value_dn cl ` member_values ml} c'"
proof (induction ml arbitrary: c)
  case Nil
  then show ?case by (simp add: absent_def member_values_def)
next
  case (Cons m ml)
  obtain x attr vs where m: "m = (x, attr, vs)" by (cases m)
  let ?V = "if mirrored_attr attr then (case vs of None \<Rightarrow> {None} | Some l \<Rightarrow> Some ` set l) else {}"
  obtain c1 where c1: "drop_members cl ml c1 = (Inr (), c')"
      "(\<forall>v \<in> ?V. value_dn cl v \<noteq> None) \<and> absent {dn_keys d |d. Some d \<in> value_dn cl ` ?V} c1"
  proof (cases "mirrored_attr attr")
    case False
    then have "drop_members cl ml c = (Inr (), c')"
      using Cons.prems by (simp add: m drop_members_def act_defs mirrored_attr_MEMBER)
    with False that [of c] show ?thesis by (simp add: absent_def)
  next
    case True
    then obtain l c1 where l: "vs = Some l" "drop_values cl l c = (Inr (), c1)" "drop_members cl ml c1 = (Inr (), c')"
      using Cons.prems by (auto simp: m drop_members_def act_defs mirrored_attr_MEMBER split: option.splits prod.splits sum.splits)
    then show ?thesis using that [of c1] drop_values_absent [OF l(2)] True by simp
  qed
  have "absent {dn_keys d |d. Some d \<in> value_dn cl ` ?V} c'"
    using shrinking.keepsD [OF drop_members_shrinks c1(1)] c1(2) by (blast intro: absent_shrinks)
  then have "absent ({dn_keys d |d. Some d \<in> value_dn cl ` ?V} \<union> {dn_keys d |d. Some d \<in> value_dn cl ` member_values ml}) c'"
    using Cons.IH [OF c1(1)] by (simp only: absent_Un)
  moreover have "{dn_keys d |d. Some d \<in> value_dn cl ` member_values (m # ml)} =
      {dn_keys d |d. Some d \<in> value_dn cl ` ?V} \<union> {dn_keys d |d. Some d \<in> value_dn cl ` member_values ml}"
    unfolding m member_values_Cons by blast
  ultimately show ?case using c1(2) Cons.IH [OF c1(1)] unfolding m member_values_Cons by auto
qed

lemma drop_values_total:
  "\<forall>v \<in> Some ` set vs. value_dn cl v \<noteq> None \<Longrightarrow> \<exists>c'. drop_values cl vs c = (Inr (), c')"
proof (induction vs arbitrary: c)
  case (Cons v vs)
  then obtain d where "DN_init (cl_lib cl) [AStr v] = Inr d" by (auto simp: value_dn_def split: sum.splits)
  with Cons.IH [of "remove_cache_entry d c"] Cons.prems show ?case by (simp add: drop_values_def act_defs)
qed (simp add: drop_values_def act_defs)

lemma drop_members_total:
  "\<forall>v \<in> member_values ml. value_dn cl v \<noteq> None \<Longrightarrow> \<exists>c'. drop_members cl ml c = (Inr (), c')"
proof (induction ml arbitrary: c)
  case (Cons m ml)
  obtain x attr vs where m: "m = (x, attr, vs)" by (cases m)
  note vals = Cons.prems [unfolded m member_values_Cons]
  then have rest: "\<exists>c'. drop_members cl ml c1 = (Inr (), c')" for c1 using Cons.IH by simp
  show ?case
  proof (cases "mirrored_attr attr")
    case False
    then show ?thesis using rest [of c] by (simp add: m drop_members_def act_defs mirrored_attr_MEMBER)
  next
    case True
    have "value_dn cl None = None" by (simp add: value_dn_def)
    with True vals obtain l where l: "vs = Some l" "\<forall>v \<in> Some ` set l. value_dn cl v \<noteq> None"
      by (cases vs) auto
    obtain c1 where "drop_values cl l c = (Inr (), c1)" using drop_values_total [OF l(2)] by blast
    then show ?thesis using rest [of c1] True l(1) by (simp add: m drop_members_def act_defs mirrored_attr_MEMBER)
  qed
qed (simp add: drop_members_def act_defs)

lemma modify_absent:
  assumes "snd (cache_modify_s cl dn ml (c, s)) = (c', s')"
  shows "absent (named cl (OpModify dn ml)) c'"
proof (cases "\<forall>v \<in> member_values ml. value_dn cl v \<noteq> None")
  case True
  obtain c1 where c1: "drop_members cl ml c = (Inr (), c1)" using drop_members_total [OF True] by blast
  then have c': "c' = remove_cache_entry dn c1" using assms by (simp add: cache_modify_s_def split: prod.splits)
  let ?K = "{dn_keys d |d. Some d \<in> value_dn cl ` member_values ml}"
  have "absent ?K c'"
    unfolding c' by (rule absent_shrinks [OF shrinks_remove conjunct2 [OF drop_members_absent [OF c1]]])
  moreover have "absent {dn_keys dn} c'" unfolding c' by (rule absent_remove)
  ultimately have "absent ({dn_keys dn} \<union> ?K) c'" unfolding absent_Un by (intro conjI)
  then show ?thesis unfolding named.simps if_P [OF True] by simp
qed (auto simp: absent_def)

text \<open>What is in the cache after a step was there before, or is the entry the step reads.\<close>

definition adds_only :: "raw_dn \<Rightarrow> 'v ldap_cache \<Rightarrow> 'v ldap_cache \<Rightarrow> bool" where
  "adds_only dn c c' \<longleftrightarrow> (\<forall>x \<in> set (lc_cache c'). dn_keys (fst x) = dn_keys dn \<or> x \<in> set (lc_cache c))"

lemma adds_only_refl: "adds_only dn c c" "adds_only dn c (cache_hit c)" "adds_only dn c (cache_put dn e (cache_hit c))"
  by (auto simp: adds_only_def cache_hit_def cache_put_def same_dn_def split: if_splits)

lemma adds_only_add: "adds_only dn c (snd (add_cache_entry cl dn p c))"
proof -
  have rm: "set (lc_cache (remove_cache_entry dn c)) \<subseteq> set (lc_cache c)" by (auto simp: remove_cache_entry_def)
  have "set (tl l) \<subseteq> set l" for l :: "(raw_dn \<times> 'a cache_entry) list" by (cases l) auto
  from this [of "lc_cache (remove_cache_entry dn c) @ [(dn, entry_of p)]"]
  have "set (lc_cache (cache_append dn (entry_of p) (remove_cache_entry dn c))) \<subseteq>
      insert (dn, entry_of p) (set (lc_cache (remove_cache_entry dn c)))"
    by (auto simp: cache_append_def Let_def)
  then have "adds_only dn c (cache_append dn (entry_of p) (remove_cache_entry dn c))"
    "adds_only dn c (remove_cache_entry dn c)"
    using rm unfolding adds_only_def by auto
  with adds_only_refl(1) [of dn c] add_cache_entry_cases [of cl dn p c] show ?thesis by (auto split: if_splits)
qed

lemma adds_only_fetched: "adds_only dn c (snd (fetched cl dn all r c))"
proof -
  have add: "adds_only dn c c1" "adds_only dn c (cache_miss c1)" if "add_cache_entry cl dn p c = (q, c1)" for p q c1
    using adds_only_add [of dn c cl p] that by (simp_all add: adds_only_def cache_miss_def)
  show ?thesis
  proof (cases r)
    case (Inl x)
    obtain q c1 where "add_cache_entry cl dn (Failure x) c = (q, c1)" by (rule prod.exhaust)
    then show ?thesis using add [of "Failure x"] adds_only_refl(1) [of dn c]
      by (cases x) (auto simp: fetched_def Inl split: sum.split)
  next
    case (Inr entry)
    obtain q e where copy: "copy_entry (cl_conn cl) dn {} entry = (q, e)" by (rule prod.exhaust)
    show ?thesis
    proof (cases q)
      case (Inl x)
      with copy Inr adds_only_refl(1) show ?thesis by (simp add: fetched_def)
    next
      case new: (Inr new)
      let ?p = "Success new (set (map py_lower (ci_iterkeys (le_names entry)))) all"
      obtain u c1 where u: "add_cache_entry cl dn ?p c = (u, c1)" by (rule prod.exhaust)
      with copy new Inr add [OF u] show ?thesis by (simp add: fetched_def split: sum.split)
    qed
  qed
qed

lemma adds_only_get:
  assumes "cache_get_entry cl dn attrs t z rights (c, s) = Some (r, c', s')"
  shows "adds_only dn c c'"
proof (cases "lc_enable c \<and> cache_lookup dn (wanted_attrs attrs) rights c = Miss")
  case True
  then obtain q where "fetched cl dn (wanted_attrs attrs = [''*'']) q c = (r, c')"
    using assms by (auto simp: cache_get_entry_def Let_def split: prod.splits option.splits)
  with adds_only_fetched [of dn c cl "wanted_attrs attrs = [''*'']" q] show ?thesis by simp
next
  case False
  show ?thesis
  proof (cases "lc_enable c")
    case off: False
    with assms have "c' = c" by (auto simp: cache_get_entry_def split: option.splits)
    then show ?thesis by (simp add: adds_only_refl)
  next
    case True
    show ?thesis
    proof (cases "cache_lookup dn (wanted_attrs attrs) rights c")
      case (Reraise x)
      with True assms show ?thesis by (simp add: cache_get_entry_def) (use adds_only_refl in blast)
    next
      case (CopyOf e R)
      obtain q e' where "copy_entry (cl_conn cl) dn R e = (q, e')" by (rule prod.exhaust)
      with CopyOf True assms have "c' = cache_put dn e' (cache_hit c)" by (simp add: cache_get_entry_def cached_copy_def)
      then show ?thesis by (simp add: adds_only_refl)
    qed (use False True in simp)
  qed
qed

lemma cache_reach_ok:
  assumes "cache_reach cl allowed st"
  shows "cache_ok (fst st)"
  using assms
proof induction
  case (start enable_cache cache_size s)
  then show ?case by (simp add: LDAPCache_init_def cache_ok_def)
next
  case (step st op st')
  then show ?case using cache_step_ok [of cl op "fst st" "snd st" "fst st'" "snd st'"] by simp
qed

lemma step_entries:
  assumes "cache_step cl op (c, s) = Some (c', s')" "x \<in> set (lc_cache c')"
  shows "dn_keys (fst x) \<notin> named cl op \<and>
    (x \<in> set (lc_cache c) \<or> (\<exists>dn attrs t z rights. op = OpGet dn attrs t z rights \<and> dn_keys (fst x) = dn_keys dn))"
proof (cases op)
  case (OpGet dn attrs t z rights)
  then obtain r where "cache_get_entry cl dn attrs t z rights (c, s) = Some (r, c', s')" using assms(1) by auto
  from adds_only_get [OF this] assms(2) OpGet show ?thesis unfolding adds_only_def by auto
next
  case (OpModify dn ml)
  then have m: "snd (cache_modify_s cl dn ml (c, s)) = (c', s')" using assms(1) by simp
  have "x \<in> set (lc_cache c)"
    using cache_modify_shrinks [of c cl dn ml s] m assms(2) by (auto simp: shrinks_def)
  moreover have "dn_keys (fst x) \<notin> named cl op"
    using modify_absent [OF m] assms(2) OpModify unfolding absent_def by (auto simp: case_prod_beta)
  ultimately show ?thesis by blast
next
  case OpClear
  with assms show ?thesis by (auto simp: clear_cache_def)
qed (use assms in \<open>auto simp: cache_write_states remove_cache_entry_def same_dn_def\<close>)

lemma coherent_mono: "coherent cl db oper F c s \<Longrightarrow> F \<subseteq> G \<Longrightarrow> coherent cl db oper G c s"
  by (auto simp: coherent_def)

text \<open>An entry that is not among the ones left out was not changed and not read with rights.\<close>

lemma step_coherent:
  assumes law: "directory_law cl db oper" and coh: "coherent cl db oper F c s" and ok: "cache_ok c"
    and step: "cache_step cl op (c, s) = Some (c', s')"
  shows "coherent cl db oper (F \<union> changed db s s' \<union> rights_read op - named cl op) c' s'"
proof (cases "\<exists>dn attrs t z. op = OpGet dn attrs t z False \<and> dn_keys dn \<notin> F \<and> lc_enable c")
  case True
  then obtain dn attrs t z where op: "op = OpGet dn attrs t z False" "dn_keys dn \<notin> F" "lc_enable c" by blast
  have "coherent cl db oper F c' s'"
    using cache_get_entry_correct [OF law coh ok op(3,2), of attrs t z] step op(1) by auto
  then show ?thesis by (rule coherent_mono) (auto simp: op(1))
next
  case other: False
  show ?thesis
    unfolding coherent_def
  proof (intro ballI, clarify)
    fix d ce
    assume x: "(d, ce) \<in> set (lc_cache c')" and d: "dn_keys d \<notin> F \<union> changed db s s' \<union> rights_read op - named cl op"
    from step_entries [OF step x] d have d: "dn_keys d \<notin> F" "db s' (dn_keys d) = db s (dn_keys d)" "dn_keys d \<notin> rights_read op"
      and "(d, ce) \<in> set (lc_cache c) \<or> (\<exists>dn attrs t z rights. op = OpGet dn attrs t z rights \<and> dn_keys d = dn_keys dn)"
      by (auto simp: changed_def)
    moreover have False if "op = OpGet dn attrs t z rights" "dn_keys d = dn_keys dn" "(d, ce) \<notin> set (lc_cache c)" for dn attrs t z rights
    proof (cases "lc_enable c")
      case True
      then show False using other that(1,2) d by (cases rights) auto
    next
      case False
      then have "c' = c" using step that(1) by (auto simp: cache_get_entry_def split: option.splits)
      then show False using x that(3) by simp
    qed
    ultimately have "(d, ce) \<in> set (lc_cache c)" by blast
    then show "ce_coherent (cl_conn cl) oper (db s' (dn_keys d)) ce" using coh d(1,2) by (auto simp: coherent_def)
  qed
qed

lemma cache_run_coherent:
  assumes "cache_run cl db c s F" "directory_law cl db oper"
  shows "cache_ok c \<and> coherent cl db oper F c s"
  using assms(1)
proof induction
  case (begin_run enable_cache cache_size s)
  then show ?case by (simp add: LDAPCache_init_def coherent_def cache_ok_def)
next
  case (operation c s F op c' s')
  have "cache_ok c" "coherent cl db oper F c s" using operation.IH by simp_all
  then show ?case
    by (intro conjI cache_step_ok [OF operation.hyps(2)] step_coherent [OF assms(2) _ _ operation.hyps(2)])
next
  case (elsewhere c s F s')
  then show ?case by (auto simp: coherent_def changed_def)
qed

section \<open>Properties\<close>

text \<open>
  C4: reading through the cache is reading from the server, for every entry that did not change
  without the cache being told. Start with an empty cache and run any sequence of reads and writes
  through it, with a server that may change any entry at any time. An entry goes out of date when it
  changes on the server in a step that does not name it (the rename of an ancestor, the
  \<open>memberOf\<close> of a member that the modification does not list, a change made elsewhere) or when it
  is read with effective rights; it comes back when a later step names it: the entry written, both
  ends of a rename, the members listed in a modification. For an entry that is not out of date
  \<open>get_entry\<close> of the cache returns, and so does \<open>get_entry\<close> of the client on the same server state;
  either both raise the same exception, or both return an entry, with the same values for every
  attribute name; and the read changes no entry on the server. The attributes have to be asked for
  by the names under which the server stores them, other than by the single empty name, and the read
  itself is without effective rights.
\<close>

theorem cache_transparent:
  assumes "directory_law cl db oper" and "cache_run cl db c s F" and "dn_keys dn \<notin> F"
    and "attrs \<noteq> Some ['''']" and "named_as_stored (cl_conn cl) (db s (dn_keys dn)) attrs"
  shows "\<exists>r c' s1 q s2. cache_get_entry cl dn attrs t z False (c, s) = Some (r, c', s1) \<and>
    get_entry cl dn attrs t z False s = Some (q, s2) \<and> db s1 = db s \<and>
    ((\<exists>x. r = Inl x \<and> q = Inl x) \<or> (\<exists>e f. r = Inr e \<and> q = Inr f \<and> attr_values e = attr_values f))"
proof -
  obtain q s2 where q: "get_entry cl dn attrs t z False s = Some (q, s2)" "db s2 = db s"
      "answers (map_option (picks (cl_conn cl) oper (py_lower ` set (wanted_attrs attrs))) (db s (dn_keys dn))) (cl_conn cl) q"
    using get_entry_answers [OF assms(1,4)] by blast
  show ?thesis
  proof (cases "lc_enable c")
    case True
    have "coherent cl db oper F c s" "cache_ok c"
      using cache_run_coherent [OF assms(2,1)] by simp_all
    from cache_get_entry_correct [OF assms(1) this True assms(3), of attrs t z] assms(5)
    obtain r c' s1 where r: "cache_get_entry cl dn attrs t z False (c, s) = Some (r, c', s1)" "db s1 = db s"
        "answers (map_option (picks (cl_conn cl) oper (py_lower ` set (wanted_attrs attrs))) (db s (dn_keys dn))) (cl_conn cl) r"
      by (elim exE conjE) simp
    show ?thesis using r(1,2) q(1) answers_unique [OF r(3) q(3)] by (intro exI conjI)
  next
    case False
    with q have "cache_get_entry cl dn attrs t z False (c, s) = Some (q, c, s2)" by (simp add: cache_get_entry_def)
    moreover have "(\<exists>x. q = Inl x \<and> q = Inl x) \<or> (\<exists>e f. q = Inr e \<and> q = Inr f \<and> attr_values e = attr_values f)"
      by (cases q) auto
    ultimately show ?thesis using q(1,2) by (intro exI conjI)
  qed
qed

text \<open>
  C20: the cache is bounded. Whatever the server answers and whatever operations are run, with
  effective rights or without, the cache never holds more entries than its size, never two for
  the same DN, and none at all when it is disabled.
\<close>

theorem cache_bounded:
  assumes "cache_reach cl (\<lambda>_. True) (c, s)"
  shows "int (length (lc_cache c)) \<le> max 0 (lc_size c) \<and> distinct (map (\<lambda>(d, _). dn_keys d) (lc_cache c)) \<and>
    (\<not> lc_enable c \<longrightarrow> lc_cache c = [])"
  using cache_reach_ok [OF assms] by (auto simp: cache_ok_def split: if_splits)

section \<open>A directory that meets the hypotheses\<close>

text \<open>A text for each comparison key: every part is closed by a mark of its own.\<close>

definition prefix_inj :: "('a \<Rightarrow> string) \<Rightarrow> bool" where
  "prefix_inj f \<longleftrightarrow> (\<forall>x y r q. f x @ r = f y @ q \<longrightarrow> x = y \<and> r = q)"

definition enc_list :: "('a \<Rightarrow> string) \<Rightarrow> 'a list \<Rightarrow> string" where
  "enc_list f xs = concat (map (\<lambda>x. CHR ''.'' # f x) xs) @ '';''"

definition enc_pair :: "('a \<Rightarrow> string) \<Rightarrow> ('b \<Rightarrow> string) \<Rightarrow> 'a \<times> 'b \<Rightarrow> string" where
  "enc_pair f g p = f (fst p) @ g (snd p)"

definition enc_nat :: "nat \<Rightarrow> string" where
  "enc_nat n = enc_list (\<lambda>_ :: unit. []) (replicate n ())"

definition enc_key :: "dn_key \<Rightarrow> string" where
  "enc_key = enc_list (enc_pair enc_nat (enc_list (enc_pair (enc_list (\<lambda>c. [c])) (enc_list (\<lambda>c. [c])))))"

lemma prefix_injD: "prefix_inj f \<Longrightarrow> f x @ r = f y @ q \<Longrightarrow> x = y \<and> r = q"
  unfolding prefix_inj_def by blast

lemma prefix_inj_list: "prefix_inj f \<Longrightarrow> prefix_inj (enc_list f)"
proof -
  assume f: "prefix_inj f"
  have "enc_list f xs @ r = enc_list f ys @ q \<Longrightarrow> xs = ys \<and> r = q" for xs ys r q
  proof (induction xs arbitrary: ys)
    case Nil
    then show ?case by (cases ys) (auto simp: enc_list_def)
  next
    case (Cons x xs)
    then obtain y ys' where ys: "ys = y # ys'" by (cases ys) (auto simp: enc_list_def)
    have "f x @ enc_list f xs @ r = f y @ enc_list f ys' @ q" using Cons.prems by (simp add: ys enc_list_def)
    from prefix_injD [OF f this] Cons.IH [of ys'] show ?case by (simp add: ys)
  qed
  then show ?thesis unfolding prefix_inj_def by blast
qed

lemma prefix_inj_pair: "prefix_inj f \<Longrightarrow> prefix_inj g \<Longrightarrow> prefix_inj (enc_pair f g)"
  unfolding prefix_inj_def enc_pair_def by (metis append.assoc prod.collapse)

lemma prefix_inj_nat: "prefix_inj enc_nat"
proof -
  have "prefix_inj (enc_list (\<lambda>_ :: unit. []))" by (rule prefix_inj_list) (simp add: prefix_inj_def)
  then show ?thesis unfolding prefix_inj_def enc_nat_def by (metis length_replicate)
qed

lemma enc_key_inj: "enc_key k = enc_key l \<longleftrightarrow> k = l"
proof -
  have "prefix_inj enc_key"
    unfolding enc_key_def
    by (intro prefix_inj_list prefix_inj_pair prefix_inj_nat) (simp_all add: prefix_inj_def)
  then show ?thesis using prefix_injD [of enc_key k "[]" l "[]"] by auto
qed

text \<open>
  The state is the content, by the texts of DNs, with the messages that are still to be sent. It
  takes additions and deletions; a modification that lists members records it in their
  \<open>memberOf\<close>; it refuses every other change.
\<close>

type_synonym dir_state = "(string \<Rightarrow> ldap_attrs option) \<times> search_msg list"

definition dir_entry :: "dir_state \<Rightarrow> string \<Rightarrow> ldap_attrs option" where
  "dir_entry s t = (case fst s t of Some al \<Rightarrow> if content_ok plain_conn al then Some al else None | None \<Rightarrow> None)"

definition member_texts :: "ldap_mod list \<Rightarrow> string set" where
  "member_texts ml = {enc_key (dn_keys [[(''cn'', v, 1)]]) |v. Some v \<in> member_values ml}"

definition dir_server :: "dir_state server" where
  "dir_server =
     \<lparr>sv_search_ext = (\<lambda>rq s. case dir_entry s (rq_base rq) of
          None \<Rightarrow> (Inl (LDAPError NO_SUCH_OBJECT [] []), s)
        | Some al \<Rightarrow> (Inr 1, (fst s,
            [\<lparr>sm_final = False, sm_list = [(Some (rq_base rq), select_attrs plain_conn (\<lambda>_. False) (rq_attrs rq) al)], sm_controls = []\<rparr>]))),
      sv_result3 = (\<lambda>_ s. case snd s of
          [] \<Rightarrow> (Inr \<lparr>sm_final = True, sm_list = [], sm_controls = []\<rparr>, s)
        | m # ms \<Rightarrow> (Inr m, (fst s, ms))),
      sv_search_ext_s = (\<lambda>_ s. (Inr (), s)),
      sv_whoami_s = (\<lambda>s. (Inr ''dn: '', s)),
      sv_add_s = (\<lambda>t al s. if dir_entry s t = None then (Inr (), ((fst s)(t \<mapsto> al), snd s))
          else (Inl (LDAPError ALREADY_EXISTS [] []), s)),
      sv_modify_s = (\<lambda>t ml s. (Inr (), (\<lambda>u. if u \<in> member_texts ml
          then map_option (AList.update ''memberOf'' [t]) (fst s u) else fst s u, snd s))),
      sv_delete_s = (\<lambda>t s. if dir_entry s t = None then (Inl (LDAPError NO_SUCH_OBJECT [] []), s)
          else (Inr (), ((fst s)(t := None), snd s))),
      sv_rename_s = (\<lambda>_ _ _ _ s. (Inl (LDAPError UNWILLING_TO_PERFORM [] []), s))\<rparr>"

definition dir_client :: "(string, dir_state) client" where
  "dir_client = (sample_client dir_server)\<lparr>cl_dn2str := \<lambda>d. enc_key (dn_keys d)\<rparr>"

lemma dir_client_fields:
  "cl_conn dir_client = plain_conn" "cl_server dir_client = dir_server" "cl_dn2str dir_client d = enc_key (dn_keys d)"
  "lib_str2dn (cl_lib dir_client) t = Some [[(''cn'', t, 1)]]"
  by (simp_all add: dir_client_def sample_client_def)

definition dir_db :: "dir_state \<Rightarrow> dn_key \<Rightarrow> ldap_attrs option" where
  "dir_db s k = dir_entry s (enc_key k)"

lemma dir_db_fst: "dir_db (fst s, ms) = dir_db s"
  by (simp add: dir_db_def dir_entry_def fun_eq_iff)

lemma dir_search_law: "search_law dir_client dir_db (\<lambda>_. False)"
  unfolding search_law_def
proof (intro allI impI)
  fix rq :: search_req and dn s assume "rq_base rq = cl_dn2str dir_client dn \<and> rq_scope rq = SCOPE_BASE \<and> rq_controls rq = None"
  then have b: "rq_base rq = enc_key (dn_keys dn)" by (simp add: dir_client_fields)
  have "DN_init (cl_lib dir_client) [AStr t] = Inr (map sort_avas [[(''cn'', t, 1)]])" for t
    by (simp add: DN_init_def rdns_from_sequence_def rdns_from_value_def dir_client_fields)
  then show "case dir_db s (dn_keys dn) of
      None \<Rightarrow> \<exists>desc info s'. sv_search_ext (cl_server dir_client) rq s = (Inl (LDAPError NO_SUCH_OBJECT desc info), s') \<and> dir_db s' = dir_db s
    | Some al \<Rightarrow> \<exists>mid s1 m s2 f s3 dtext d. sv_search_ext (cl_server dir_client) rq s = (Inr mid, s1) \<and>
        sv_result3 (cl_server dir_client) mid s1 = (Inr m, s2) \<and> \<not> sm_final m \<and>
        sm_list m = [(Some dtext, select_attrs (cl_conn dir_client) (\<lambda>_. False) (rq_attrs rq) al)] \<and>
        DN_init (cl_lib dir_client) [AStr dtext] = Inr d \<and>
        sv_result3 (cl_server dir_client) mid s2 = (Inr f, s3) \<and> sm_final f \<and> dir_db s3 = dir_db s"
    using dir_db_fst [of s] by (cases "dir_entry s (enc_key (dn_keys dn))")
      (auto simp: dir_client_fields dir_server_def dir_db_def [of s "dn_keys dn"] b)
qed

lemma dir_law: "directory_law dir_client dir_db (\<lambda>_. False)"
proof -
  have "schema_names_ok plain_conn" by (simp add: schema_names_ok_def plain_conn_def)
  moreover have "dir_db s k = Some al \<Longrightarrow> content_ok plain_conn al" for s k al
    by (auto simp: dir_db_def dir_entry_def split: option.splits if_splits)
  ultimately show ?thesis
    using dir_search_law plain_conn_ok(2)
    by (simp add: directory_law_def dir_client_fields special_dns_parse_def)
qed

definition user_dn :: raw_dn where
  "user_dn = [[(''cn'', ''x'', 1)]]"

definition group_dn :: raw_dn where
  "group_dn = [[(''cn'', ''g'', 1)]]"

definition user_attrs :: ldap_attrs where
  "user_attrs = [(''cn'', [''x'']), (''uid'', [''y''])]"

definition dir_start :: dir_state where
  "dir_start = (Map.empty(enc_key (dn_keys user_dn) \<mapsto> user_attrs), [])"

text \<open>The entry of the user has been read once.\<close>

lemma dir_read:
  "\<exists>c s. cache_step dir_client (OpGet user_dn None None None False) (LDAPCache_init True 100, dir_start) = Some (c, s) \<and>
    dir_db s = dir_db dir_start"
proof -
  let ?c = "LDAPCache_init True 100"
  have coh: "coherent dir_client dir_db (\<lambda>_. False) {} ?c dir_start" "cache_ok ?c" "lc_enable ?c"
    by (simp_all add: LDAPCache_init_def coherent_def cache_ok_def)
  have nin: "dn_keys user_dn \<notin> {}" by simp
  obtain r c s where "cache_get_entry dir_client user_dn None None None False (?c, dir_start) = Some (r, c, s)"
    "dir_db s = dir_db dir_start"
    using cache_get_entry_correct [where dn = user_dn and attrs = None and t = None and z = None, OF dir_law coh nin]
    by (elim exE conjE) simp_all
  then show ?thesis by simp
qed

text \<open>Then it has become a member of the group: the server has changed it.\<close>

definition join_group :: "ldap_mod list" where
  "join_group = [(MOD_ADD, ''member'', Some [''x''])]"

lemma join_group_member: "member_values join_group = {Some ''x''}"
proof -
  have "mirrored_attr ''member''" by code_simp
  then show ?thesis by (simp add: member_values_def join_group_def)
qed

lemma join_group_effect:
  assumes "dir_db s = dir_db dir_start"
  shows "\<exists>c' s'. cache_step dir_client (OpModify group_dn join_group) (c, s) = Some (c', s') \<and>
    dir_db s' (dn_keys user_dn) = Some (user_attrs @ [(''memberOf'', [enc_key (dn_keys group_dn)])])"
proof -
  let ?u = "enc_key (dn_keys user_dn)" and ?g = "enc_key (dn_keys group_dn)"
  have ok: "content_ok plain_conn user_attrs" "content_ok plain_conn (user_attrs @ [(''memberOf'', [?g])])"
    by (simp_all add: content_ok_def one_per_class_def attr_class_def plain_conn_def user_attrs_def)
  have "dir_entry s ?u = Some user_attrs"
    using fun_cong [OF assms, of "dn_keys user_dn"] ok(1) by (simp add: dir_db_def dir_entry_def dir_start_def)
  then have u: "fst s ?u = Some user_attrs" by (auto simp: dir_entry_def split: option.splits if_splits)
  let ?s = "(\<lambda>u. if u \<in> member_texts join_group then map_option (AList.update ''memberOf'' [?g]) (fst s u) else fst s u, snd s)"
  have "?u \<in> member_texts join_group" by (auto simp: member_texts_def join_group_member user_dn_def)
  then have "fst ?s ?u = Some (user_attrs @ [(''memberOf'', [?g])])" by (simp add: u) (simp add: user_attrs_def)
  then have "dir_db ?s (dn_keys user_dn) = Some (user_attrs @ [(''memberOf'', [?g])])"
    using ok(2) by (simp add: dir_db_def dir_entry_def)
  moreover have "snd (snd (cache_modify_s dir_client group_dn join_group (c, s))) = ?s"
  proof -
    have "DN_init (cl_lib dir_client) [AStr ''x''] = Inr (map sort_avas [[(''cn'', ''x'', 1)]])"
      by (simp add: DN_init_def rdns_from_sequence_def rdns_from_value_def dir_client_fields)
    then have "\<forall>v \<in> member_values join_group. value_dn dir_client v \<noteq> None" by (simp add: join_group_member value_dn_def)
    from drop_members_total [OF this] obtain c1 where "drop_members dir_client join_group c = (Inr (), c1)" by blast
    then show ?thesis by (simp add: cache_modify_s_def client_modify_s_def dir_client_fields dir_server_def)
  qed
  ultimately show ?thesis by (cases "snd (cache_modify_s dir_client group_dn join_group (c, s))") auto
qed

lemma dir_joined:
  "\<exists>c s F. cache_run dir_client dir_db c s F \<and> dn_keys user_dn \<notin> F \<and>
     dir_db s (dn_keys user_dn) \<noteq> dir_db dir_start (dn_keys user_dn)"
proof -
  obtain c s where g: "cache_step dir_client (OpGet user_dn None None None False) (LDAPCache_init True 100, dir_start) = Some (c, s)"
    "dir_db s = dir_db dir_start" using dir_read by blast
  obtain c' s' where m: "cache_step dir_client (OpModify group_dn join_group) (c, s) = Some (c', s')"
    "dir_db s' (dn_keys user_dn) = Some (user_attrs @ [(''memberOf'', [enc_key (dn_keys group_dn)])])"
    using join_group_effect [OF g(2), of c] by blast
  note run = cache_run.operation [OF cache_run.operation [where db = dir_db, OF cache_run.begin_run g(1)] m(1)]
  have "DN_init (cl_lib dir_client) [AStr ''x''] = Inr (map sort_avas user_dn)"
    by (simp add: DN_init_def rdns_from_sequence_def rdns_from_value_def dir_client_fields user_dn_def)
  moreover have "map sort_avas user_dn = user_dn" by code_simp
  ultimately have "value_dn dir_client (Some ''x'') = Some user_dn" by (simp add: value_dn_def)
  then have "dn_keys user_dn \<in> named dir_client (OpModify group_dn join_group)" by (simp add: join_group_member)
  moreover have "dir_db dir_start (dn_keys user_dn) \<noteq> dir_db s' (dn_keys user_dn)"
    unfolding m(2) by (auto simp: dir_db_def dir_entry_def dir_start_def user_attrs_def split: if_splits)
  ultimately show ?thesis using run by (intro exI conjI) (assumption, auto)
qed

theorem cache_transparent_witness:
  "\<exists>c s F r c' s1 q s2. cache_run dir_client dir_db c s F \<and> dn_keys user_dn \<notin> F \<and>
     dir_db s (dn_keys user_dn) \<noteq> dir_db dir_start (dn_keys user_dn) \<and>
     cache_get_entry dir_client user_dn (Some [''memberOf'']) None None False (c, s) = Some (r, c', s1) \<and>
     get_entry dir_client user_dn (Some [''memberOf'']) None None False s = Some (q, s2) \<and> dir_db s1 = dir_db s \<and>
     ((\<exists>x. r = Inl x \<and> q = Inl x) \<or> (\<exists>e f. r = Inr e \<and> q = Inr f \<and> attr_values e = attr_values f))"
proof -
  obtain c s F where r: "cache_run dir_client dir_db c s F" "dn_keys user_dn \<notin> F"
    "dir_db s (dn_keys user_dn) \<noteq> dir_db dir_start (dn_keys user_dn)" using dir_joined by blast
  have "named_as_stored plain_conn content attrs" for content attrs
    by (simp add: named_as_stored_def attr_class_def plain_conn_def list_all_iff split: option.split)
  then have "named_as_stored (cl_conn dir_client) (dir_db s (dn_keys user_dn)) (Some [''memberOf''])"
    by (simp add: dir_client_fields)
  moreover have "Some [''memberOf''] \<noteq> Some ['''']" by simp
  ultimately show ?thesis using r cache_transparent [OF dir_law r(1,2), of "Some [''memberOf'']" None None] by blast
qed

lemma dir_reach:
  "\<exists>c s. cache_reach dir_client (\<lambda>_. True) (c, s)"
proof -
  obtain c s where "cache_step dir_client (OpGet user_dn None None None False) (LDAPCache_init True 100, dir_start) = Some (c, s)"
    using dir_read by blast
  from cache_reach.step [where allowed = "\<lambda>_. True", OF cache_reach.start TrueI this] show ?thesis by blast
qed

theorem cache_bounded_witness:
  "\<exists>c s. cache_reach dir_client (\<lambda>_. True) (c, s) \<and> int (length (lc_cache c)) \<le> max 0 (lc_size c) \<and>
     distinct (map (\<lambda>(d, _). dn_keys d) (lc_cache c))"
  using dir_reach cache_bounded [of dir_client] by blast

end
