(* ===== verification/Change_Conf.thy ===== *)
theory Change_Conf
  imports Py_Prelude
begin

text \<open>
  The configuration file editor of \<^verbatim>\<open>src/ipapython/ipachangeconf.py\<close>: a file is read into a
  tree of sections, subsections, options, comments and empty lines, merged with a tree of changes
  and written back. The dictionaries of the source are the type \<open>opt\<close>; a missing key \<open>action\<close> or
  \<open>delim\<close> and the value \<open>None\<close> are \<open>None\<close>. A tree holds no dictionary twice. Locks, permissions and
  failing writes of files are not modelled; line ends are those of Python's text mode.
\<close>

section \<open>Options and the editor's settings\<close>

datatype sect_kind = Sec | Sub

datatype opt =
    Sect sect_kind string "string option" "opt list"
  | Opt string "string option" "string option" "string option"
  | Comment string
  | Empty
  | OtherType string

record change_conf =
  cc_progname :: string
  cc_indent :: "string list"
  cc_assign :: "string list"
  cc_dassign :: string
  cc_comment :: "string list"
  cc_dcomment :: string
  cc_eol :: "string list"
  cc_deol :: string
  cc_sectnamdel :: "string list"
  cc_subsectdel :: "string list"
  cc_case_insensitive :: bool

definition EOL :: string where
  "EOL = [CHR 0x0A]"

definition IPAChangeConf_init :: "string \<Rightarrow> change_conf" where
  "IPAChangeConf_init name =
     \<lparr>cc_progname = name, cc_indent = [[], [], []], cc_assign = ['' = '', ''=''], cc_dassign = '' = '',
      cc_comment = [''#''], cc_dcomment = ''#'', cc_eol = [EOL], cc_deol = EOL,
      cc_sectnamdel = [''['', '']''], cc_subsectdel = [''{'', ''}''], cc_case_insensitive = True\<rparr>"

text \<open>The arguments of the setters: a tuple of strings, a string, or something else.\<close>

datatype setting = Tuple "string list" | Str string | NotAString

definition setProgName :: "string \<Rightarrow> change_conf \<Rightarrow> change_conf" where
  "setProgName name cc = cc\<lparr>cc_progname := name\<rparr>"

definition setIndent :: "setting \<Rightarrow> change_conf \<Rightarrow> change_conf res" where
  "setIndent indent cc =
     (case indent of
        Tuple l \<Rightarrow> Inr (cc\<lparr>cc_indent := l\<rparr>)
      | Str s \<Rightarrow> Inr (cc\<lparr>cc_indent := [s]\<rparr>)
      | NotAString \<Rightarrow> Inl (ValueError ''Indent must be a list of strings''))"

fun setting_list :: "string list + string \<Rightarrow> string list" where
  "setting_list (Inl l) = l"
| "setting_list (Inr s) = [s]"

definition setOptionAssignment :: "string list + string \<Rightarrow> change_conf \<Rightarrow> change_conf res" where
  "setOptionAssignment assign cc =
     rbind (py_nth (setting_list assign) 0) (\<lambda>d. Inr (cc\<lparr>cc_assign := setting_list assign, cc_dassign := d\<rparr>))"

definition setCommentPrefix :: "string list + string \<Rightarrow> change_conf \<Rightarrow> change_conf res" where
  "setCommentPrefix comment cc =
     rbind (py_nth (setting_list comment) 0) (\<lambda>d. Inr (cc\<lparr>cc_comment := setting_list comment, cc_dcomment := d\<rparr>))"

definition setEndLine :: "string list + string \<Rightarrow> change_conf \<Rightarrow> change_conf res" where
  "setEndLine eol cc =
     rbind (py_nth (setting_list eol) 0) (\<lambda>d. Inr (cc\<lparr>cc_eol := setting_list eol, cc_deol := d\<rparr>))"

definition setSectionNameDelimiters :: "string list \<Rightarrow> change_conf \<Rightarrow> change_conf" where
  "setSectionNameDelimiters delims cc = cc\<lparr>cc_sectnamdel := delims\<rparr>"

definition setSubSectionDelimiters :: "string list \<Rightarrow> change_conf \<Rightarrow> change_conf" where
  "setSubSectionDelimiters delims cc = cc\<lparr>cc_subsectdel := delims\<rparr>"

section \<open>Recognising lines\<close>

text \<open>\<open>False\<close> is \<open>None\<close>; the empty string is a false value too.\<close>

definition truthy :: "string option \<Rightarrow> bool" where
  "truthy r \<longleftrightarrow> r \<noteq> None \<and> r \<noteq> Some []"

definition matchComment :: "change_conf \<Rightarrow> string \<Rightarrow> string option" where
  "matchComment cc line =
     map_option (\<lambda>v. drop (length v) (py_lstrip line))
       (find (\<lambda>v. is_prefix_of v (py_lstrip line)) (cc_comment cc))"

definition matchEmpty :: "string \<Rightarrow> bool" where
  "matchEmpty line \<longleftrightarrow> py_strip line = []"

definition matchSection :: "change_conf \<Rightarrow> string \<Rightarrow> string option" where
  "matchSection cc line =
     (let cl0 = filter (\<lambda>c. \<not> is_space c) line;
          cl = (if cc_case_insensitive cc then py_lower cl0 else cl0)
      in case cc_sectnamdel cc of
           [a, b] \<Rightarrow>
             if is_prefix_of a cl \<and> is_suffix_of b cl
             then Some (py_slice cl (Some (int (length a))) (Some (- int (length b))))
             else None
         | _ \<Rightarrow> None)"

definition split_line :: "string \<Rightarrow> string \<Rightarrow> (string \<times> string) option res" where
  "split_line sep line = (if sep = [] then Inl (ValueError ''empty separator'') else Inr (py_split1 sep line))"

definition matchSubSection :: "change_conf \<Rightarrow> string \<Rightarrow> string option res" where
  "matchSubSection cc line =
     (if truthy (matchComment cc line) then Inr None
      else rbind (split_line (cc_dassign cc) line) (\<lambda>parts.
        case parts of
          None \<Rightarrow> Inr None
        | Some (a, b) \<Rightarrow>
            rbind (py_nth (cc_subsectdel cc) 0) (\<lambda>d. Inr (if py_strip b = d then Some (py_strip a) else None))))"

definition matchSubSectionEnd :: "change_conf \<Rightarrow> string \<Rightarrow> bool res" where
  "matchSubSectionEnd cc line =
     (if truthy (matchComment cc line) then Inr False
      else rbind (py_nth (cc_subsectdel cc) 1) (\<lambda>d. Inr (py_strip line = d)))"

definition getSectionLine :: "change_conf \<Rightarrow> string \<Rightarrow> string" where
  "getSectionLine cc s = (case cc_sectnamdel cc of [a, b] \<Rightarrow> a @ s @ b @ cc_deol cc | _ \<Rightarrow> s)"

section \<open>Writing\<close>

text \<open>\<open>str(value)\<close>.\<close>

definition value_str :: "string option \<Rightarrow> string" where
  "value_str v = (case v of None \<Rightarrow> ''None'' | Some s \<Rightarrow> s)"

definition clip_level :: "change_conf \<Rightarrow> int \<Rightarrow> int" where
  "clip_level cc level =
     (if level \<ge> int (length (cc_indent cc)) then int (length (cc_indent cc)) - 1 else level)"

definition section_line :: "change_conf \<Rightarrow> string \<Rightarrow> string res" where
  "section_line cc name =
     rbind (py_nth (cc_sectnamdel cc) 0) (\<lambda>a. rbind (py_nth (cc_sectnamdel cc) 1) (\<lambda>b. Inr (a @ name @ b)))"

definition subsection_line :: "change_conf \<Rightarrow> int \<Rightarrow> string \<Rightarrow> string res" where
  "subsection_line cc level name =
     rbind (py_nth (cc_indent cc) level) (\<lambda>i. rbind (py_nth (cc_subsectdel cc) 0) (\<lambda>d.
       Inr (i @ name @ cc_dassign cc @ d)))"

definition subsection_end :: "change_conf \<Rightarrow> int \<Rightarrow> string res" where
  "subsection_end cc level =
     rbind (py_nth (cc_indent cc) level) (\<lambda>i. rbind (py_nth (cc_subsectdel cc) 1) (\<lambda>d. Inr (i @ d)))"

definition option_line :: "change_conf \<Rightarrow> int \<Rightarrow> string \<Rightarrow> string \<Rightarrow> string option \<Rightarrow> string res" where
  "option_line cc level name delim v =
     rbind (py_nth (cc_indent cc) level) (\<lambda>i. Inr (i @ name @ delim @ value_str v))"

definition delim_of :: "change_conf \<Rightarrow> string option \<Rightarrow> string" where
  "delim_of cc delim = (case delim of None \<Rightarrow> cc_dassign cc | Some d \<Rightarrow> d)"

text \<open>The strings of \<open>output\<close>; the text of a nested list is one of them.\<close>

fun dump_lines :: "change_conf \<Rightarrow> int \<Rightarrow> opt list \<Rightarrow> string list res" where
  "dump_lines cc level [] = Inr []"
| "dump_lines cc level (Sect Sec name act v # os) =
     rbind (section_line cc name) (\<lambda>l.
     rbind (dump_lines cc (clip_level cc (level + 1)) v) (\<lambda>ls.
     rbind (dump_lines cc level os) (\<lambda>rest. Inr (l # py_join (cc_deol cc) (ls @ [[]]) # rest))))"
| "dump_lines cc level (Sect Sub name act v # os) =
     rbind (subsection_line cc level name) (\<lambda>l.
     rbind (dump_lines cc (clip_level cc (level + 1)) v) (\<lambda>ls.
     rbind (subsection_end cc level) (\<lambda>e.
     rbind (dump_lines cc level os) (\<lambda>rest. Inr (l # py_join (cc_deol cc) (ls @ [[]]) # e # rest)))))"
| "dump_lines cc level (Opt name act delim v # os) =
     (if delim_of cc delim \<notin> set (cc_assign cc) then Inl (ValueError ''Unknown delim must be one of'')
      else rbind (option_line cc level name (delim_of cc delim) v) (\<lambda>l.
           rbind (dump_lines cc level os) (\<lambda>rest. Inr (l # rest))))"
| "dump_lines cc level (Comment v # os) =
     rbind (dump_lines cc level os) (\<lambda>rest. Inr ((cc_dcomment cc @ v) # rest))"
| "dump_lines cc level (Empty # os) = rbind (dump_lines cc level os) (\<lambda>rest. Inr ([] # rest))"
| "dump_lines cc level (OtherType t # os) = Inl (SyntaxError ''Unknown type'')"

definition dump :: "change_conf \<Rightarrow> opt list \<Rightarrow> int \<Rightarrow> string res" where
  "dump cc options level =
     rbind (dump_lines cc (clip_level cc level) options) (\<lambda>ls. Inr (py_join (cc_deol cc) (ls @ [[]])))"

section \<open>Reading\<close>

fun find_delim :: "string list \<Rightarrow> string \<Rightarrow> (string \<times> string \<times> string) option res" where
  "find_delim [] line = Inr None"
| "find_delim (d # ds) line =
     rbind (split_line d line) (\<lambda>parts.
       case parts of Some (a, b) \<Rightarrow> Inr (Some (d, a, b)) | None \<Rightarrow> find_delim ds line)"

definition parseLine :: "change_conf \<Rightarrow> string \<Rightarrow> opt res" where
  "parseLine cc line =
     (if matchEmpty line then Inr Empty
      else
        case matchComment cc line of
          Some (c # cs) \<Rightarrow> Inr (Comment (py_rstrip (c # cs)))
        | _ \<Rightarrow>
            rbind (split_line (cc_dassign cc) line) (\<lambda>parts.
            case parts of
              Some (a, b) \<Rightarrow> Inr (Opt (py_strip a) None None (Some (py_rstrip b)))
            | None \<Rightarrow>
                rbind (find_delim (tl (cc_assign cc)) line) (\<lambda>r.
                case r of
                  None \<Rightarrow> Inl (SyntaxError ''Syntax Error: Unknown line format'')
                | Some (d, a, b) \<Rightarrow> Inr (Opt (py_strip a) None (Some d) (Some (py_rstrip b))))))"

text \<open>
  The lists \<open>opts\<close>, \<open>sectopts\<close> and \<open>subsectopts\<close> of \<open>parse\<close>; \<open>curopts\<close> and \<open>fatheropts\<close> are names
  of one of them.
\<close>

datatype which = WOpts | WSect | WSub

record parse_state =
  ps_opts :: "opt list"
  ps_sectopts :: "opt list"
  ps_section :: "string option"
  ps_subsectopts :: "opt list"
  ps_subsection :: "string option"
  ps_cur :: which
  ps_father :: which

definition parse_start :: parse_state where
  "parse_start =
     \<lparr>ps_opts = [], ps_sectopts = [], ps_section = None, ps_subsectopts = [], ps_subsection = None,
      ps_cur = WOpts, ps_father = WOpts\<rparr>"

fun append_to :: "which \<Rightarrow> opt \<Rightarrow> parse_state \<Rightarrow> parse_state" where
  "append_to WOpts x st = st\<lparr>ps_opts := ps_opts st @ [x]\<rparr>"
| "append_to WSect x st = st\<lparr>ps_sectopts := ps_sectopts st @ [x]\<rparr>"
| "append_to WSub x st = st\<lparr>ps_subsectopts := ps_subsectopts st @ [x]\<rparr>"

definition flush_section :: "parse_state \<Rightarrow> parse_state" where
  "flush_section st =
     (case ps_section st of
        None \<Rightarrow> st
      | Some s \<Rightarrow> st\<lparr>ps_opts := ps_opts st @ [Sect Sec s None (ps_sectopts st)]\<rparr>)"

definition parse_error :: "string \<Rightarrow> string \<Rightarrow> pyexc \<Rightarrow> pyexc" where
  "parse_error fname line x =
     (case x of
        SyntaxError e \<Rightarrow> SyntaxError (e @ '' in file '' @ fname @ '': ['' @ py_rstrip line @ '']'')
      | _ \<Rightarrow> x)"

definition parse_step :: "change_conf \<Rightarrow> string \<Rightarrow> string \<Rightarrow> parse_state \<Rightarrow> parse_state res" where
  "parse_step cc fname line st =
     (case matchSection cc line of
        Some (c # cs) \<Rightarrow>
          Inr ((flush_section st)\<lparr>ps_sectopts := [], ps_cur := WSect, ps_father := WSect, ps_section := Some (c # cs)\<rparr>)
      | _ \<Rightarrow>
          rbind (matchSubSection cc line) (\<lambda>v.
          if truthy v
          then (if ps_subsection st \<noteq> None
                then Inl (SyntaxError ''nested subsections are not supported yet'')
                else Inr (st\<lparr>ps_subsectopts := [], ps_cur := WSub, ps_subsection := v\<rparr>))
          else
            rbind (matchSubSectionEnd cc line) (\<lambda>e.
            if e
            then (case ps_subsection st of
                    None \<Rightarrow> Inl (SyntaxError ''Unmatched end subsection terminator found'')
                  | Some s \<Rightarrow>
                      Inr ((append_to (ps_father st) (Sect Sub s None (ps_subsectopts st)) st)
                             \<lparr>ps_subsection := None, ps_cur := ps_father st\<rparr>))
            else
              (case parseLine cc line of
                 Inl x \<Rightarrow> Inl (parse_error fname line x)
               | Inr o1 \<Rightarrow> Inr (append_to (ps_cur st) o1 st)))))"

fun parse_loop :: "change_conf \<Rightarrow> string \<Rightarrow> string list \<Rightarrow> parse_state \<Rightarrow> parse_state res" where
  "parse_loop cc fname [] st = Inr st"
| "parse_loop cc fname (line # ls) st = rbind (parse_step cc fname line st) (parse_loop cc fname ls)"

definition parse_end :: "parse_state \<Rightarrow> opt list" where
  "parse_end st = (if ps_sectopts st \<noteq> [] then ps_opts (flush_section st) else ps_opts st)"

definition parse :: "change_conf \<Rightarrow> string \<Rightarrow> string list \<Rightarrow> opt list res" where
  "parse cc fname f = rbind (parse_loop cc fname f parse_start) (\<lambda>st. Inr (parse_end st))"

text \<open>The lines that iterating over a text file gives.\<close>

fun file_lines :: "string \<Rightarrow> string list" where
  "file_lines [] = []"
| "file_lines (c # s) =
     (if [c] = EOL then [c] # file_lines s
      else (case file_lines s of [] \<Rightarrow> [[c]] | l # ls \<Rightarrow> (c # l) # ls))"

section \<open>Merging\<close>

fun is_opt :: "string \<Rightarrow> opt \<Rightarrow> bool" where
  "is_opt name (Opt n _ _ _) \<longleftrightarrow> n = name"
| "is_opt name _ \<longleftrightarrow> False"

fun is_sect :: "sect_kind \<Rightarrow> string \<Rightarrow> opt \<Rightarrow> bool" where
  "is_sect k name (Sect k' n _ _) \<longleftrightarrow> k' = k \<and> n = name"
| "is_sect k name _ \<longleftrightarrow> False"

fun is_any_sect :: "opt \<Rightarrow> bool" where
  "is_any_sect (Sect _ _ _ _) \<longleftrightarrow> True"
| "is_any_sect _ \<longleftrightarrow> False"

text \<open>\<open>findOpts\<close> with the test on type and name as a predicate.\<close>

fun findOpts :: "opt list \<Rightarrow> (opt \<Rightarrow> bool) \<Rightarrow> bool \<Rightarrow> nat \<times> opt option" where
  "findOpts [] P exclude_sections = (0, None)"
| "findOpts (x # xs) P exclude_sections =
     (if P x then (0, Some x)
      else if exclude_sections \<and> is_any_sect x then (0, None)
      else (case findOpts xs P exclude_sections of (n, r) \<Rightarrow> (Suc n, r)))"

text \<open>The local variable \<open>val\<close> of \<open>commentOpts\<close> keeps its last value; at first it has none.\<close>

fun comment_loop :: "change_conf \<Rightarrow> int \<Rightarrow> string option \<Rightarrow> opt list \<Rightarrow> opt list res" where
  "comment_loop cc level vl [] = Inr []"
| "comment_loop cc level vl (Sect Sec name act v # os) =
     rbind (comment_loop cc (clip_level cc (level + 1)) None v) (\<lambda>no.
     rbind (section_line cc name) (\<lambda>l.
     rbind (comment_loop cc level (Some (cc_dcomment cc @ l)) os) (\<lambda>rest.
       Inr (Comment (cc_dcomment cc @ l) # no @ rest))))"
| "comment_loop cc level vl (Sect Sub name act v # os) =
     rbind (comment_loop cc (clip_level cc (level + 1)) None v) (\<lambda>no.
     rbind (subsection_line cc level name) (\<lambda>l.
     rbind (subsection_end cc level) (\<lambda>e.
     rbind (comment_loop cc level (Some e) os) (\<lambda>rest. Inr (Comment l # no @ Comment e # rest)))))"
| "comment_loop cc level vl (Opt name act delim v # os) =
     rbind (if delim_of cc delim \<notin> set (cc_assign cc)
            then rbind (option_line cc level name (delim_of cc delim) v) (\<lambda>l. Inr (Some l))
            else Inr vl) (\<lambda>vl'.
     case vl' of
       None \<Rightarrow> Inl (UnboundLocalError ''val'')
     | Some s \<Rightarrow> rbind (comment_loop cc level vl' os) (\<lambda>rest. Inr (Comment s # rest)))"
| "comment_loop cc level vl (Comment v # os) = rbind (comment_loop cc level vl os) (\<lambda>rest. Inr (Comment v # rest))"
| "comment_loop cc level vl (Empty # os) = rbind (comment_loop cc level vl os) (\<lambda>rest. Inr (Comment [] # rest))"
| "comment_loop cc level vl (OtherType t # os) = Inl (SyntaxError ''Unknown type'')"

definition commentOpts :: "change_conf \<Rightarrow> opt list \<Rightarrow> int \<Rightarrow> opt list res" where
  "commentOpts cc inopts level = comment_loop cc (clip_level cc level) None inopts"

definition key_of :: "string option \<Rightarrow> string res" where
  "key_of act = (case act of None \<Rightarrow> Inl (KeyError ''action'') | Some a \<Rightarrow> Inr a)"

definition unknown_action :: pyexc where
  "unknown_action = SyntaxError ''Unknown action''"

fun sect_body :: "opt \<Rightarrow> opt list" where
  "sect_body (Sect _ _ _ v) = v"
| "sect_body _ = []"

fun opt_action :: "opt \<Rightarrow> string option" where
  "opt_action (Sect _ _ a _) = a"
| "opt_action (Opt _ a _ _) = a"
| "opt_action _ = None"

text \<open>
  What an old option becomes, given the first new one of its name. The test \<open>is\<close> compares the
  identities of two strings: the parameter \<open>same\<close>.
\<close>

fun merge_option :: "change_conf \<Rightarrow> (string \<Rightarrow> string \<Rightarrow> bool) \<Rightarrow> opt \<Rightarrow> opt \<Rightarrow> opt list res" where
  "merge_option cc same (Opt name act delim v) (Opt nname nact ndelim nv) =
     rbind (key_of nact) (\<lambda>action.
       if action = ''comment'' \<or> action = ''remove''
       then (if nv \<noteq> None \<and> \<not> (v \<noteq> None \<and> same (the v) (the nv)) then Inr [Opt name act delim v]
             else if action = ''comment''
             then Inr [Comment (cc_dcomment cc @ name @ cc_dassign cc @ value_str v)]
             else Inr [])
       else if action = ''set'' then Inr [Opt nname nact ndelim nv]
       else if action = ''addifnotset''
       then Inr [Comment ('' '' @ nname @ '' modified by IPA''),
                 Comment (nname @ cc_dassign cc @ value_str nv), Opt name act delim v]
       else Inl unknown_action)"
| "merge_option cc same x y = Inr []"

fun mergeOld :: "change_conf \<Rightarrow> (string \<Rightarrow> string \<Rightarrow> bool) \<Rightarrow> opt list \<Rightarrow> opt list \<Rightarrow> opt list res" where
  "mergeOld cc same [] newopts = Inr []"
| "mergeOld cc same (Sect k name act v # os) newopts =
     rbind (case snd (findOpts newopts (is_sect k name) False) of
              None \<Rightarrow> Inr [Sect k name act v]
            | Some no \<Rightarrow>
                rbind (key_of (opt_action no)) (\<lambda>action.
                  if action = ''set''
                  then rbind (mergeOld cc same v (sect_body no)) (\<lambda>mo. Inr [Sect k name None mo])
                  else if action = ''comment'' then commentOpts cc v 0
                  else if action = ''remove'' then Inr []
                  else Inl unknown_action)) (\<lambda>xs.
     rbind (mergeOld cc same os newopts) (\<lambda>rest. Inr (xs @ rest)))"
| "mergeOld cc same (Opt name act delim v # os) newopts =
     rbind (case snd (findOpts newopts (is_opt name) True) of
              None \<Rightarrow> Inr [Opt name act delim v]
            | Some no \<Rightarrow> merge_option cc same (Opt name act delim v) no) (\<lambda>xs.
     rbind (mergeOld cc same os newopts) (\<lambda>rest. Inr (xs @ rest)))"
| "mergeOld cc same (Comment v # os) newopts = rbind (mergeOld cc same os newopts) (\<lambda>rest. Inr (Comment v # rest))"
| "mergeOld cc same (Empty # os) newopts = rbind (mergeOld cc same os newopts) (\<lambda>rest. Inr (Empty # rest))"
| "mergeOld cc same (OtherType t # os) newopts = Inl (SyntaxError ''Unknown type'')"

definition set_body :: "opt list \<Rightarrow> opt \<Rightarrow> opt" where
  "set_body v x = (case x of Sect k n a _ \<Rightarrow> Sect k n a v | _ \<Rightarrow> x)"

text \<open>\<open>mergeNew\<close> changes \<open>opts\<close> in place; \<open>cline\<close> is where the next comment is inserted.\<close>

fun mergeNew :: "nat \<Rightarrow> opt list \<Rightarrow> opt list \<Rightarrow> opt list res" where
  "mergeNew cline opts [] = Inr opts"
| "mergeNew cline opts (Sect k name act v # os) =
     (case findOpts opts (is_sect k name) False of
        (num, None) \<Rightarrow>
          rbind (key_of act) (\<lambda>action.
            mergeNew cline (if action = ''set'' then opts @ [Sect k name act v] else opts) os)
      | (num, Some x) \<Rightarrow>
          rbind (key_of act) (\<lambda>action.
            if action = ''set''
            then rbind (mergeNew 0 (sect_body x) v) (\<lambda>body. mergeNew cline (opts[num := set_body body x]) os)
            else mergeNew (num + 1) opts os))"
| "mergeNew cline opts (Opt name act delim v # os) =
     (case findOpts opts (is_opt name) True of
        (num, None) \<Rightarrow>
          rbind (key_of act) (\<lambda>action.
            mergeNew cline (if action = ''set'' \<or> action = ''addifnotset'' then opts @ [Opt name act delim v] else opts) os)
      | (num, Some x) \<Rightarrow> mergeNew (num + 1) opts os)"
| "mergeNew cline opts (Comment v # os) = mergeNew (cline + 1) (take cline opts @ Comment v # drop cline opts) os"
| "mergeNew cline opts (Empty # os) = mergeNew (cline + 1) (take cline opts @ Empty # drop cline opts) os"
| "mergeNew cline opts (OtherType t # os) = Inl (SyntaxError ''Unknown type'')"

definition merge :: "change_conf \<Rightarrow> (string \<Rightarrow> string \<Rightarrow> bool) \<Rightarrow> opt list \<Rightarrow> opt list \<Rightarrow> opt list res" where
  "merge cc same oldopts newopts = rbind (mergeOld cc same oldopts newopts) (\<lambda>opts. mergeNew 0 opts newopts)"

section \<open>Files\<close>

type_synonym file_system = "string \<Rightarrow> string option"

definition changeConf ::
    "change_conf \<Rightarrow> (string \<Rightarrow> string \<Rightarrow> bool) \<Rightarrow> string \<Rightarrow> opt list \<Rightarrow> file_system \<Rightarrow> bool res \<times> file_system" where
  "changeConf cc same file newopts fs =
     (case fs file of
        None \<Rightarrow> (Inl (OSError file), fs)
      | Some content \<Rightarrow>
          let fs1 = fs(file @ ''.ipabkp'' \<mapsto> content)
          in case rbind (parse cc file (file_lines content)) (\<lambda>oldopts.
                  rbind (merge cc same oldopts newopts) (\<lambda>options. dump cc options 0)) of
               Inl x \<Rightarrow> (Inl x, fs1)
             | Inr output \<Rightarrow> (Inr True, fs1(file \<mapsto> output)))"

definition newConf :: "change_conf \<Rightarrow> string \<Rightarrow> opt list \<Rightarrow> file_system \<Rightarrow> bool res \<times> file_system" where
  "newConf cc file options fs =
     (let fs1 = (case fs file of None \<Rightarrow> fs | Some content \<Rightarrow> fs(file @ ''.ipabkp'' \<mapsto> content));
          fs2 = fs1(file \<mapsto> [])
      in case dump cc options 0 of
           Inl x \<Rightarrow> (Inl x, fs2)
         | Inr output \<Rightarrow> (Inr True, fs2(file \<mapsto> output)))"

definition setOption :: "string \<Rightarrow> string \<Rightarrow> opt" where
  "setOption name v = Opt name (Some ''set'') None (Some v)"

definition rmOption :: "string \<Rightarrow> opt" where
  "rmOption name = Opt name (Some ''remove'') None None"

definition setSection :: "string \<Rightarrow> opt list \<Rightarrow> opt" where
  "setSection name options = Sect Sec name (Some ''set'') options"

definition emptyLine :: opt where
  "emptyLine = Empty"

end
