(* ===== verification/Conf_Files.thy ===== *)
theory Conf_Files
  imports Change_Conf
begin

text \<open>
  What the configuration file editor writes is what it reads back, line by line and for whole
  trees.
\<close>

section \<open>Lines\<close>

lemma is_space_simps [simp]:
  "is_space CHR '' ''" "is_space CHR 0x0A" "is_space CHR 0x09"
  "\<not> is_space CHR ''=''" "\<not> is_space CHR ''#''" "\<not> is_space CHR ''[''" "\<not> is_space CHR '']''"
  "\<not> is_space CHR ''{''" "\<not> is_space CHR ''}''"
  by code_simp+

lemma lower_char_bracket: "lower_char c = CHR ''['' \<longleftrightarrow> c = CHR ''[''"
proof
  assume "lower_char c = CHR ''[''"
  then have "(of_char (lower_char c) :: nat) = 91" by simp
  then have "(of_char c :: nat) = of_char CHR ''[''" by (auto simp: of_lower_char Let_def split: if_splits)
  then show "c = CHR ''[''" by (simp only: of_char_eq_iff)
qed (simp add: lower_char_def)

lemma lstrip_indent:
  assumes "list_all is_space ind" "n \<noteq> []" "\<not> is_space (hd n)"
  shows "py_lstrip (ind @ n) = n"
  using assms by (cases n) (auto simp: py_lstrip_def dropWhile_append list_all_iff)

lemma rstrip_blank: "list_all is_space bl \<Longrightarrow> py_rstrip (s @ bl) = py_rstrip s"
  by (auto simp: py_rstrip_def dropWhile_append list_all_iff)

lemma strip_fixed:
  assumes "py_strip n = n" "n \<noteq> []"
  shows "\<not> is_space (hd n)" "\<not> is_space (last n)"
proof -
  have "\<not> is_space (last n)" if "rev (dropWhile is_space xs) = n" for xs
  proof -
    have "n = rev (dropWhile is_space xs)" using that by simp
    with assms(2) show ?thesis by (metis hd_dropWhile last_rev rev_is_Nil_conv)
  qed
  then show "\<not> is_space (last n)" using assms(1) unfolding py_strip_def by blast
  have "n = dropWhile is_space n"
    using assms(1) dropWhile_rev_dropWhile_idem [of is_space n] unfolding py_strip_def by metis
  then show "\<not> is_space (hd n)" using assms(2) by (metis hd_dropWhile)
qed

lemma strip_between:
  assumes "list_all is_space ind" "list_all is_space bl" "n \<noteq> []" "\<not> is_space (hd n)" "\<not> is_space (last n)"
  shows "py_strip (ind @ n @ bl) = n"
proof -
  have "py_lstrip (ind @ n @ bl) = n @ bl" using assms(1,3,4) by (intro lstrip_indent) auto
  moreover have "py_rstrip n = n" using assms(3,5) by (cases n rule: rev_cases) (auto simp: py_rstrip_def)
  ultimately show ?thesis by (simp add: py_strip_lr rstrip_blank [OF assms(2)])
qed

lemma split1_assign:
  assumes "CHR ''='' \<notin> set pre"
  shows "py_split1 '' = '' (pre @ '' = '' @ post) = Some (pre, post)"
  using assms
proof (induction pre)
  case (Cons x pre)
  have "\<not> is_prefix_of '' = '' (x # pre @ '' = '' @ post)"
    using Cons.prems by (cases pre) (auto simp: is_prefix_of_def)
  with Cons show ?case by simp
qed (simp add: is_prefix_of_def)

lemma split1_none: "CHR ''='' \<notin> set s \<Longrightarrow> py_split1 '' = '' s = None"
proof (induction s)
  case (Cons x s)
  have "\<not> is_prefix_of '' = '' (x # s)"
    using Cons.prems by (cases s) (auto simp: is_prefix_of_def)
  with Cons show ?case by simp
qed simp

lemma split1_none_eq:
  assumes "CHR ''='' \<notin> set pre" "pre \<noteq> []" "last pre \<noteq> CHR '' ''" "py_split1 '' = '' post = None"
  shows "py_split1 '' = '' (pre @ ''='' @ post) = None"
  using assms
proof (induction pre)
  case (Cons x pre)
  show ?case
  proof (cases pre)
    case Nil
    then show ?thesis using Cons.prems by (simp add: is_prefix_of_def)
  next
    case (Cons y ys)
    have "\<not> is_prefix_of '' = '' (x # pre @ ''='' @ post)"
      using Cons.prems(1) \<open>pre = y # ys\<close> by (auto simp: is_prefix_of_def)
    with Cons.IH Cons.prems \<open>pre = y # ys\<close> show ?thesis by simp
  qed
qed simp

lemma split1_none_line: "py_split1 '' = '' v = None \<Longrightarrow> py_split1 '' = '' (v @ EOL) = None"
proof (induction v)
  case (Cons c v)
  have "\<not> is_prefix_of '' = '' (c # v @ EOL)"
  proof (cases v)
    case (Cons d w)
    with \<open>py_split1 '' = '' (c # v) = None\<close> show ?thesis
      by (cases w) (auto simp: is_prefix_of_def EOL_def split: if_splits)
  qed (simp add: is_prefix_of_def EOL_def)
  with Cons show ?case by (simp split: if_splits)
qed (simp add: is_prefix_of_def EOL_def)

section \<open>Trees that can be written and read back\<close>

text \<open>
  The settings that the editor starts with, up to the indentation, the further assignment
  delimiters and the case of section names; the editor of \<^verbatim>\<open>krb5.conf\<close> is one of them.
\<close>

definition std_conf :: "change_conf \<Rightarrow> bool" where
  "std_conf cc \<longleftrightarrow>
     cc_dassign cc = '' = '' \<and> cc_assign cc \<noteq> [] \<and> hd (cc_assign cc) = '' = '' \<and>
     cc_comment cc = [''#''] \<and> cc_dcomment cc = ''#'' \<and> cc_deol cc = EOL \<and>
     cc_sectnamdel cc = [''['', '']''] \<and> cc_subsectdel cc = [''{'', ''}''] \<and>
     cc_indent cc \<noteq> [] \<and> list_all (list_all (\<lambda>c. c = CHR '' '' \<or> c = CHR 0x09)) (cc_indent cc)"

definition one_line :: "string \<Rightarrow> bool" where
  "one_line s \<longleftrightarrow> CHR 0x0A \<notin> set s"

definition wf_name :: "string \<Rightarrow> bool" where
  "wf_name n \<longleftrightarrow>
     n \<noteq> [] \<and> py_strip n = n \<and> one_line n \<and> CHR ''='' \<notin> set n \<and> hd n \<noteq> CHR ''#'' \<and> hd n \<noteq> CHR ''[''"

definition wf_value :: "string \<Rightarrow> bool" where
  "wf_value v \<longleftrightarrow> py_rstrip v = v \<and> one_line v \<and> py_strip v \<noteq> ''{''"

definition wf_delim :: "change_conf \<Rightarrow> string option \<Rightarrow> string \<Rightarrow> bool" where
  "wf_delim cc delim v \<longleftrightarrow>
     delim = None \<or>
     (delim = Some ''='' \<and> (case cc_assign cc of _ # d # _ \<Rightarrow> d = ''='' | _ \<Rightarrow> False) \<and> py_split1 '' = '' v = None)"

fun wf_plain :: "change_conf \<Rightarrow> opt \<Rightarrow> bool" where
  "wf_plain cc (Opt n act delim (Some v)) \<longleftrightarrow> wf_name n \<and> wf_value v \<and> wf_delim cc delim v"
| "wf_plain cc (Comment c) \<longleftrightarrow> py_rstrip c = c \<and> one_line c"
| "wf_plain cc Empty \<longleftrightarrow> True"
| "wf_plain cc _ \<longleftrightarrow> False"

fun wf_item :: "change_conf \<Rightarrow> opt \<Rightarrow> bool" where
  "wf_item cc (Sect Sub n act v) \<longleftrightarrow> wf_name n \<and> list_all (wf_plain cc) v"
| "wf_item cc x \<longleftrightarrow> wf_plain cc x"

fun wf_section :: "change_conf \<Rightarrow> opt \<Rightarrow> bool" where
  "wf_section cc (Sect Sec n act v) \<longleftrightarrow>
     n \<noteq> [] \<and> list_all (\<lambda>c. \<not> is_space c) n \<and> (cc_case_insensitive cc \<longrightarrow> py_lower n = n) \<and>
     list_all (wf_item cc) v"
| "wf_section cc _ \<longleftrightarrow> False"

definition wf_tree :: "change_conf \<Rightarrow> opt list \<Rightarrow> bool" where
  "wf_tree cc os \<longleftrightarrow> list_all (wf_section cc) (dropWhile (wf_item cc) os)"

text \<open>What is read back: actions are not written, and every section and subsection ends with an empty line.\<close>

fun as_read :: "opt \<Rightarrow> opt" where
  "as_read (Sect k n act v) = Sect k n None (map as_read v @ [Empty])"
| "as_read (Opt n act delim v) = Opt n None delim v"
| "as_read x = x"

section \<open>The lines of a tree\<close>

definition indent_at :: "change_conf \<Rightarrow> int \<Rightarrow> string" where
  "indent_at cc level = cc_indent cc ! nat level"

fun render :: "change_conf \<Rightarrow> int \<Rightarrow> opt list \<Rightarrow> string list" where
  "render cc level [] = []"
| "render cc level (Sect Sec n act v # os) =
     (''['' @ n @ '']'') # render cc (clip_level cc (level + 1)) v @ [] # render cc level os"
| "render cc level (Sect Sub n act v # os) =
     (indent_at cc level @ n @ '' = {'') # render cc (clip_level cc (level + 1)) v @
     [] # (indent_at cc level @ ''}'') # render cc level os"
| "render cc level (Opt n act delim v # os) =
     (indent_at cc level @ n @ delim_of cc delim @ value_str v) # render cc level os"
| "render cc level (Comment c # os) = (''#'' @ c) # render cc level os"
| "render cc level (Empty # os) = [] # render cc level os"
| "render cc level (OtherType t # os) = render cc level os"

fun dumpable :: "change_conf \<Rightarrow> opt \<Rightarrow> bool" where
  "dumpable cc (Sect k n act v) \<longleftrightarrow> list_all (dumpable cc) v"
| "dumpable cc (Opt n act delim v) \<longleftrightarrow> delim_of cc delim \<in> set (cc_assign cc)"
| "dumpable cc (OtherType t) \<longleftrightarrow> False"
| "dumpable cc _ \<longleftrightarrow> True"

definition unlines :: "string list \<Rightarrow> string" where
  "unlines ls = concat (map (\<lambda>l. l @ EOL) ls)"

lemma unlines_simps [simp]:
  "unlines [] = []" "unlines (l # ls) = l @ EOL @ unlines ls" "unlines (ls @ ms) = unlines ls @ unlines ms"
  by (simp_all add: unlines_def)

lemma join_lines: "py_join EOL (ls @ [[]]) = unlines ls"
proof (induction ls)
  case (Cons l ls)
  have "py_join EOL (l # (ls @ [[]])) = l @ EOL @ py_join EOL (ls @ [[]])"
    by (rule py_join_Cons_nonempty) simp
  with Cons show ?case by simp
qed simp

lemma std_confD:
  assumes "std_conf cc"
  shows "cc_dassign cc = '' = ''" "'' = '' \<in> set (cc_assign cc)" "cc_comment cc = [''#'']" "cc_dcomment cc = ''#''"
    "cc_deol cc = EOL" "cc_sectnamdel cc = [''['', '']'']" "cc_subsectdel cc = [''{'', ''}'']"
  using assms by (auto simp: std_conf_def) (metis list.set_sel(1))

lemma clip_level_range:
  assumes "std_conf cc" "0 \<le> level"
  shows "0 \<le> clip_level cc level" "clip_level cc level < int (length (cc_indent cc))"
  using assms by (auto simp: clip_level_def std_conf_def Suc_le_eq)

lemma nth_indent:
  assumes "0 \<le> level" "level < int (length (cc_indent cc))"
  shows "py_nth (cc_indent cc) level = Inr (indent_at cc level)"
  using assms by (simp add: py_nth_def indent_at_def)

lemma std_lines:
  assumes "std_conf cc"
  shows "section_line cc n = Inr (''['' @ n @ '']'')"
    and "0 \<le> level \<Longrightarrow> level < int (length (cc_indent cc)) \<Longrightarrow>
      subsection_line cc level n = Inr (indent_at cc level @ n @ '' = {'')"
    and "0 \<le> level \<Longrightarrow> level < int (length (cc_indent cc)) \<Longrightarrow>
      subsection_end cc level = Inr (indent_at cc level @ ''}'')"
    and "0 \<le> level \<Longrightarrow> level < int (length (cc_indent cc)) \<Longrightarrow>
      option_line cc level n d v = Inr (indent_at cc level @ n @ d @ value_str v)"
  by (simp_all add: section_line_def subsection_line_def subsection_end_def option_line_def nth_indent
      std_confD [OF assms] del: rbind_eq_Inr) (simp_all add: py_nth_def)

lemma dump_render:
  "std_conf cc \<Longrightarrow> 0 \<le> level \<Longrightarrow> level < int (length (cc_indent cc)) \<Longrightarrow> list_all (dumpable cc) os \<Longrightarrow>
    \<exists>ls. dump_lines cc level os = Inr ls \<and> unlines ls = unlines (render cc level os)"
proof (induction cc level os rule: render.induct)
  case (2 cc level n act v os)
  obtain ls where "dump_lines cc (clip_level cc (level + 1)) v = Inr ls"
      "unlines ls = unlines (render cc (clip_level cc (level + 1)) v)"
    using 2 clip_level_range [of cc "level + 1"] by auto
  moreover obtain rest where "dump_lines cc level os = Inr rest" "unlines rest = unlines (render cc level os)"
    using 2 by auto
  ultimately show ?case by (simp add: std_lines [OF 2(3)] std_confD [OF 2(3)] join_lines)
next
  case (3 cc level n act v os)
  obtain ls where "dump_lines cc (clip_level cc (level + 1)) v = Inr ls"
      "unlines ls = unlines (render cc (clip_level cc (level + 1)) v)"
    using 3 clip_level_range [of cc "level + 1"] by auto
  moreover obtain rest where "dump_lines cc level os = Inr rest" "unlines rest = unlines (render cc level os)"
    using 3 by auto
  ultimately show ?case using 3 by (simp add: std_lines std_confD join_lines)
qed (auto simp: std_lines std_confD)

lemma dump_text:
  assumes "std_conf cc" "list_all (dumpable cc) os"
  shows "dump cc os 0 = Inr (unlines (render cc 0 os))"
proof -
  have "clip_level cc 0 = 0" "0 < int (length (cc_indent cc))"
    using assms(1) by (auto simp: clip_level_def std_conf_def)
  with dump_render [OF assms(1) _ _ assms(2), of 0] show ?thesis
    by (auto simp: dump_def std_confD(5) [OF assms(1)] join_lines)
qed

lemma file_lines_line: "one_line l \<Longrightarrow> file_lines (l @ EOL @ s) = (l @ EOL) # file_lines s"
  by (induction l) (auto simp: one_line_def EOL_def)

lemma file_lines_unlines: "list_all one_line ls \<Longrightarrow> file_lines (unlines ls) = map (\<lambda>l. l @ EOL) ls"
  by (induction ls) (auto simp: file_lines_line)

section \<open>Reading a line back\<close>

lemma strip_keeps: "c \<in> set s \<Longrightarrow> \<not> is_space c \<Longrightarrow> c \<in> set (py_strip s)"
proof -
  have keep: "c \<in> set (dropWhile is_space t)" if "c \<in> set t" "\<not> is_space c" for t
    using that by (induction t) auto
  assume "c \<in> set s" "\<not> is_space c"
  then show ?thesis using keep [of s] keep [of "rev (dropWhile is_space s)"] by (simp add: py_strip_def)
qed

lemma strip_blank: "list_all is_space bl \<Longrightarrow> py_strip (s @ bl) = py_strip s"
proof -
  assume bl: "list_all is_space bl"
  have "py_lstrip (s @ bl) = (if list_all is_space s then [] else py_lstrip s @ bl)"
    using bl by (auto simp: py_lstrip_def dropWhile_append list_all_iff)
  moreover have "list_all is_space s \<Longrightarrow> py_lstrip s = []" by (simp add: py_lstrip_def list_all_iff)
  ultimately show ?thesis by (simp add: py_strip_lr rstrip_blank [OF bl])
qed

lemma blank_EOL [simp]: "list_all is_space EOL"
  by (simp add: EOL_def)

lemma no_section:
  assumes "std_conf cc" "list_all is_space ind" "n \<noteq> []" "\<not> is_space (hd n)" "hd n \<noteq> CHR ''[''"
  shows "matchSection cc (ind @ n @ rest) = None"
proof -
  obtain c cs where n: "n = c # cs" using assms(3) by (cases n) auto
  have "filter (\<lambda>c. \<not> is_space c) (ind @ n @ rest) = c # filter (\<lambda>c. \<not> is_space c) (cs @ rest)"
    using assms(2,4) by (auto simp: n list_all_iff)
  then show ?thesis
    using assms(5) by (simp add: matchSection_def Let_def std_confD [OF assms(1)] is_prefix_of_def n lower_char_bracket)
qed

lemma no_comment:
  assumes "std_conf cc" "list_all is_space ind" "n \<noteq> []" "\<not> is_space (hd n)" "hd n \<noteq> CHR ''#''"
  shows "matchComment cc (ind @ n @ rest) = None"
proof -
  have "py_lstrip (ind @ n @ rest) = n @ rest" using assms(2-4) by (intro lstrip_indent) auto
  then show ?thesis
    using assms(3,5) by (cases n) (simp_all add: matchComment_def std_confD [OF assms(1)] is_prefix_of_def)
qed

lemmas line_defs = parse_step_def matchSubSection_def matchSubSectionEnd_def parseLine_def split_line_def
  matchEmpty_def truthy_def

lemma read_option:
  assumes cc: "std_conf cc" and ind: "list_all is_space ind" and n: "wf_name n" and v: "wf_value v"
    and d: "wf_delim cc delim v"
  shows "parse_step cc fname (ind @ n @ delim_of cc delim @ v @ EOL) st =
    Inr (append_to (ps_cur st) (Opt n None delim (Some v)) st)"
proof -
  let ?l = "ind @ n @ delim_of cc delim @ v @ EOL"
  have n': "n \<noteq> []" "\<not> is_space (hd n)" "\<not> is_space (last n)" "hd n \<noteq> CHR ''#''" "hd n \<noteq> CHR ''[''"
      "CHR ''='' \<notin> set n" "py_strip n = n"
    using n strip_fixed [of n] by (auto simp: wf_name_def)
  have pre: "CHR ''='' \<notin> set (ind @ n)" "py_strip (ind @ n) = n"
    using ind n' strip_between [OF ind, of "[]" n] by (auto simp: list_all_iff)
  have "CHR ''='' \<in> set ?l" using d by (auto simp: wf_delim_def delim_of_def std_confD [OF cc])
  then have "CHR ''='' \<in> set (py_strip ?l)" by (rule strip_keeps) simp
  then have st: "py_strip ?l \<noteq> ''}''" "py_strip ?l \<noteq> []" by auto
  have v': "py_strip (v @ EOL) \<noteq> ''{''" "py_rstrip (v @ EOL) = v"
    using v strip_blank [OF blank_EOL, of v] rstrip_blank [OF blank_EOL, of v] by (auto simp: wf_value_def)
  note nos = no_section [OF cc ind n'(1,2,5), of "delim_of cc delim @ v @ EOL"]
    no_comment [OF cc ind n'(1,2,4), of "delim_of cc delim @ v @ EOL"]
  show ?thesis
  proof (cases delim)
    case None
    have "py_split1 '' = '' ?l = Some (ind @ n, v @ EOL)"
      using split1_assign [OF pre(1), of "v @ EOL"] None by (simp add: delim_of_def std_confD [OF cc])
    with nos st v' pre(2) None show ?thesis by (simp add: line_defs std_confD [OF cc] py_nth_def)
  next
    case (Some e)
    then obtain d0 ds where e: "e = ''=''" "cc_assign cc = d0 # ''='' # ds" "py_split1 '' = '' v = None"
      using d by (auto simp: wf_delim_def split: list.splits)
    have "last (ind @ n) \<noteq> CHR '' ''" using n'(1,3) by auto
    then have "py_split1 '' = '' ?l = None"
      using split1_none_eq [OF pre(1) _ _ split1_none_line [OF e(3)]] n'(1) Some e(1) by (simp add: delim_of_def)
    moreover have "py_split1 ''='' ?l = Some (ind @ n, v @ EOL)"
      using py_split1_char [OF pre(1), of "v @ EOL"] Some e(1) by (simp add: delim_of_def)
    ultimately show ?thesis
      using nos st v' pre(2) Some e(1,2) by (simp add: line_defs std_confD [OF cc] py_nth_def)
  qed
qed

lemma read_comment:
  assumes cc: "std_conf cc" and c: "py_rstrip c = c"
  shows "parse_step cc fname (''#'' @ c @ EOL) st = Inr (append_to (ps_cur st) (Comment c) st)"
proof -
  have "matchSection cc (''#'' @ c @ EOL) = None"
    using no_section [OF cc, of "[]" "''#''" "c @ EOL"] by simp
  moreover have "matchComment cc (''#'' @ c @ EOL) = Some (c @ EOL)"
    by (simp add: matchComment_def std_confD [OF cc] is_prefix_of_def py_lstrip_def)
  moreover have "py_strip (''#'' @ c @ EOL) \<noteq> []"
    using strip_keeps [of "CHR ''#''" "''#'' @ c @ EOL"] by auto
  moreover have "py_rstrip (c @ EOL) = c" using c by (simp add: rstrip_blank)
  moreover obtain x xs where "c @ EOL = x # xs" by (cases c) (auto simp: EOL_def)
  ultimately show ?thesis by (simp add: line_defs)
qed

lemma read_empty:
  assumes cc: "std_conf cc"
  shows "parse_step cc fname EOL st = Inr (append_to (ps_cur st) Empty st)"
proof -
  have "matchSection cc EOL = None"
    by (simp add: matchSection_def Let_def EOL_def std_confD [OF cc] is_prefix_of_def)
  moreover have "matchComment cc EOL = None" "py_strip EOL = []"
    by (simp_all add: matchComment_def std_confD [OF cc] is_prefix_of_def py_lstrip_def EOL_def py_strip_def)
  moreover have "py_split1 '' = '' EOL = None" by (rule split1_none) (simp add: EOL_def)
  ultimately show ?thesis by (simp add: line_defs std_confD [OF cc] py_nth_def)
qed

lemma read_subsection:
  assumes cc: "std_conf cc" and ind: "list_all is_space ind" and n: "wf_name n" and st: "ps_subsection st = None"
  shows "parse_step cc fname (ind @ n @ '' = {'' @ EOL) st =
    Inr (st\<lparr>ps_subsectopts := [], ps_cur := WSub, ps_subsection := Some n\<rparr>)"
proof -
  have n': "n \<noteq> []" "\<not> is_space (hd n)" "\<not> is_space (last n)" "hd n \<noteq> CHR ''#''" "hd n \<noteq> CHR ''[''"
      "CHR ''='' \<notin> set n"
    using n strip_fixed [of n] by (auto simp: wf_name_def)
  have pre: "CHR ''='' \<notin> set (ind @ n)" "py_strip (ind @ n) = n"
    using ind n' strip_between [OF ind, of "[]" n] by (auto simp: list_all_iff)
  have "py_split1 '' = '' (ind @ n @ '' = {'' @ EOL) = Some (ind @ n, ''{'' @ EOL)"
    using split1_assign [OF pre(1), of "''{'' @ EOL"] by simp
  moreover have "py_strip (''{'' @ EOL) = ''{''" using strip_blank [OF blank_EOL, of "''{''"] by (simp add: py_strip_def)
  ultimately show ?thesis
    using no_section [OF cc ind n'(1,2,5), of "'' = {'' @ EOL"] no_comment [OF cc ind n'(1,2,4), of "'' = {'' @ EOL"]
      pre(2) n'(1) st by (simp add: line_defs std_confD [OF cc] py_nth_def)
qed

lemma read_subsection_end:
  assumes cc: "std_conf cc" and ind: "list_all is_space ind" and st: "ps_subsection st = Some n"
  shows "parse_step cc fname (ind @ ''}'' @ EOL) st =
    Inr ((append_to (ps_father st) (Sect Sub n None (ps_subsectopts st)) st)
      \<lparr>ps_subsection := None, ps_cur := ps_father st\<rparr>)"
proof -
  have "CHR ''='' \<notin> set (ind @ ''}'' @ EOL)" using ind by (auto simp: list_all_iff EOL_def)
  then have "py_split1 '' = '' (ind @ ''}'' @ EOL) = None" by (rule split1_none)
  moreover have "py_strip (ind @ ''}'' @ EOL) = ''}''" by (rule strip_between [OF ind blank_EOL]) simp_all
  ultimately show ?thesis
    using no_section [OF cc ind, of "''}''" EOL] no_comment [OF cc ind, of "''}''" EOL] st
    by (simp add: line_defs std_confD [OF cc] py_nth_def)
qed

lemma read_section:
  assumes cc: "std_conf cc" and n: "n \<noteq> []" "list_all (\<lambda>c. \<not> is_space c) n" "cc_case_insensitive cc \<longrightarrow> py_lower n = n"
  shows "parse_step cc fname (''['' @ n @ '']'' @ EOL) st =
    Inr ((flush_section st)\<lparr>ps_sectopts := [], ps_cur := WSect, ps_father := WSect, ps_section := Some n\<rparr>)"
proof -
  have f: "filter (\<lambda>c. \<not> is_space c) (''['' @ n @ '']'' @ EOL) = ''['' @ n @ '']''"
    using n(2) by (auto simp: list_all_iff EOL_def filter_id_conv)
  have "py_lower ''['' = ''[''" "py_lower '']'' = '']''" by code_simp+
  then have "(if cc_case_insensitive cc then py_lower (''['' @ n @ '']'') else ''['' @ n @ '']'') = ''['' @ n @ '']''"
    using n(3) by (simp add: py_lower_def)
  then have "matchSection cc (''['' @ n @ '']'' @ EOL) = Some n"
    unfolding matchSection_def Let_def f
    by (simp add: std_confD [OF cc] is_prefix_of_def is_suffix_of_def py_slice_def clip_index_def)
  then show ?thesis using n(1) by (cases n) (simp_all add: parse_step_def)
qed

section \<open>Reading a tree back\<close>

abbreviation lines_of :: "change_conf \<Rightarrow> int \<Rightarrow> opt list \<Rightarrow> string list" where
  "lines_of cc level os \<equiv> map (\<lambda>l. l @ EOL) (render cc level os)"

lemma parse_loop_append:
  "parse_loop cc fname (xs @ ys) st = rbind (parse_loop cc fname xs st) (parse_loop cc fname ys)"
  by (induction xs arbitrary: st) (auto simp: rbind_def split: sum.split)

definition add_all :: "which \<Rightarrow> opt list \<Rightarrow> parse_state \<Rightarrow> parse_state" where
  "add_all w xs st =
     (case w of
        WOpts \<Rightarrow> st\<lparr>ps_opts := ps_opts st @ xs\<rparr>
      | WSect \<Rightarrow> st\<lparr>ps_sectopts := ps_sectopts st @ xs\<rparr>
      | WSub \<Rightarrow> st\<lparr>ps_subsectopts := ps_subsectopts st @ xs\<rparr>)"

lemma add_all_simps:
  "append_to w x st = add_all w [x] st" "add_all w [] st = st" "add_all w ys (add_all w xs st) = add_all w (xs @ ys) st"
  "ps_cur (add_all w xs st) = ps_cur st" "ps_father (add_all w xs st) = ps_father st"
  "ps_subsection (add_all w xs st) = ps_subsection st" "ps_section (add_all w xs st) = ps_section st"
  by (cases w; simp add: add_all_def)+

lemma indent_blank:
  assumes "std_conf cc" "0 \<le> level" "level < int (length (cc_indent cc))"
  shows "list_all is_space (indent_at cc level)" "one_line (indent_at cc level)"
proof -
  have "indent_at cc level \<in> set (cc_indent cc)" using assms(2,3) by (simp add: indent_at_def nth_mem)
  moreover have "\<forall>l \<in> set (cc_indent cc). \<forall>c \<in> set l. c = CHR '' '' \<or> c = CHR 0x09"
    using assms(1) unfolding std_conf_def list_all_iff by blast
  ultimately have "c = CHR '' '' \<or> c = CHR 0x09" if "c \<in> set (indent_at cc level)" for c
    using that by blast
  then have "is_space c \<and> c \<noteq> CHR 0x0A" if "c \<in> set (indent_at cc level)" for c
    using that by fastforce
  then show "list_all is_space (indent_at cc level)" "one_line (indent_at cc level)"
    unfolding list_all_iff one_line_def by blast+
qed

lemma plain_loop:
  assumes "std_conf cc" "0 \<le> level" "level < int (length (cc_indent cc))" "list_all (wf_plain cc) os"
  shows "parse_loop cc fname (lines_of cc level os) st = Inr (add_all (ps_cur st) (map as_read os) st)"
  using assms(4)
proof (induction os arbitrary: st)
  case (Cons x os)
  have "\<exists>l. render cc level (x # os) = l # render cc level os \<and>
      parse_step cc fname (l @ EOL) st = Inr (append_to (ps_cur st) (as_read x) st)"
    using Cons.prems read_option [OF assms(1) indent_blank(1) [OF assms(1-3)]] read_comment [OF assms(1)] read_empty [OF assms(1)]
    by (cases "(cc, x)" rule: wf_plain.cases) (auto simp: value_str_def)
  then obtain l where "render cc level (x # os) = l # render cc level os"
    "parse_step cc fname (l @ EOL) st = Inr (append_to (ps_cur st) (as_read x) st)" by blast
  with Cons show ?case by (simp add: add_all_simps)
qed (simp add: add_all_simps)

lemma subsection_loop:
  assumes cc: "std_conf cc" and lv: "0 \<le> level" "level < int (length (cc_indent cc))"
    and wf: "wf_name n" "list_all (wf_plain cc) v"
    and st: "ps_subsection st = None" "ps_cur st = ps_father st" "ps_father st \<noteq> WSub"
  shows "\<exists>u. parse_loop cc fname (lines_of cc level [Sect Sub n act v]) st =
    Inr ((add_all (ps_father st) [as_read (Sect Sub n act v)] st)\<lparr>ps_subsectopts := u\<rparr>)"
proof -
  note ind = indent_blank(1) [OF cc lv]
  have lv': "0 \<le> clip_level cc (level + 1)" "clip_level cc (level + 1) < int (length (cc_indent cc))"
    using clip_level_range [OF cc, of "level + 1"] lv by simp_all
  let ?s1 = "st\<lparr>ps_subsectopts := [], ps_cur := WSub, ps_subsection := Some n\<rparr>"
  let ?body = "map as_read v @ [Empty]"
  have 1: "parse_step cc fname (indent_at cc level @ n @ '' = {'' @ EOL) st = Inr ?s1"
    by (rule read_subsection [OF cc ind wf(1) st(1)])
  have 2: "parse_loop cc fname (lines_of cc (clip_level cc (level + 1)) v) ?s1 = Inr (add_all WSub (map as_read v) ?s1)"
    using plain_loop [OF cc lv' wf(2), of fname ?s1] by simp
  have 3: "parse_step cc fname EOL (add_all WSub (map as_read v) ?s1) = Inr (add_all WSub ?body ?s1)"
    using read_empty [OF cc] by (simp add: add_all_simps)
  have 4: "parse_step cc fname (indent_at cc level @ ''}'' @ EOL) (add_all WSub ?body ?s1) =
      Inr ((add_all (ps_father st) [as_read (Sect Sub n act v)] st)\<lparr>ps_subsectopts := ?body\<rparr>)"
    using read_subsection_end [OF cc ind, of "add_all WSub ?body ?s1" n] st
    by (cases "ps_father st") (simp_all add: add_all_simps, simp_all add: add_all_def)
  show ?thesis using 1 2 3 4 by (auto simp: parse_loop_append)
qed

lemma item_loop:
  assumes "std_conf cc" "0 \<le> level" "level < int (length (cc_indent cc))" "list_all (wf_item cc) os"
    and "ps_subsection st = None" "ps_cur st = ps_father st" "ps_father st \<noteq> WSub"
  shows "\<exists>u. parse_loop cc fname (lines_of cc level os) st =
    Inr ((add_all (ps_father st) (map as_read os) st)\<lparr>ps_subsectopts := u\<rparr>)"
  using assms(4-7)
proof (induction os arbitrary: st)
  case Nil
  then show ?case by (auto simp: add_all_simps intro: exI [of _ "ps_subsectopts st"])
next
  case (Cons x os)
  have one: "\<exists>u. parse_loop cc fname (lines_of cc level [x]) st =
      Inr ((add_all (ps_father st) [as_read x] st)\<lparr>ps_subsectopts := u\<rparr>)"
  proof (cases "wf_plain cc x")
    case True
    have "(add_all (ps_father st) [as_read x] st)\<lparr>ps_subsectopts := ps_subsectopts st\<rparr> = add_all (ps_father st) [as_read x] st"
      using Cons.prems(4) by (cases "ps_father st") (simp_all add: add_all_def)
    then show ?thesis
      using plain_loop [OF assms(1-3), of "[x]" fname st] True Cons.prems(3) by (auto intro: exI [of _ "ps_subsectopts st"])
  next
    case False
    then obtain n act v where "x = Sect Sub n act v" "wf_name n" "list_all (wf_plain cc) v"
      using Cons.prems(1) by (cases "(cc, x)" rule: wf_item.cases) auto
    then show ?thesis using subsection_loop [OF assms(1-3) _ _ Cons.prems(2-4)] by blast
  qed
  then obtain u where u: "parse_loop cc fname (lines_of cc level [x]) st =
      Inr ((add_all (ps_father st) [as_read x] st)\<lparr>ps_subsectopts := u\<rparr>)" by blast
  let ?st = "(add_all (ps_father st) [as_read x] st)\<lparr>ps_subsectopts := u\<rparr>"
  have f: "ps_father ?st = ps_father st" by (simp add: add_all_simps)
  obtain w where "parse_loop cc fname (lines_of cc level os) ?st =
      Inr ((add_all (ps_father st) (map as_read os) ?st)\<lparr>ps_subsectopts := w\<rparr>)"
    using Cons.IH [of ?st] Cons.prems unfolding f by (auto simp: add_all_simps)
  moreover have "render cc level (x # os) = render cc level [x] @ render cc level os"
    using Cons.prems(1) by (cases "(cc, x)" rule: wf_item.cases) auto
  moreover have "(add_all (ps_father st) (map as_read os) ?st)\<lparr>ps_subsectopts := w\<rparr> =
      (add_all (ps_father st) (map as_read (x # os)) st)\<lparr>ps_subsectopts := w\<rparr>"
    using Cons.prems(4) by (cases "ps_father st") (simp_all add: add_all_def)
  ultimately show ?case using u by (auto simp: parse_loop_append)
qed

lemma section_loop:
  assumes cc: "std_conf cc" and wf: "wf_section cc x"
    and st: "ps_subsection st = None" "ps_section st = None \<longleftrightarrow> ps_sectopts st = []"
  shows "\<exists>st'. parse_loop cc fname (lines_of cc 0 [x]) st = Inr st' \<and> ps_subsection st' = None \<and>
    (ps_section st' = None \<longleftrightarrow> ps_sectopts st' = []) \<and> parse_end st' = parse_end st @ [as_read x]"
proof -
  obtain n act v where x: "x = Sect Sec n act v" "n \<noteq> []" "list_all (\<lambda>c. \<not> is_space c) n"
      "cc_case_insensitive cc \<longrightarrow> py_lower n = n" "list_all (wf_item cc) v"
    using wf by (cases "(cc, x)" rule: wf_section.cases) auto
  let ?lv = "clip_level cc (0 + 1)"
  have lv: "0 \<le> ?lv" "?lv < int (length (cc_indent cc))" using clip_level_range [OF cc, of "0 + 1"] by simp_all
  let ?s1 = "(flush_section st)\<lparr>ps_sectopts := [], ps_cur := WSect, ps_father := WSect, ps_section := Some n\<rparr>"
  have 1: "parse_step cc fname (''['' @ n @ '']'' @ EOL) st = Inr ?s1" by (rule read_section [OF cc x(2-4)])
  have s1: "ps_subsection ?s1 = None" using st(1) by (simp add: flush_section_def split: option.split)
  obtain u where 2: "parse_loop cc fname (lines_of cc ?lv v) ?s1 = Inr ((add_all WSect (map as_read v) ?s1)\<lparr>ps_subsectopts := u\<rparr>)"
    using item_loop [OF cc lv x(5) s1, of fname] by auto
  let ?s3 = "(add_all WSect (map as_read v @ [Empty]) ?s1)\<lparr>ps_subsectopts := u\<rparr>"
  have 3: "parse_step cc fname EOL ((add_all WSect (map as_read v) ?s1)\<lparr>ps_subsectopts := u\<rparr>) = Inr ?s3"
    using read_empty [OF cc] by (simp add: add_all_def)
  have "parse_loop cc fname (lines_of cc 0 [x]) st = Inr ?s3"
    using 1 2 3 by (simp add: x(1) parse_loop_append)
  moreover have "ps_opts (flush_section st) = parse_end st"
    using st(2) by (auto simp: parse_end_def flush_section_def split: option.split)
  then have "parse_end ?s3 = parse_end st @ [as_read x]"
    by (simp add: parse_end_def flush_section_def [of ?s3] add_all_def x(1)) (simp add: flush_section_def)
  ultimately show ?thesis using s1 by (auto simp: add_all_def)
qed

lemma sections_loop:
  assumes "std_conf cc" "list_all (wf_section cc) os"
    and "ps_subsection st = None" "ps_section st = None \<longleftrightarrow> ps_sectopts st = []"
  shows "\<exists>st'. parse_loop cc fname (lines_of cc 0 os) st = Inr st' \<and> parse_end st' = parse_end st @ map as_read os"
  using assms(2-4)
proof (induction os arbitrary: st)
  case (Cons x os)
  obtain s1 where s1: "parse_loop cc fname (lines_of cc 0 [x]) st = Inr s1" "ps_subsection s1 = None"
      "ps_section s1 = None \<longleftrightarrow> ps_sectopts s1 = []" "parse_end s1 = parse_end st @ [as_read x]"
    using section_loop [OF assms(1) _ Cons.prems(2,3), of x fname] Cons.prems(1) by auto
  obtain s2 where "parse_loop cc fname (lines_of cc 0 os) s1 = Inr s2" "parse_end s2 = parse_end s1 @ map as_read os"
    using Cons.IH [OF _ s1(2,3)] Cons.prems(1) by auto
  moreover have "render cc 0 (x # os) = render cc 0 [x] @ render cc 0 os"
    using Cons.prems(1) by (cases "(cc, x)" rule: wf_section.cases) auto
  ultimately show ?case using s1 by (simp add: parse_loop_append)
qed simp

lemma render_append: "render cc level (xs @ ys) = render cc level xs @ render cc level ys"
  by (induction cc level xs rule: render.induct) auto

lemma parse_rendered:
  assumes "std_conf cc" "wf_tree cc os"
  shows "parse cc fname (lines_of cc 0 os) = Inr (map as_read os)"
proof -
  let ?a = "takeWhile (wf_item cc) os" and ?b = "dropWhile (wf_item cc) os"
  have a: "list_all (wf_item cc) ?a" by (auto simp: list_all_iff dest: set_takeWhileD)
  have lv: "0 < int (length (cc_indent cc))" using assms(1) by (simp add: std_conf_def)
  obtain u where "parse_loop cc fname (lines_of cc 0 ?a) parse_start =
      Inr ((add_all WOpts (map as_read ?a) parse_start)\<lparr>ps_subsectopts := u\<rparr>)"
    using item_loop [OF assms(1) _ lv a, of parse_start fname] by (auto simp: parse_start_def)
  moreover obtain st where "parse_loop cc fname (lines_of cc 0 ?b) ((add_all WOpts (map as_read ?a) parse_start)\<lparr>ps_subsectopts := u\<rparr>) = Inr st"
      "parse_end st = map as_read ?a @ map as_read ?b"
    using sections_loop [OF assms(1) assms(2) [unfolded wf_tree_def],
        of "(add_all WOpts (map as_read ?a) parse_start)\<lparr>ps_subsectopts := u\<rparr>" fname]
    by (auto simp: add_all_def parse_start_def parse_end_def simp del: map_append)
  moreover have "lines_of cc 0 os = lines_of cc 0 ?a @ lines_of cc 0 ?b"
    unfolding map_append [symmetric] render_append [symmetric] by simp
  moreover have "map as_read ?a @ map as_read ?b = map as_read os"
    by (simp flip: map_append)
  ultimately show ?thesis by (simp add: parse_def parse_loop_append)
qed

text \<open>Such a tree can be written, and none of its lines contains a line end.\<close>

lemma wf_plain_dumpable:
  assumes "std_conf cc" "wf_plain cc x"
  shows "dumpable cc x"
  using assms std_confD(1,2) [OF assms(1)]
  by (cases "(cc, x)" rule: wf_plain.cases) (auto simp: wf_delim_def delim_of_def split: list.splits)

lemma wf_item_dumpable:
  assumes "std_conf cc" "wf_item cc x"
  shows "dumpable cc x"
proof (cases "wf_plain cc x")
  case False
  with assms(2) show ?thesis using wf_plain_dumpable [OF assms(1)]
    by (cases "(cc, x)" rule: wf_item.cases) (auto simp: list_all_iff)
qed (rule wf_plain_dumpable [OF assms(1)])

lemma wf_tree_cases:
  assumes "wf_tree cc os" "x \<in> set os"
  shows "wf_item cc x \<or> wf_section cc x"
proof -
  have "x \<in> set (takeWhile (wf_item cc) os) \<or> x \<in> set (dropWhile (wf_item cc) os)"
    using assms(2) by (metis Un_iff set_append takeWhile_dropWhile_id)
  with assms(1) show ?thesis by (auto simp: wf_tree_def list_all_iff dest: set_takeWhileD)
qed

lemma wf_tree_dumpable:
  assumes "std_conf cc" "wf_tree cc os"
  shows "list_all (dumpable cc) os"
  unfolding list_all_iff
proof
  fix x assume "x \<in> set os"
  then consider "wf_item cc x" | "wf_section cc x" using wf_tree_cases [OF assms(2)] by blast
  then show "dumpable cc x"
  proof cases
    case 2
    then show ?thesis using wf_item_dumpable [OF assms(1)]
      by (cases "(cc, x)" rule: wf_section.cases) (auto simp: list_all_iff)
  qed (rule wf_item_dumpable [OF assms(1)])
qed

lemma one_line_simps [simp]:
  "one_line []" "one_line (c # s) \<longleftrightarrow> c \<noteq> CHR 0x0A \<and> one_line s" "one_line (s @ t) \<longleftrightarrow> one_line s \<and> one_line t"
  by (auto simp: one_line_def)

lemma nonspace_one_line: "list_all (\<lambda>c. \<not> is_space c) n \<Longrightarrow> one_line n"
  by (auto simp: one_line_def list_all_iff)

lemma render_cons: "render cc level (x # os) = render cc level [x] @ render cc level os"
  using render_append [of cc level "[x]" os] by simp

lemma plain_one_line:
  assumes "std_conf cc" "0 \<le> level" "level < int (length (cc_indent cc))"
  shows "list_all (wf_plain cc) os \<Longrightarrow> list_all one_line (render cc level os)"
proof (induction os)
  case (Cons x os)
  have "list_all one_line (render cc level [x])"
    using Cons.prems indent_blank(2) [OF assms] std_confD(1) [OF assms(1)]
    by (cases "(cc, x)" rule: wf_plain.cases)
      (auto simp: wf_name_def wf_value_def wf_delim_def delim_of_def value_str_def)
  with Cons show ?case by (subst render_cons) simp
qed simp

lemma item_one_line:
  assumes "std_conf cc" "0 \<le> level" "level < int (length (cc_indent cc))"
  shows "list_all (wf_item cc) os \<Longrightarrow> list_all one_line (render cc level os)"
proof (induction os)
  case (Cons x os)
  have lv: "0 \<le> clip_level cc (level + 1)" "clip_level cc (level + 1) < int (length (cc_indent cc))"
    using clip_level_range [OF assms(1), of "level + 1"] assms(2) by simp_all
  have "list_all one_line (render cc level [x])"
  proof (cases "wf_plain cc x")
    case True
    then show ?thesis by (intro plain_one_line [OF assms]) simp
  next
    case False
    then obtain n act v where "x = Sect Sub n act v" "wf_name n" "list_all (wf_plain cc) v"
      using Cons.prems by (cases "(cc, x)" rule: wf_item.cases) auto
    then show ?thesis using plain_one_line [OF assms(1) lv, of v] indent_blank(2) [OF assms] by (simp add: wf_name_def)
  qed
  with Cons show ?case by (subst render_cons) simp
qed simp

lemma tree_one_line:
  assumes "std_conf cc" "wf_tree cc os"
  shows "list_all one_line (render cc 0 os)"
proof -
  have lv: "0 < int (length (cc_indent cc))" using assms(1) by (simp add: std_conf_def)
  have lv': "0 \<le> clip_level cc 1" "clip_level cc 1 < int (length (cc_indent cc))"
    using clip_level_range [OF assms(1), of 1] by simp_all
  have "list_all one_line (render cc 0 [x])" if x: "x \<in> set os" for x
  proof (cases "wf_item cc x")
    case True
    then show ?thesis using lv by (intro item_one_line [OF assms(1)]) simp_all
  next
    case False
    then have "wf_section cc x" using wf_tree_cases [OF assms(2) x] by blast
    then show ?thesis using item_one_line [OF assms(1) lv']
      by (cases "(cc, x)" rule: wf_section.cases) (auto intro: nonspace_one_line)
  qed
  then show ?thesis
  proof (induction os)
    case (Cons x os)
    then show ?case by (subst render_cons) simp
  qed simp
qed

lemma written_is_read:
  assumes "std_conf cc" "wf_tree cc os"
  shows "\<exists>t. dump cc os 0 = Inr t \<and> parse cc fname (file_lines t) = Inr (map as_read os)"
  using dump_text [OF assms(1) wf_tree_dumpable [OF assms]] parse_rendered [OF assms, of fname]
  by (simp add: file_lines_unlines tree_one_line [OF assms])

end
