(* ===== verification/Conf_Merge.thy ===== *)
theory Conf_Merge
  imports Conf_Files
begin

text \<open>
  Merging changes into the options of a configuration file, and the effect of \<open>newConf\<close> and
  \<open>changeConf\<close> on the files.
\<close>

section \<open>The effect of a change\<close>




fun opt_value :: "opt \<Rightarrow> string option" where
  "opt_value (Opt _ _ _ v) = v"
| "opt_value _ = None"


definition value_in :: "opt list \<Rightarrow> string \<Rightarrow> string option option" where
  "value_in os n = map_option opt_value (find (is_opt n) os)"








lemma is_opt_name: "is_opt n x \<Longrightarrow> \<exists>a d v. x = Opt n a d v"
  by (cases x) auto



lemma value_in_simps [simp]:
  "value_in [] m = None"
  "value_in (Opt n a d v # os) m = (if n = m then Some v else value_in os m)"
  "value_in (Comment c # os) m = value_in os m" "value_in (Empty # os) m = value_in os m"
  "value_in (Sect k s a b # os) m = value_in os m"
  by (simp_all add: value_in_def)
















section \<open>Properties\<close>

text \<open>
  C10: \<open>newConf\<close> writes what \<open>parse\<close> reads. For the settings the editor starts with (and any
  indentation) and any tree with the layout of a file (options, comments, empty lines and
  subsections first, then sections; names and values without delimiters or line ends), \<open>newConf\<close>
  succeeds, the old content is in the backup file, and parsing the new file gives the tree back,
  without its actions and with one more empty line at the end of each section and subsection.
\<close>

theorem newConf_roundtrip:
  assumes "std_conf cc" and "wf_tree cc options"
  shows "\<exists>t fs'. newConf cc file options fs = (Inr True, fs') \<and> fs' file = Some t \<and>
    parse cc file (file_lines t) = Inr (map as_read options) \<and>
    (\<forall>content. fs file = Some content \<longrightarrow> fs' (file @ ''.ipabkp'') = Some content) \<and>
    (\<forall>g. g \<noteq> file \<and> g \<noteq> file @ ''.ipabkp'' \<longrightarrow> fs' g = fs g)"
proof -
  obtain t where "dump cc options 0 = Inr t" "parse cc file (file_lines t) = Inr (map as_read options)"
    using written_is_read [OF assms] by blast
  then show ?thesis by (auto simp: newConf_def Let_def split: option.split)
qed



section \<open>Examples\<close>

definition krb_conf :: change_conf where
  "krb_conf = (IPAChangeConf_init ''IPA'')\<lparr>cc_indent := [[], ''  '', ''    ''], cc_assign := ['' = '', '' '']\<rparr>"

lemma krb_conf_std: "std_conf krb_conf"
  by (simp add: std_conf_def krb_conf_def IPAChangeConf_init_def)

lemma krb_tree_names:
  "wf_name ''default_realm''" "wf_value ''EXAMPLE.COM''" "wf_name ''EXAMPLE.COM''" "wf_name ''kdc''" "wf_value ''ipa''"
  "py_rstrip ''managed by IPA'' = ''managed by IPA''" "one_line ''managed by IPA''"
  by code_simp+

lemma krb_tree_sections:
  "list_all (\<lambda>c. \<not> is_space c) ''libdefaults''" "py_lower ''libdefaults'' = ''libdefaults''"
  "list_all (\<lambda>c. \<not> is_space c) ''realms''" "py_lower ''realms'' = ''realms''"
  by code_simp+

lemma wf_sectionI:
  "n \<noteq> [] \<Longrightarrow> list_all (\<lambda>c. \<not> is_space c) n \<Longrightarrow> py_lower n = n \<Longrightarrow> list_all (wf_item cc) v \<Longrightarrow>
   wf_section cc (Sect Sec n act v)"
  by simp

lemma wf_treeI: "list_all (wf_item cc) xs \<Longrightarrow> list_all (wf_section cc) ys \<Longrightarrow> wf_tree cc (xs @ ys)"
proof -
  assume xs: "list_all (wf_item cc) xs" and ys: "list_all (wf_section cc) ys"
  have "wf_section cc x \<Longrightarrow> \<not> wf_item cc x" for x by (cases "(cc, x)" rule: wf_section.cases) auto
  with ys have "dropWhile (wf_item cc) ys = ys" by (cases ys) auto
  with xs ys show ?thesis by (simp add: wf_tree_def list_all_iff dropWhile_append)
qed

definition krb_head :: "opt list" where
  "krb_head = [Comment ''managed by IPA'', Empty]"

definition krb_sections :: "opt list" where
  "krb_sections =
     [Sect Sec ''libdefaults'' None [Opt ''default_realm'' None None (Some ''EXAMPLE.COM'')],
      Sect Sec ''realms'' None [Sect Sub ''EXAMPLE.COM'' None [Opt ''kdc'' None None (Some ''ipa'')]]]"

lemma krb_tree_wf: "wf_tree krb_conf (krb_head @ krb_sections)"
proof (rule wf_treeI)
  show "list_all (wf_item krb_conf) krb_head" by (simp add: krb_head_def krb_tree_names)
  have opt: "list_all (wf_plain krb_conf) [Opt n None None (Some v)]" if "wf_name n" "wf_value v" for n v
    using that by (simp add: wf_delim_def)
  have "wf_section krb_conf (Sect Sec ''libdefaults'' None [Opt ''default_realm'' None None (Some ''EXAMPLE.COM'')])"
    using opt [OF krb_tree_names(1,2)] by (intro wf_sectionI [OF _ krb_tree_sections(1,2)]) simp_all
  moreover have "wf_section krb_conf (Sect Sec ''realms'' None [Sect Sub ''EXAMPLE.COM'' None [Opt ''kdc'' None None (Some ''ipa'')]])"
    using opt [OF krb_tree_names(4,5)] krb_tree_names(3) by (intro wf_sectionI [OF _ krb_tree_sections(3,4)]) simp_all
  ultimately show "list_all (wf_section krb_conf) krb_sections"
    unfolding krb_sections_def by (simp only: list.pred_inject simp_thms)
qed

theorem newConf_roundtrip_witness:
  "\<exists>t fs'. newConf krb_conf ''krb5.conf'' (krb_head @ krb_sections) (\<lambda>_. None) = (Inr True, fs') \<and>
     fs' ''krb5.conf'' = Some t \<and>
     parse krb_conf ''krb5.conf'' (file_lines t) = Inr (map as_read (krb_head @ krb_sections))"
  using newConf_roundtrip [OF krb_conf_std krb_tree_wf, of "''krb5.conf''" "\<lambda>_. None"]
  by (elim exE conjE) (intro exI conjI)






end
