(* ===== verification/Sys_Restore.thy ===== *)
theory Sys_Restore
  imports Param_Values Py_State
begin

text \<open>
  Backup and restore of files and of system state by the installers,
  \<^verbatim>\<open>src/ipalib/sysrestore.py\<close>. The file system is a map from paths to regular files with
  content, permission bits and owner; directories, links, time stamps, SELinux contexts and
  failing input and output are not modelled. Parameters (record \<open>sys_env\<close>) are \<open>sha256\<close>, reading
  and writing by \<open>configparser\<close>, and the owner and permissions of files the process creates.
\<close>

section \<open>Files\<close>

record file_info =
  fi_content :: string
  fi_perm :: nat
  fi_uid :: nat
  fi_gid :: nat

type_synonym fsys = "string \<Rightarrow> file_info option"
type_synonym sections = "(string \<times> (string \<times> string) list) list"

record sys_env =
  sy_sha256 :: "string \<Rightarrow> string"
  sy_cp_read :: "string \<Rightarrow> sections res"
  sy_cp_write :: "sections \<Rightarrow> string"
  sy_uid :: nat
  sy_gid :: nat
  sy_perm :: nat

definition is_abs :: "string \<Rightarrow> bool" where
  "is_abs p \<longleftrightarrow> take 1 p = ''/''"

definition os_join :: "string \<Rightarrow> string \<Rightarrow> string" where
  "os_join a b =
     (if is_abs b then b else if a = [] \<or> last a = CHR ''/'' then a @ b else a @ ''/'' @ b)"

definition basename :: "string \<Rightarrow> string" where
  "basename p = rev (takeWhile (\<lambda>c. c \<noteq> CHR ''/'') (rev p))"

text \<open>\<open>shutil.copy\<close> and \<open>shutil.copy2\<close>: content and permissions; an existing target keeps its owner.\<close>

definition copy_file :: "sys_env \<Rightarrow> string \<Rightarrow> string \<Rightarrow> fsys \<Rightarrow> fsys res" where
  "copy_file env src dst fs =
     (case fs src of
        None \<Rightarrow> Inl (OSError ''No such file or directory'')
      | Some f \<Rightarrow>
          if src = dst then Inl (OSError ''are the same file'')
          else Inr (fs(dst \<mapsto> (case fs dst of
                 None \<Rightarrow> f\<lparr>fi_uid := sy_uid env, fi_gid := sy_gid env\<rparr>
               | Some g \<Rightarrow> f\<lparr>fi_uid := fi_uid g, fi_gid := fi_gid g\<rparr>))))"

definition write_file :: "sys_env \<Rightarrow> string \<Rightarrow> string \<Rightarrow> fsys \<Rightarrow> fsys" where
  "write_file env p content fs =
     fs(p \<mapsto> (case fs p of
          None \<Rightarrow> \<lparr>fi_content = content, fi_perm = sy_perm env, fi_uid = sy_uid env, fi_gid = sy_gid env\<rparr>
        | Some g \<Rightarrow> g\<lparr>fi_content := content\<rparr>))"

text \<open>An owner of -1 is left as it is.\<close>

definition new_owner :: "int \<Rightarrow> nat \<Rightarrow> nat res" where
  "new_owner i old =
     (if i = -1 then Inr old
      else if i < 0 \<or> i > 4294967295 then Inl (OverflowError ''uid is out of range'')
      else Inr (nat i))"

definition os_chown :: "string \<Rightarrow> int \<Rightarrow> int \<Rightarrow> fsys \<Rightarrow> fsys res" where
  "os_chown p u g fs =
     (case fs p of
        None \<Rightarrow> Inl (OSError ''No such file or directory'')
      | Some f \<Rightarrow>
          rbind (new_owner u (fi_uid f)) (\<lambda>u'. rbind (new_owner g (fi_gid f)) (\<lambda>g'.
            Inr (fs(p \<mapsto> f\<lparr>fi_uid := u', fi_gid := g'\<rparr>)))))"

text \<open>\<open>st_mode\<close> of a regular file has the bit \<open>S_IFREG\<close>; \<open>chmod\<close> takes the permission bits.\<close>

definition S_IFREG :: nat where
  "S_IFREG = 32768"

definition os_chmod :: "string \<Rightarrow> int \<Rightarrow> fsys \<Rightarrow> fsys res" where
  "os_chmod p m fs =
     (case fs p of
        None \<Rightarrow> Inl (OSError ''No such file or directory'')
      | Some f \<Rightarrow>
          if m < -2147483648 \<or> m > 2147483647 then Inl (OverflowError ''signed integer is out of range'')
          else Inr (fs(p \<mapsto> f\<lparr>fi_perm := nat (m mod 4096)\<rparr>)))"

section \<open>FileStore\<close>

record file_store =
  st_path :: string
  st_index :: string
  st_files :: "(string \<times> string) list"

definition update_all :: "(string \<times> string) list \<Rightarrow> (string \<times> string) list \<Rightarrow> (string \<times> string) list" where
  "update_all items d = fold (\<lambda>(k, v). AList.update k v) items d"

definition read_sections :: "sys_env \<Rightarrow> string \<Rightarrow> fsys \<Rightarrow> sections res" where
  "read_sections env p fs = (case fs p of None \<Rightarrow> Inr [] | Some f \<Rightarrow> sy_cp_read env (fi_content f))"

definition store_load :: "sys_env \<Rightarrow> fsys \<Rightarrow> file_store \<Rightarrow> file_store res" where
  "store_load env fs st =
     rbind (read_sections env (st_index st) fs) (\<lambda>secs.
       Inr (st\<lparr>st_files := fold (\<lambda>(s, items) d. if s = ''files'' then update_all items d else d) secs []\<rparr>))"

definition FileStore_init :: "sys_env \<Rightarrow> string \<Rightarrow> string \<Rightarrow> fsys \<Rightarrow> file_store res" where
  "FileStore_init env path index_file fs =
     store_load env fs \<lparr>st_path = path, st_index = os_join path index_file, st_files = []\<rparr>"

definition store_save :: "sys_env \<Rightarrow> file_store \<Rightarrow> fsys \<Rightarrow> fsys" where
  "store_save env st fs =
     (if st_files st = [] then fs(st_index st := None)
      else write_file env (st_index st) (sy_cp_write env [(''files'', st_files st)]) fs)"

definition index_entry :: "file_info \<Rightarrow> string \<Rightarrow> string" where
  "index_entry f p =
     nat_to_dec (S_IFREG + fi_perm f) @ '','' @ nat_to_dec (fi_uid f) @ '','' @ nat_to_dec (fi_gid f) @ '','' @ p"

definition backup_name :: "sys_env \<Rightarrow> file_info \<Rightarrow> string \<Rightarrow> string" where
  "backup_name env f p = sy_sha256 env (fi_content f) @ ''-'' @ basename p"

definition backup_file :: "sys_env \<Rightarrow> string \<Rightarrow> (file_store \<times> fsys, unit) act" where
  "backup_file env p = (\<lambda>(st, fs).
     if \<not> is_abs p then (Inl (ValueError ''Absolute path required''), (st, fs))
     else
       case fs p of
         None \<Rightarrow> (Inr (), (st, fs))
       | Some f \<Rightarrow>
           let filename = backup_name env f p; backup_path = os_join (st_path st) filename
           in if fs backup_path \<noteq> None then (Inr (), (st, fs))
              else
                case copy_file env p backup_path fs of
                  Inl x \<Rightarrow> (Inl x, (st, fs))
                | Inr fs1 \<Rightarrow>
                    let st1 = st\<lparr>st_files := AList.update filename (index_entry f p) (st_files st)\<rparr>
                    in (Inr (), (st1, store_save env st1 fs1)))"

text \<open>\<open>mode, uid, gid, path = value.split(',', 3)\<close>.\<close>

definition index_fields :: "string \<Rightarrow> (string \<times> string \<times> string \<times> string) res" where
  "index_fields v =
     (case py_split1 '','' v of
        None \<Rightarrow> Inl (ValueError ''not enough values to unpack'')
      | Some (m, r) \<Rightarrow>
          (case py_split1 '','' r of
             None \<Rightarrow> Inl (ValueError ''not enough values to unpack'')
           | Some (u, r') \<Rightarrow>
               (case py_split1 '','' r' of
                  None \<Rightarrow> Inl (ValueError ''not enough values to unpack'')
                | Some (g, p) \<Rightarrow> Inr (m, u, g, p))))"

fun find_path :: "(string \<times> string) list \<Rightarrow> string \<Rightarrow> (string \<times> string \<times> string \<times> string) option res" where
  "find_path [] path = Inr None"
| "find_path ((key, v) # fl) path =
     rbind (index_fields v) (\<lambda>(mode, uid, gid, filepath).
       if filepath = path then Inr (Some (key, mode, uid, gid)) else find_path fl path)"

definition has_file :: "string \<Rightarrow> file_store \<Rightarrow> bool res" where
  "has_file path st = rbind (find_path (st_files st) path) (\<lambda>r. Inr (r \<noteq> None))"

definition restore_copy ::
    "sys_env \<Rightarrow> string \<Rightarrow> string \<Rightarrow> string \<Rightarrow> string \<Rightarrow> string \<Rightarrow> fsys \<Rightarrow> unit res \<times> fsys" where
  "restore_copy env backup_path path mode uid gid fs =
     (case copy_file env backup_path path fs of
        Inl x \<Rightarrow> (Inl x, fs)
      | Inr fs1 \<Rightarrow>
          let fs2 = fs1(backup_path := None)
          in case rbind (int_of_text 10 uid) (\<lambda>u. rbind (int_of_text 10 gid) (\<lambda>g. os_chown path u g fs2)) of
               Inl x \<Rightarrow> (Inl x, fs2)
             | Inr fs3 \<Rightarrow>
                 (case rbind (int_of_text 10 mode) (\<lambda>m. os_chmod path m fs3) of
                    Inl x \<Rightarrow> (Inl x, fs3)
                  | Inr fs4 \<Rightarrow> (Inr (), fs4)))"

definition restore_file :: "sys_env \<Rightarrow> string \<Rightarrow> string option \<Rightarrow> (file_store \<times> fsys, bool) act" where
  "restore_file env path new_path = (\<lambda>(st, fs).
     if \<not> is_abs path then (Inl (ValueError ''Absolute path required''), (st, fs))
     else if new_path \<noteq> None \<and> \<not> is_abs (the new_path)
     then (Inl (ValueError ''Absolute new path required''), (st, fs))
     else
       case find_path (st_files st) path of
         Inl x \<Rightarrow> (Inl x, (st, fs))
       | Inr None \<Rightarrow> (Inl (ValueError ''No such file name in the index''), (st, fs))
       | Inr (Some (filename, mode, uid, gid)) \<Rightarrow>
           if filename = [] then (Inl (ValueError ''No such file name in the index''), (st, fs))
           else
             let backup_path = os_join (st_path st) filename
             in if fs backup_path = None then (Inr False, (st, fs))
                else
                  case restore_copy env backup_path (case new_path of None \<Rightarrow> path | Some p \<Rightarrow> p) mode uid gid fs of
                    (Inl x, fs1) \<Rightarrow> (Inl x, (st, fs1))
                  | (Inr _, fs1) \<Rightarrow>
                      let st1 = st\<lparr>st_files := AList.delete filename (st_files st)\<rparr>
                      in (Inr True, (st1, store_save env st1 fs1)))"

fun restore_loop :: "sys_env \<Rightarrow> string \<Rightarrow> (string \<times> string) list \<Rightarrow> fsys \<Rightarrow> unit res \<times> fsys" where
  "restore_loop env path [] fs = (Inr (), fs)"
| "restore_loop env path ((filename, v) # fl) fs =
     (case index_fields v of
        Inl x \<Rightarrow> (Inl x, fs)
      | Inr (mode, uid, gid, p) \<Rightarrow>
          let backup_path = os_join path filename
          in if fs backup_path = None then restore_loop env path fl fs
             else
               case restore_copy env backup_path p mode uid gid fs of
                 (Inl x, fs1) \<Rightarrow> (Inl x, fs1)
               | (Inr _, fs1) \<Rightarrow> restore_loop env path fl fs1)"

definition restore_all_files :: "sys_env \<Rightarrow> (file_store \<times> fsys, bool) act" where
  "restore_all_files env = (\<lambda>(st, fs).
     if st_files st = [] then (Inr False, (st, fs))
     else
       case restore_loop env (st_path st) (st_files st) fs of
         (Inl x, fs1) \<Rightarrow> (Inl x, (st, fs1))
       | (Inr _, fs1) \<Rightarrow> let st1 = st\<lparr>st_files := []\<rparr> in (Inr True, (st1, store_save env st1 fs1)))"

definition has_files :: "file_store \<Rightarrow> bool" where
  "has_files st \<longleftrightarrow> 0 < length (st_files st)"

definition untrack_file :: "sys_env \<Rightarrow> string \<Rightarrow> (file_store \<times> fsys, bool) act" where
  "untrack_file env path = (\<lambda>(st, fs).
     if \<not> is_abs path then (Inl (ValueError ''Absolute path required''), (st, fs))
     else
       case find_path (st_files st) path of
         Inl x \<Rightarrow> (Inl x, (st, fs))
       | Inr None \<Rightarrow> (Inl (ValueError ''No such file name in the index''), (st, fs))
       | Inr (Some (filename, _)) \<Rightarrow>
           if filename = [] then (Inl (ValueError ''No such file name in the index''), (st, fs))
           else
             let backup_path = os_join (st_path st) filename
             in if fs backup_path = None then (Inr False, (st, fs))
                else
                  let st1 = st\<lparr>st_files := AList.delete filename (st_files st)\<rparr>
                  in (Inr True, (st1, store_save env st1 (fs(backup_path := None)))))"

section \<open>StateFile\<close>

datatype sval = SBool bool | SStr string
datatype sarg = SVal sval | SOther

type_synonym modules = "(string \<times> (string \<times> sval) list) list"

record state_file =
  sf_path :: string
  sf_modules :: modules

definition sval_str :: "sval \<Rightarrow> string" where
  "sval_str v = (case v of SBool True \<Rightarrow> ''True'' | SBool False \<Rightarrow> ''False'' | SStr s \<Rightarrow> s)"

definition sval_of :: "string \<Rightarrow> sval" where
  "sval_of s = (if s = ''True'' then SBool True else if s = ''False'' then SBool False else SStr s)"

definition state_load :: "sys_env \<Rightarrow> fsys \<Rightarrow> state_file \<Rightarrow> state_file res" where
  "state_load env fs sf =
     rbind (read_sections env (sf_path sf) fs) (\<lambda>secs.
       Inr (sf\<lparr>sf_modules := fold (\<lambda>(m, items). AList.update m
         (fold (\<lambda>(k, v). AList.update k (sval_of v)) items [])) secs []\<rparr>))"

definition StateFile_init :: "sys_env \<Rightarrow> string \<Rightarrow> string \<Rightarrow> fsys \<Rightarrow> state_file res" where
  "StateFile_init env path file fs = state_load env fs \<lparr>sf_path = os_join path file, sf_modules = []\<rparr>"

text \<open>\<open>add_section\<close> refuses the name of the default section.\<close>

definition state_save :: "sys_env \<Rightarrow> (state_file \<times> fsys, unit) act" where
  "state_save env = (\<lambda>(sf, fs).
     let sf1 = sf\<lparr>sf_modules := filter (\<lambda>(_, vals). vals \<noteq> []) (sf_modules sf)\<rparr>
     in if sf_modules sf1 = [] then (Inr (), (sf1, fs(sf_path sf := None)))
        else if ''DEFAULT'' \<in> fst ` set (sf_modules sf1)
        then (Inl (ValueError ''Invalid section name''), (sf1, fs))
        else (Inr (), (sf1, write_file env (sf_path sf)
               (sy_cp_write env (map (\<lambda>(m, vals). (m, map (\<lambda>(k, v). (k, sval_str v)) vals)) (sf_modules sf1))) fs)))"

definition reload :: "sys_env \<Rightarrow> (state_file \<times> fsys, unit) act" where
  "reload env = (\<lambda>(sf, fs).
     case state_load env fs sf of
       Inl x \<Rightarrow> (Inl x, (sf\<lparr>sf_modules := []\<rparr>, fs))
     | Inr sf1 \<Rightarrow> (Inr (), (sf1, fs)))"

definition module_items :: "modules \<Rightarrow> string \<Rightarrow> (string \<times> sval) list" where
  "module_items ms m = (case map_of ms m of None \<Rightarrow> [] | Some vals \<Rightarrow> vals)"

definition backup_state :: "sys_env \<Rightarrow> string \<Rightarrow> string \<Rightarrow> sarg \<Rightarrow> (state_file \<times> fsys, unit) act" where
  "backup_state env m key v =
     (case v of
        SOther \<Rightarrow> act_raise (ValueError ''Only strings, booleans or unicode strings are supported'')
      | SVal val \<Rightarrow>
          act_bind (reload env) (\<lambda>_.
          act_bind (\<lambda>(sf, fs).
            let ms = (if map_of (sf_modules sf) m = None then AList.update m [] (sf_modules sf) else sf_modules sf);
                ms' = (if map_of ms key = None then AList.update m (AList.update key val (module_items ms m)) ms else ms)
            in (Inr (), (sf\<lparr>sf_modules := ms'\<rparr>, fs))) (\<lambda>_.
          state_save env)))"

definition get_state :: "sys_env \<Rightarrow> string \<Rightarrow> string \<Rightarrow> (state_file \<times> fsys, sval option) act" where
  "get_state env m key =
     act_bind (reload env) (\<lambda>_. act_read (\<lambda>(sf, _). Inr (map_of (module_items (sf_modules sf) m) key)))"

definition delete_state :: "sys_env \<Rightarrow> string \<Rightarrow> string \<Rightarrow> (state_file \<times> fsys, unit) act" where
  "delete_state env m key =
     act_bind (reload env) (\<lambda>_.
     act_when (\<lambda>(sf, _). map_of (module_items (sf_modules sf) m) key \<noteq> None)
       (act_bind (\<lambda>(sf, fs).
          (Inr (), (sf\<lparr>sf_modules := AList.update m (AList.delete key (module_items (sf_modules sf) m)) (sf_modules sf)\<rparr>, fs)))
        (\<lambda>_. state_save env)))"

definition restore_state :: "sys_env \<Rightarrow> string \<Rightarrow> string \<Rightarrow> (state_file \<times> fsys, sval option) act" where
  "restore_state env m key =
     act_bind (get_state env m key) (\<lambda>v.
     if v \<noteq> None then act_bind (delete_state env m key) (\<lambda>_. act_ret v) else act_ret v)"

definition has_state :: "string \<Rightarrow> state_file \<Rightarrow> bool" where
  "has_state m sf \<longleftrightarrow> map_of (sf_modules sf) m \<noteq> None"

end
