(* ===== verification/Restore_Files.thy ===== *)
theory Restore_Files
  imports Sys_Restore
begin

text \<open>
  The file store refines a list of saved files: what is backed up is what is restored, with its
  permissions and owner, also by a later process that only has the index file.
\<close>

section \<open>Index entries\<close>

lemma digits_value_dec:
  "list_all is_ascii_digit s \<Longrightarrow>
   digits_value 10 prev acc s =
     (if s = [] \<and> \<not> prev then None else Some (foldl (\<lambda>acc c. acc * 10 + (int (of_char c) - 48)) acc s))"
proof (induction s arbitrary: prev acc)
  case (Cons c s)
  have c: "48 \<le> (of_char c :: nat)" "(of_char c :: nat) \<le> 57"
    using is_ascii_digit_code [of c] Cons.prems by simp_all
  then have "c \<noteq> CHR ''_''" by auto
  moreover have "digit_value c = Some (of_char c - 48)" using c by (simp add: digit_value_def Let_def)
  moreover have "int ((of_char c :: nat) - 48) = int (of_char c) - 48" using c by linarith
  ultimately show ?case using Cons c by simp
qed simp

lemma dec_plain:
  assumes "list_all is_ascii_digit s" "s \<noteq> []"
  shows "py_strip s = s" "hd s \<noteq> CHR ''-''" "hd s \<noteq> CHR ''+''" "CHR '','' \<notin> set s"
proof -
  have code: "48 \<le> (of_char c :: nat) \<and> (of_char c :: nat) \<le> 57" if "c \<in> set s" for c
    using that assms(1) is_ascii_digit_code by (auto simp: list_all_iff)
  have "\<not> is_space c" if "c \<in> set s" for c
    using code [OF that] by (auto simp: is_space_def Let_def)
  then have "dropWhile is_space s = s" "dropWhile is_space (rev s) = rev s"
    using assms(2) by (auto simp: dropWhile_eq_self_iff hd_rev)
  then show "py_strip s = s" by (simp add: py_strip_def)
  show "CHR '','' \<notin> set s" using code by fastforce
  show "hd s \<noteq> CHR ''-''" "hd s \<noteq> CHR ''+''" using code [of "hd s"] assms(2) by auto
qed

lemma int_of_nat_to_dec [simp]: "int_of_text 10 (nat_to_dec n) = Inr (int n)"
proof -
  have d: "list_all is_ascii_digit (nat_to_dec n)" "nat_to_dec n \<noteq> []" using nat_to_dec_digits by auto
  have "digits_value 10 False 0 (nat_to_dec n) = Some (int n)"
    using digits_value_dec [OF d(1), of False 0] d(2) dec_to_int_nat_to_dec [of n] by (simp add: dec_to_int_def)
  moreover have "take 1 (nat_to_dec n) \<noteq> ''-''" "take 1 (nat_to_dec n) \<noteq> ''+''"
    using dec_plain(2,3) [OF d] d(2) by (cases "nat_to_dec n"; simp)+
  ultimately show ?thesis
    by (simp add: int_of_text_def Let_def dec_plain(1) [OF d] unsigned_value_def base_prefix_def)
qed

lemma index_fields_entry [simp]:
  "index_fields (index_entry f p) =
     Inr (nat_to_dec (S_IFREG + fi_perm f), nat_to_dec (fi_uid f), nat_to_dec (fi_gid f), p)"
proof -
  have "CHR '','' \<notin> set (nat_to_dec n)" for n using dec_plain(4) nat_to_dec_digits by blast
  from py_split1_char [OF this] show ?thesis by (simp add: index_fields_def index_entry_def)
qed

section \<open>The saved files\<close>

text \<open>
  The abstract store is a list of paths with the files saved for them. A file that can be saved
  has permission bits and owners in their ranges.
\<close>

type_synonym saved = "(string \<times> file_info) list"

definition file_ok :: "file_info \<Rightarrow> bool" where
  "file_ok f \<longleftrightarrow> fi_perm f < 4096 \<and> fi_uid f \<le> 4294967295 \<and> fi_gid f \<le> 4294967295"

definition cp_name :: "string \<Rightarrow> bool" where
  "cp_name k \<longleftrightarrow>
     k \<noteq> [] \<and> py_strip k = k \<and> list_all (\<lambda>c. c \<noteq> CHR 0x0A \<and> c \<noteq> CHR 0x0D \<and> c \<noteq> CHR ''='' \<and> c \<noteq> CHR '':'') k \<and>
     hd k \<noteq> CHR ''#'' \<and> hd k \<noteq> CHR '';'' \<and> hd k \<noteq> CHR ''[''"

definition cp_value :: "string \<Rightarrow> bool" where
  "cp_value v \<longleftrightarrow> py_strip v = v \<and> list_all (\<lambda>c. c \<noteq> CHR 0x0A \<and> c \<noteq> CHR 0x0D) v"

definition cp_section :: "string \<Rightarrow> bool" where
  "cp_section s \<longleftrightarrow> s \<noteq> [] \<and> s \<noteq> ''DEFAULT'' \<and> list_all (\<lambda>c. c \<noteq> CHR 0x0A \<and> c \<noteq> CHR 0x0D \<and> c \<noteq> CHR '']'') s"

definition cp_ok :: "sections \<Rightarrow> bool" where
  "cp_ok secs \<longleftrightarrow>
     distinct (map fst secs) \<and>
     list_all (\<lambda>(s, items). cp_section s \<and> distinct (map fst items) \<and>
       list_all (\<lambda>(k, v). cp_name k \<and> cp_value v) items) secs"

text \<open>
  The documented behaviour of \<open>configparser\<close> (without interpolation and with case-sensitive
  names) and of \<open>sha256\<close>: sections that were written are read back; a hex digest has 64
  characters, all of them hexadecimal digits.
\<close>

definition sys_law :: "sys_env \<Rightarrow> bool" where
  "sys_law env \<longleftrightarrow>
     (\<forall>secs. cp_ok secs \<longrightarrow> sy_cp_read env (sy_cp_write env secs) = Inr secs) \<and>
     (\<forall>c. length (sy_sha256 env c) = 64 \<and> list_all (\<lambda>x. x \<in> set ''0123456789abcdef'') (sy_sha256 env c))"

section \<open>Paths of the store\<close>

definition in_store :: "string \<Rightarrow> string \<Rightarrow> bool" where
  "in_store d q \<longleftrightarrow> (\<exists>k. k \<noteq> [] \<and> CHR ''/'' \<notin> set k \<and> q = os_join d k)"

definition plain_path :: "string \<Rightarrow> bool" where
  "plain_path p \<longleftrightarrow>
     is_abs p \<and> \<not> is_space (last p) \<and>
     list_all (\<lambda>c. c \<noteq> CHR 0x0A \<and> c \<noteq> CHR 0x0D \<and> c \<noteq> CHR ''='' \<and> c \<noteq> CHR '':'') p"

lemma is_abs_ne: "is_abs p \<Longrightarrow> p \<noteq> []"
  by (auto simp: is_abs_def)

lemma not_abs: "CHR ''/'' \<notin> set k \<Longrightarrow> \<not> is_abs k"
  by (cases k) (auto simp: is_abs_def)

lemma os_join_inj:
  assumes "CHR ''/'' \<notin> set k" "CHR ''/'' \<notin> set l"
  shows "os_join d k = os_join d l \<longleftrightarrow> k = l"
  using not_abs [OF assms(1)] not_abs [OF assms(2)] by (simp add: os_join_def)

lemma basename_props: "CHR ''/'' \<notin> set (basename p)" "set (basename p) \<subseteq> set p"
  by (auto simp: basename_def dest: set_takeWhileD)

lemma basename_last: "basename p \<noteq> [] \<Longrightarrow> last (basename p) = last p"
  by (cases p rule: rev_cases) (auto simp: basename_def last_rev split: if_splits)

lemma sys_lawD:
  assumes "sys_law env"
  shows "cp_ok secs \<Longrightarrow> sy_cp_read env (sy_cp_write env secs) = Inr secs" "length (sy_sha256 env c) = 64"
    "x \<in> set (sy_sha256 env c) \<Longrightarrow> x \<in> set ''0123456789abcdef''"
  using assms unfolding sys_law_def list_all_iff by blast+

lemma hex_plain: "x \<in> set ''0123456789abcdef'' \<Longrightarrow>
    \<not> is_space x \<and> x \<notin> set ''/=:#;['' \<and> x \<noteq> CHR 0x0A \<and> x \<noteq> CHR 0x0D"
proof -
  have "list_all (\<lambda>x. \<not> is_space x \<and> x \<notin> set ''/=:#;['' \<and> x \<noteq> CHR 0x0A \<and> x \<noteq> CHR 0x0D) ''0123456789abcdef''"
    by code_simp
  then show "x \<in> set ''0123456789abcdef'' \<Longrightarrow>
    \<not> is_space x \<and> x \<notin> set ''/=:#;['' \<and> x \<noteq> CHR 0x0A \<and> x \<noteq> CHR 0x0D"
    unfolding list_all_iff by blast
qed

lemma strip_ends:
  assumes "s \<noteq> []" "\<not> is_space (hd s)" "\<not> is_space (last s)"
  shows "py_strip s = s"
proof -
  have "dropWhile is_space s = s" "dropWhile is_space (rev s) = rev s"
    using assms by (simp_all only: dropWhile_eq_self_iff hd_rev rev_is_Nil_conv) simp_all
  then show ?thesis by (simp add: py_strip_def)
qed

lemma sha_plain:
  assumes "sys_law env"
  shows "x \<in> set (sy_sha256 env c) \<Longrightarrow> \<not> is_space x \<and> x \<notin> set ''/=:#;['' \<and> x \<noteq> CHR 0x0A \<and> x \<noteq> CHR 0x0D"
  using sys_lawD(3) [OF assms] hex_plain by blast

lemma backup_name_plain:
  assumes law: "sys_law env" and p: "plain_path p"
  shows "cp_name (backup_name env f p)" "CHR ''/'' \<notin> set (backup_name env f p)" "64 < length (backup_name env f p)"
proof -
  let ?k = "backup_name env f p" and ?h = "sy_sha256 env (fi_content f)"
  have h: "?h \<noteq> []" using sys_lawD(2) [OF law, of "fi_content f"] by auto
  note sha = sha_plain [OF law]
  show "64 < length ?k" using sys_lawD(2) [OF law, of "fi_content f"] by (simp add: backup_name_def)
  show "CHR ''/'' \<notin> set ?k" using sha basename_props(1) [of p] by (fastforce simp: backup_name_def)
  have hd: "hd ?k = hd ?h" using h by (simp add: backup_name_def)
  have "\<not> is_space CHR ''-''" by code_simp
  then have "\<not> is_space (last ?k)"
    using p basename_last [of p] by (auto simp: backup_name_def plain_path_def)
  moreover have "\<not> is_space (hd ?k)" "hd ?k \<notin> set ''#;[''" using sha [OF hd_in_set [OF h]] hd by auto
  moreover have "list_all (\<lambda>c. c \<noteq> CHR 0x0A \<and> c \<noteq> CHR 0x0D \<and> c \<noteq> CHR ''='' \<and> c \<noteq> CHR '':'') ?k"
    using sha [of _ "fi_content f"] basename_props(2) [of p] p
    unfolding backup_name_def plain_path_def list_all_iff by fastforce
  moreover have "?k \<noteq> []" by (simp add: backup_name_def)
  ultimately show "cp_name ?k" using strip_ends by (simp add: cp_name_def)
qed

lemma index_entry_plain:
  assumes "plain_path p"
  shows "cp_value (index_entry f p)"
proof -
  have digit: "\<not> is_space c \<and> c \<noteq> CHR 0x0A \<and> c \<noteq> CHR 0x0D" if "c \<in> set (nat_to_dec n)" for c n
  proof -
    have "48 \<le> (of_char c :: nat) \<and> (of_char c :: nat) \<le> 57"
      using that nat_to_dec_digits is_ascii_digit_code unfolding list_all_iff by blast
    then show ?thesis by (auto simp: is_space_def Let_def)
  qed
  have p: "p \<noteq> []" "\<not> is_space (last p)" using assms is_abs_ne by (auto simp: plain_path_def)
  have ne: "nat_to_dec n \<noteq> []" for n using nat_to_dec_digits by blast
  have "\<not> is_space (hd (index_entry f p))" "\<not> is_space (last (index_entry f p))" "index_entry f p \<noteq> []"
    using p ne digit [OF hd_in_set [OF ne]] by (simp_all add: index_entry_def)
  moreover have "list_all (\<lambda>c. c \<noteq> CHR 0x0A \<and> c \<noteq> CHR 0x0D) (index_entry f p)"
    using digit assms unfolding index_entry_def plain_path_def list_all_iff by auto
  ultimately show ?thesis using strip_ends by (simp add: cp_value_def)
qed

section \<open>What a store holds\<close>

definition saved_as :: "sys_env \<Rightarrow> string \<Rightarrow> fsys \<Rightarrow> string \<times> string \<Rightarrow> string \<times> file_info \<Rightarrow> bool" where
  "saved_as env d fs = (\<lambda>(k, v) (p, f).
     plain_path p \<and> \<not> in_store d p \<and> file_ok f \<and> k = backup_name env f p \<and> v = index_entry f p \<and>
     (\<exists>g. fs (os_join d k) = Some g \<and> fi_content g = fi_content f \<and> fi_perm g = fi_perm f))"

text \<open>
  A store with index file \<open>i\<close> in directory \<open>d\<close> represents a list of saved files: every entry of
  the index has its copy, and the index on disk is the index in memory.
\<close>

definition represents :: "sys_env \<Rightarrow> string \<Rightarrow> string \<Rightarrow> file_store \<Rightarrow> fsys \<Rightarrow> saved \<Rightarrow> bool" where
  "represents env d i st fs sv \<longleftrightarrow>
     i \<noteq> [] \<and> CHR ''/'' \<notin> set i \<and> length i \<le> 64 \<and> st_path st = d \<and> st_index st = os_join d i \<and>
     distinct (map fst (st_files st)) \<and> list_all2 (saved_as env d fs) (st_files st) sv \<and>
     (if st_files st = [] then fs (os_join d i) = None
      else \<exists>g. fs (os_join d i) = Some g \<and> fi_content g = sy_cp_write env [(''files'', st_files st)])"

fun drop_saved :: "string \<Rightarrow> saved \<Rightarrow> saved" where
  "drop_saved p [] = []"
| "drop_saved p ((q, f) # sv) = (if q = p then sv else (q, f) # drop_saved p sv)"

lemma saved_asD:
  assumes "sys_law env" "saved_as env d fs (k, v) (p, f)"
  shows "in_store d (os_join d k)" "CHR ''/'' \<notin> set k" "64 < length k" "cp_name k" "cp_value v" "k \<noteq> []"
proof -
  from assms(2) have p: "plain_path p" and k: "k = backup_name env f p" and v: "v = index_entry f p"
    by (auto simp: saved_as_def)
  note n = backup_name_plain [OF assms(1) p, of f, folded k]
  show "CHR ''/'' \<notin> set k" "64 < length k" "cp_name k" using n by auto
  show "cp_value v" using index_entry_plain [OF p] v by simp
  show "k \<noteq> []" using n(3) by auto
  then show "in_store d (os_join d k)" using n(2) unfolding in_store_def by blast
qed

lemma saved_as_frame:
  assumes "saved_as env d fs e a" "\<And>g. fs (os_join d (fst e)) = Some g \<Longrightarrow> fs' (os_join d (fst e)) = Some g"
  shows "saved_as env d fs' e a"
  using assms by (auto simp: saved_as_def split: prod.splits)

lemma saved_list_frame:
  assumes "list_all2 (saved_as env d fs) fl sv"
    and "\<And>k. k \<in> fst ` set fl \<Longrightarrow> fs' (os_join d k) = fs (os_join d k)"
  shows "list_all2 (saved_as env d fs') fl sv"
  using assms(1) by (rule list.rel_mono_strong) (erule saved_as_frame, simp add: assms(2))

lemma list_all2_ex: "list_all2 R xs ys \<Longrightarrow> x \<in> set xs \<Longrightarrow> \<exists>y\<in>set ys. R x y"
  by (induction rule: list_all2_induct) auto

lemma saved_keys:
  assumes "sys_law env" "list_all2 (saved_as env d fs) fl sv" "k \<in> fst ` set fl"
  shows "in_store d (os_join d k)" "CHR ''/'' \<notin> set k" "64 < length k" "\<exists>g. fs (os_join d k) = Some g"
proof -
  from assms(3) obtain v where "(k, v) \<in> set fl" by auto
  with list_all2_ex [OF assms(2)] obtain p f where a: "saved_as env d fs (k, v) (p, f)" by fast
  show "in_store d (os_join d k)" "CHR ''/'' \<notin> set k" "64 < length k" using saved_asD [OF assms(1) a] by auto
  show "\<exists>g. fs (os_join d k) = Some g" using a by (auto simp: saved_as_def)
qed

lemma saved_cp_ok:
  assumes "sys_law env" "list_all2 (saved_as env d fs) fl sv" "distinct (map fst fl)"
  shows "cp_ok [(''files'', fl)]"
proof -
  have "cp_name k \<and> cp_value v" if "(k, v) \<in> set fl" for k v
  proof -
    from list_all2_ex [OF assms(2) that] obtain p f where "saved_as env d fs (k, v) (p, f)" by fast
    from saved_asD [OF assms(1) this] show ?thesis by simp
  qed
  moreover have "cp_section ''files''" by code_simp
  ultimately show ?thesis using assms(3) by (auto simp: cp_ok_def list_all_iff)
qed

lemma update_append: "k \<notin> fst ` set d \<Longrightarrow> AList.update k v d = d @ [(k, v)]"
  by (induction d) auto

lemma fold_update_distinct:
  "distinct (map fst d @ map fst items) \<Longrightarrow>
   fold (\<lambda>(k, v). AList.update k (h k v)) items d = d @ map (\<lambda>(k, v). (k, h k v)) items"
proof (induction items arbitrary: d)
  case (Cons e items)
  obtain k v where e: "e = (k, v)" by force
  then have "k \<notin> fst ` set d" using Cons.prems by auto
  then show ?case using Cons.IH [of "d @ [(k, h k v)]"] Cons.prems e by (simp add: update_append)
qed simp

lemma update_all_distinct: "distinct (map fst items) \<Longrightarrow> update_all items [] = items"
  using fold_update_distinct [of "[]" items "\<lambda>k v. v"] by (simp add: update_all_def)

lemma delete_middle:
  assumes "distinct (map fst (xs @ (k, v) # ys))"
  shows "AList.delete k (xs @ (k, v) # ys) = xs @ ys"
proof -
  have "k \<notin> fst ` set xs" "k \<notin> fst ` set ys" using assms by auto
  then have "AList.delete k xs = xs" "AList.delete k ys = ys" by (simp_all add: AList.delete_idem)
  then show ?thesis by (simp add: AList.delete_eq)
qed

section \<open>Every operation keeps the representation\<close>

lemma store_save_represents:
  assumes law: "sys_law env" and i: "i \<noteq> []" "CHR ''/'' \<notin> set i" "length i \<le> 64"
    and st: "st_path st = d" "st_index st = os_join d i" "distinct (map fst (st_files st))"
    and sv: "list_all2 (saved_as env d fs) (st_files st) sv"
  shows "represents env d i st (store_save env st fs) sv"
    "\<not> in_store d q \<Longrightarrow> store_save env st fs q = fs q"
proof -
  let ?fs = "store_save env st fs"
  have idx: "in_store d (os_join d i)" using i unfolding in_store_def by blast
  show "\<not> in_store d q \<Longrightarrow> ?fs q = fs q" using idx st(2) by (auto simp: store_save_def write_file_def)
  have "os_join d k \<noteq> os_join d i" if "k \<in> fst ` set (st_files st)" for k
    using os_join_inj [of k i d] saved_keys(2,3) [OF law sv that] i by auto
  then have "list_all2 (saved_as env d ?fs) (st_files st) sv"
    using st(2) by (intro saved_list_frame [OF sv]) (auto simp: store_save_def write_file_def)
  then show "represents env d i st ?fs sv"
    using i st unfolding represents_def store_save_def write_file_def by (auto split: option.split)
qed

lemma represents_init:
  assumes law: "sys_law env" and rep: "represents env d i st fs sv"
  shows "FileStore_init env d i fs = Inr st"
proof (cases "st_files st = []")
  case True
  then show ?thesis using rep
    by (auto simp: represents_def FileStore_init_def store_load_def read_sections_def intro!: file_store.equality)
next
  case False
  have ok: "cp_ok [(''files'', st_files st)]" using saved_cp_ok [OF law] rep unfolding represents_def by blast
  from rep False obtain g where g: "fs (os_join d i) = Some g" "fi_content g = sy_cp_write env [(''files'', st_files st)]"
    by (auto simp: represents_def)
  have "update_all (st_files st) [] = st_files st"
    using update_all_distinct [of "st_files st"] rep by (simp add: represents_def)
  then show ?thesis using g sys_lawD(1) [OF law ok] rep
    by (simp add: represents_def FileStore_init_def store_load_def read_sections_def)
qed

lemma represents_frame:
  assumes law: "sys_law env" and rep: "represents env d i st fs sv" and same: "\<And>q. in_store d q \<Longrightarrow> fs' q = fs q"
  shows "represents env d i st fs' sv"
proof -
  have sv: "list_all2 (saved_as env d fs) (st_files st) sv" using rep by (simp add: represents_def)
  have "list_all2 (saved_as env d fs') (st_files st) sv"
    using same saved_keys(1) [OF law sv] by (intro saved_list_frame [OF sv]) blast
  moreover have "fs' (os_join d i) = fs (os_join d i)"
    using rep by (intro same) (auto simp: represents_def in_store_def)
  ultimately show ?thesis using rep by (simp add: represents_def)
qed

lemma backup_file_represents:
  assumes law: "sys_law env" and rep: "represents env d i st fs sv" and p: "plain_path p" "\<not> in_store d p"
    and f: "fs p = Some f" "file_ok f" and new: "fs (os_join d (backup_name env f p)) = None"
  shows "\<exists>st' fs'. backup_file env p (st, fs) = (Inr (), (st', fs')) \<and>
    represents env d i st' fs' (sv @ [(p, f)]) \<and> (\<forall>q. \<not> in_store d q \<longrightarrow> fs' q = fs q)"
proof -
  let ?k = "backup_name env f p"
  let ?b = "os_join d ?k" and ?fl = "st_files st @ [(?k, index_entry f p)]"
  define fs1 where "fs1 = fs(?b \<mapsto> f\<lparr>fi_uid := sy_uid env, fi_gid := sy_gid env\<rparr>)"
  define st1 where "st1 = st\<lparr>st_files := ?fl\<rparr>"
  note n = backup_name_plain [OF law p(1), of f]
  have b: "in_store d ?b" using n(2,3) unfolding in_store_def by (intro exI [of _ ?k]) auto
  have sv: "list_all2 (saved_as env d fs) (st_files st) sv" using rep by (simp add: represents_def)
  have fresh: "?k \<notin> fst ` set (st_files st)" using saved_keys(4) [OF law sv] new by force
  have neq: "p \<noteq> ?b" using b p(2) by auto
  have copy: "copy_file env p ?b fs = Inr fs1" using f(1) new neq by (simp add: copy_file_def fs1_def)
  have "fs1 (os_join d k) = fs (os_join d k)" if "k \<in> fst ` set (st_files st)" for k
  proof -
    have "k \<noteq> ?k" using that fresh by metis
    then show ?thesis using saved_keys(2) [OF law sv that] n(2) os_join_inj by (simp add: fs1_def)
  qed
  then have "list_all2 (saved_as env d fs1) (st_files st) sv" by (rule saved_list_frame [OF sv])
  moreover have "saved_as env d fs1 (?k, index_entry f p) (p, f)"
    using p f(2) by (simp add: saved_as_def fs1_def)
  ultimately have all: "list_all2 (saved_as env d fs1) (st_files st1) (sv @ [(p, f)])"
    by (simp add: st1_def list_all2_appendI)
  note save = store_save_represents [OF law _ _ _ _ _ _ all, of i]
  have "represents env d i st1 (store_save env st1 fs1) (sv @ [(p, f)])"
    using rep fresh by (intro save) (auto simp: represents_def st1_def)
  moreover have "store_save env st1 fs1 q = fs q" if "\<not> in_store d q" for q
    using save(2) [OF _ _ _ _ _ _ that] rep fresh that b by (auto simp: represents_def st1_def fs1_def)
  moreover have "backup_file env p (st, fs) = (Inr (), (st1, store_save env st1 fs1))"
    using p(1) f(1) new copy rep
    by (simp add: backup_file_def plain_path_def represents_def Let_def update_append [OF fresh] st1_def)
  ultimately show ?thesis by blast
qed

lemma find_path_None:
  "list_all2 (saved_as env d fs) fl sv \<Longrightarrow> map_of sv p = None \<Longrightarrow> find_path fl p = Inr None"
  by (induction rule: list_all2_induct) (auto simp: saved_as_def split: if_splits)

lemma find_path_Some:
  "list_all2 (saved_as env d fs) fl sv \<Longrightarrow> map_of sv p = Some f \<Longrightarrow>
   \<exists>xs k ys axs ays. fl = xs @ (k, index_entry f p) # ys \<and> list_all2 (saved_as env d fs) xs axs \<and>
     saved_as env d fs (k, index_entry f p) (p, f) \<and> list_all2 (saved_as env d fs) ys ays \<and>
     drop_saved p sv = axs @ ays \<and>
     find_path fl p = Inr (Some (k, nat_to_dec (S_IFREG + fi_perm f), nat_to_dec (fi_uid f), nat_to_dec (fi_gid f)))"
proof (induction rule: list_all2_induct)
  case (Cons e fl a sv)
  obtain k v q g where ea: "e = (k, v)" "a = (q, g)" by (metis surj_pair)
  have v: "v = index_entry g q" using Cons.hyps(1) ea by (simp add: saved_as_def)
  show ?case
  proof (cases "q = p")
    case True
    then show ?thesis using Cons ea v
      by (intro exI [of _ "[]"] exI [of _ k] exI [of _ fl] exI [of _ sv]) auto
  next
    case False
    with Cons ea obtain xs k' ys axs ays where *: "fl = xs @ (k', index_entry f p) # ys"
      "list_all2 (saved_as env d fs) xs axs" "saved_as env d fs (k', index_entry f p) (p, f)"
      "list_all2 (saved_as env d fs) ys ays" "drop_saved p sv = axs @ ays"
      "find_path fl p = Inr (Some (k', nat_to_dec (S_IFREG + fi_perm f), nat_to_dec (fi_uid f), nat_to_dec (fi_gid f)))"
      by auto
    show ?thesis using * Cons.hyps(1) False ea v
      by (intro exI [of _ "e # xs"] exI [of _ k'] exI [of _ ys] exI [of _ "a # axs"] exI [of _ ays]) auto
  qed
qed simp

lemma restore_copy_saved:
  assumes g: "fs b = Some g" "fi_content g = fi_content f" "fi_perm g = fi_perm f" and f: "file_ok f" and q: "q \<noteq> b"
  shows "restore_copy env b q (nat_to_dec (S_IFREG + fi_perm f)) (nat_to_dec (fi_uid f)) (nat_to_dec (fi_gid f)) fs
    = (Inr (), fs(q \<mapsto> f, b := None))"
proof -
  have owner: "new_owner (int (fi_uid f)) x = Inr (fi_uid f)" "new_owner (int (fi_gid f)) x = Inr (fi_gid f)" for x
    using f by (simp_all add: new_owner_def file_ok_def)
  have "int (S_IFREG + fi_perm f) mod 4096 = int (fi_perm f)"
  proof -
    have "(32768 + int (fi_perm f)) mod 4096 = int (fi_perm f) mod 4096"
      using mod_mult_self3 [of 8 4096 "int (fi_perm f)"] by simp
    then show ?thesis using f by (simp add: S_IFREG_def file_ok_def)
  qed
  moreover have "int (S_IFREG + fi_perm f) \<le> 2147483647" using f by (simp add: S_IFREG_def file_ok_def)
  ultimately show ?thesis using g q owner
    by (auto simp: restore_copy_def copy_file_def os_chown_def os_chmod_def Let_def fun_upd_twist
        split: option.split intro!: ext file_info.equality)
qed

lemma remove_represents:
  assumes law: "sys_law env" and rep: "represents env d i st fs sv"
    and fl: "st_files st = xs @ (k, v) # ys"
    and sv: "list_all2 (saved_as env d fs) xs axs" "list_all2 (saved_as env d fs) ys ays"
    and k: "CHR ''/'' \<notin> set k"
    and same: "\<And>q. in_store d q \<Longrightarrow> q \<noteq> os_join d k \<Longrightarrow> fs' q = fs q"
  defines "st1 \<equiv> st\<lparr>st_files := AList.delete k (st_files st)\<rparr>"
  shows "represents env d i st1 (store_save env st1 fs') (axs @ ays)"
    "\<not> in_store d q \<Longrightarrow> store_save env st1 fs' q = fs' q"
proof -
  have dist: "distinct (map fst (xs @ (k, v) # ys))" using rep fl by (simp add: represents_def)
  have st1: "st_files st1 = xs @ ys" using delete_middle [OF dist] fl by (simp add: st1_def)
  have all: "list_all2 (saved_as env d fs) (xs @ ys) (axs @ ays)" using sv by (rule list_all2_appendI)
  have "fs' (os_join d l) = fs (os_join d l)" if "l \<in> fst ` set (xs @ ys)" for l
  proof -
    have "l \<noteq> k" using that dist by auto
    then have "os_join d l \<noteq> os_join d k" using os_join_inj saved_keys(2) [OF law all that] k by blast
    with same saved_keys(1) [OF law all that] show ?thesis by blast
  qed
  from saved_list_frame [OF all this] have "list_all2 (saved_as env d fs') (st_files st1) (axs @ ays)"
    using st1 by simp
  note save = store_save_represents [OF law _ _ _ _ _ _ this, of i]
  have st: "st_path st1 = d" "st_index st1 = os_join d i" "i \<noteq> []" "CHR ''/'' \<notin> set i" "length i \<le> 64"
    using rep by (simp_all add: represents_def st1_def)
  have dist1: "distinct (map fst (st_files st1))" using dist st1 by simp
  show "represents env d i st1 (store_save env st1 fs') (axs @ ays)" using st dist1 by (intro save)
  show "\<not> in_store d q \<Longrightarrow> store_save env st1 fs' q = fs' q" using st dist1 by (intro save)
qed

lemma restore_file_represents:
  assumes law: "sys_law env" and rep: "represents env d i st fs sv" and f: "map_of sv p = Some f"
    and np: "new_path = None \<or> (\<exists>q. new_path = Some q \<and> is_abs q \<and> \<not> in_store d q)"
  shows "\<exists>st' fs'. restore_file env p new_path (st, fs) = (Inr True, (st', fs')) \<and>
    represents env d i st' fs' (drop_saved p sv) \<and>
    (\<forall>q. \<not> in_store d q \<longrightarrow> fs' q = (fs(case_option p id new_path \<mapsto> f)) q)"
proof -
  let ?q = "case new_path of None \<Rightarrow> p | Some q \<Rightarrow> q"
  have all: "list_all2 (saved_as env d fs) (st_files st) sv" using rep by (simp add: represents_def)
  from find_path_Some [OF all f] obtain xs k ys axs ays where fl: "st_files st = xs @ (k, index_entry f p) # ys"
    and sv: "list_all2 (saved_as env d fs) xs axs" "list_all2 (saved_as env d fs) ys ays"
    and sa: "saved_as env d fs (k, index_entry f p) (p, f)" and drop: "drop_saved p sv = axs @ ays"
    and find: "find_path (st_files st) p =
      Inr (Some (k, nat_to_dec (S_IFREG + fi_perm f), nat_to_dec (fi_uid f), nat_to_dec (fi_gid f)))"
    by blast
  from sa obtain g where g: "fs (os_join d k) = Some g" "fi_content g = fi_content f" "fi_perm g = fi_perm f"
    and ok: "file_ok f" and p: "is_abs p" "\<not> in_store d p" by (auto simp: saved_as_def plain_path_def)
  note k = saved_asD [OF law sa]
  have q: "\<not> in_store d ?q" using np p(2) by auto
  then have "?q \<noteq> os_join d k" using k(1) by auto
  note copy = restore_copy_saved [where fs = fs and b = "os_join d k", OF g ok this, of env]
  define fs1 where "fs1 = fs(?q \<mapsto> f, os_join d k := None)"
  define st1 where "st1 = st\<lparr>st_files := AList.delete k (st_files st)\<rparr>"
  have same: "fs1 r = fs r" if "in_store d r" "r \<noteq> os_join d k" for r
    using that q by (auto simp: fs1_def)
  note rem = remove_represents [where fs' = fs1, OF law rep fl sv k(2), folded st1_def drop]
  have "restore_file env p new_path (st, fs) = (Inr True, (st1, store_save env st1 fs1))"
  proof -
    have path: "st_path st = d" using rep by (simp add: represents_def)
    have "\<not> (new_path \<noteq> None \<and> \<not> is_abs (the new_path))" using np by auto
    then show ?thesis unfolding restore_file_def
      by (simp only: p(1) find path k(6) g(1) copy Let_def split_conv sum.case option.case not_True_eq_False
          if_False option.simps(3) flip: fs1_def st1_def)
  qed
  moreover have "store_save env st1 fs1 r = (fs(case_option p id new_path \<mapsto> f)) r" if "\<not> in_store d r" for r
  proof -
    have "store_save env st1 fs1 r = fs1 r" using same that by (rule rem(2))
    then show ?thesis using k(1) that by (auto simp: fs1_def split: option.split)
  qed
  moreover have "represents env d i st1 (store_save env st1 fs1) (drop_saved p sv)" using same by (rule rem(1))
  ultimately show ?thesis by blast
qed

lemma untrack_file_represents:
  assumes law: "sys_law env" and rep: "represents env d i st fs sv" and f: "map_of sv p = Some f"
  shows "\<exists>st' fs'. untrack_file env p (st, fs) = (Inr True, (st', fs')) \<and>
    represents env d i st' fs' (drop_saved p sv) \<and> (\<forall>q. \<not> in_store d q \<longrightarrow> fs' q = fs q)"
proof -
  have all: "list_all2 (saved_as env d fs) (st_files st) sv" using rep by (simp add: represents_def)
  from find_path_Some [OF all f] obtain xs k ys axs ays where fl: "st_files st = xs @ (k, index_entry f p) # ys"
    and sv: "list_all2 (saved_as env d fs) xs axs" "list_all2 (saved_as env d fs) ys ays"
    and sa: "saved_as env d fs (k, index_entry f p) (p, f)" and drop: "drop_saved p sv = axs @ ays"
    and find: "find_path (st_files st) p =
      Inr (Some (k, nat_to_dec (S_IFREG + fi_perm f), nat_to_dec (fi_uid f), nat_to_dec (fi_gid f)))"
    by blast
  from sa obtain g where g: "fs (os_join d k) = Some g" and p: "is_abs p"
    by (auto simp: saved_as_def plain_path_def)
  note k = saved_asD [OF law sa]
  define fs1 where "fs1 = fs(os_join d k := None)"
  define st1 where "st1 = st\<lparr>st_files := AList.delete k (st_files st)\<rparr>"
  have same: "fs1 r = fs r" if "in_store d r" "r \<noteq> os_join d k" for r using that by (simp add: fs1_def)
  note rem = remove_represents [where fs' = fs1, OF law rep fl sv k(2), folded st1_def drop]
  have "untrack_file env p (st, fs) = (Inr True, (st1, store_save env st1 fs1))"
  proof -
    have path: "st_path st = d" using rep by (simp add: represents_def)
    show ?thesis unfolding untrack_file_def
      by (simp only: p find path k(6) g Let_def split_conv sum.case option.case not_True_eq_False
          if_False option.simps(3) flip: fs1_def st1_def)
  qed
  moreover have "store_save env st1 fs1 r = fs r" if "\<not> in_store d r" for r
  proof -
    have "store_save env st1 fs1 r = fs1 r" using same that by (rule rem(2))
    then show ?thesis using k(1) that by (auto simp: fs1_def)
  qed
  moreover have "represents env d i st1 (store_save env st1 fs1) (drop_saved p sv)" using same by (rule rem(1))
  ultimately show ?thesis by blast
qed

text \<open>Restoring all files writes them in the order they were saved.\<close>

definition write_saved :: "saved \<Rightarrow> fsys \<Rightarrow> fsys" where
  "write_saved sv fs q = (case map_of (rev sv) q of None \<Rightarrow> fs q | Some f \<Rightarrow> Some f)"

lemma restore_loop_saved:
  assumes law: "sys_law env"
  shows "list_all2 (saved_as env d fs) fl sv \<Longrightarrow> distinct (map fst fl) \<Longrightarrow>
    \<exists>fs'. restore_loop env d fl fs = (Inr (), fs') \<and>
      (\<forall>q. \<not> in_store d q \<longrightarrow> fs' q = write_saved sv fs q)"
proof (induction fl arbitrary: sv fs)
  case Nil
  then show ?case by (simp add: write_saved_def)
next
  case (Cons e fl)
  obtain k v where e: "e = (k, v)" by force
  from Cons.prems(1) obtain p f sv' where sv: "sv = (p, f) # sv'" and sa: "saved_as env d fs (k, v) (p, f)"
    and rest: "list_all2 (saved_as env d fs) fl sv'" unfolding e by (auto simp: list_all2_Cons1)
  from sa obtain g where g: "fs (os_join d k) = Some g" "fi_content g = fi_content f" "fi_perm g = fi_perm f"
    and ok: "file_ok f" and p: "\<not> in_store d p" and v: "v = index_entry f p" by (auto simp: saved_as_def)
  note k = saved_asD [OF law sa]
  have "p \<noteq> os_join d k" using k(1) p by auto
  note copy = restore_copy_saved [where fs = fs and b = "os_join d k", OF g ok this, of env]
  define fs1 where "fs1 = fs(p \<mapsto> f, os_join d k := None)"
  have "fs1 (os_join d l) = fs (os_join d l)" if "l \<in> fst ` set fl" for l
  proof -
    have "os_join d l \<noteq> os_join d k"
      using os_join_inj saved_keys(2) [OF law rest that] k(2) that Cons.prems(2) e by auto
    then show ?thesis using saved_keys(1) [OF law rest that] p by (auto simp: fs1_def)
  qed
  from Cons.IH [OF saved_list_frame [OF rest this]] Cons.prems(2) obtain fs' where
    fs': "restore_loop env d fl fs1 = (Inr (), fs')" "\<forall>q. \<not> in_store d q \<longrightarrow> fs' q = write_saved sv' fs1 q"
    by auto
  have "restore_loop env d (e # fl) fs = (Inr (), fs')"
    using fs'(1) g(1) copy by (simp add: e v Let_def fs1_def)
  moreover have "write_saved sv' fs1 q = write_saved sv fs q" if "\<not> in_store d q" for q
    using that k(1) sv by (auto simp: write_saved_def fs1_def map_add_def split: option.split)
  ultimately show ?case using fs'(2) by auto
qed

lemma restore_all_files_represents:
  assumes law: "sys_law env" and rep: "represents env d i st fs sv"
  shows "\<exists>st' fs'. restore_all_files env (st, fs) = (Inr (sv \<noteq> []), (st', fs')) \<and> represents env d i st' fs' [] \<and>
    (\<forall>q. \<not> in_store d q \<longrightarrow> fs' q = write_saved sv fs q)"
proof (cases "st_files st = []")
  case True
  then have "sv = []" using rep by (simp add: represents_def)
  then show ?thesis using True rep by (simp add: restore_all_files_def write_saved_def)
next
  case False
  have st: "st_path st = d" "st_index st = os_join d i" "i \<noteq> []" "CHR ''/'' \<notin> set i" "length i \<le> 64"
    and all: "list_all2 (saved_as env d fs) (st_files st) sv" and dist: "distinct (map fst (st_files st))"
    using rep by (simp_all add: represents_def)
  from restore_loop_saved [OF law all dist] obtain fs1 where
    fs1: "restore_loop env d (st_files st) fs = (Inr (), fs1)" "\<forall>q. \<not> in_store d q \<longrightarrow> fs1 q = write_saved sv fs q"
    by blast
  define st1 where "st1 = st\<lparr>st_files := []\<rparr>"
  have s: "list_all2 (saved_as env d fs1) (st_files st1) []" by (simp add: st1_def)
  note save = store_save_represents [OF law st(3-5) _ _ _ s]
  have "sv \<noteq> []" using False all by auto
  then have "restore_all_files env (st, fs) = (Inr (sv \<noteq> []), (st1, store_save env st1 fs1))"
    using False st(1) fs1(1) by (simp add: restore_all_files_def st1_def Let_def)
  moreover have "represents env d i st1 (store_save env st1 fs1) []"
    using st by (intro save) (simp_all add: st1_def)
  moreover have "store_save env st1 fs1 q = fs1 q" if "\<not> in_store d q" for q
    using st that by (intro save) (simp_all add: st1_def)
  ultimately show ?thesis using fs1(2) by auto
qed

section \<open>A serialisation that satisfies the assumptions\<close>

definition mark :: "string \<Rightarrow> string" where
  "mark s = concat (map (\<lambda>c. [CHR ''x'', c]) s) @ ''.''"

fun unmark :: "string \<Rightarrow> string \<times> string" where
  "unmark (a # c # r) = (if a = CHR ''x'' then let (s, r') = unmark r in (c # s, r') else ([], c # r))"
| "unmark _ = ([], [])"

lemma unmark_mark [simp]: "unmark (mark s @ r) = (s, r)"
proof (induction s)
  case Nil
  then show ?case by (cases r) (simp_all add: mark_def)
qed (simp add: mark_def)

fun unmarks :: "nat \<Rightarrow> string \<Rightarrow> string list" where
  "unmarks (Suc n) (c # s) = (let (t, r) = unmark (c # s) in t # unmarks n r)"
| "unmarks _ _ = []"

lemma unmarks_marks: "length (concat (map mark ts)) \<le> n \<Longrightarrow> unmarks n (concat (map mark ts)) = ts"
proof (induction ts arbitrary: n)
  case (Cons t ts)
  obtain c s where s: "mark t @ concat (map mark ts) = c # s" by (cases t) (simp_all add: mark_def)
  obtain m where n: "n = Suc m" using Cons.prems by (cases n) (simp_all add: mark_def)
  have m: "unmark (c # s) = (t, concat (map mark ts))" using unmark_mark [of t "concat (map mark ts)"] unfolding s .
  have "length (concat (map mark ts)) \<le> m"
  proof -
    have "0 < length (mark t)" by (simp add: mark_def)
    then show ?thesis using Cons.prems unfolding n list.map concat.simps length_append by linarith
  qed
  then show ?case using Cons.IH s n m by simp
qed (cases n, simp_all)

definition section_tokens :: "string \<times> (string \<times> string) list \<Rightarrow> string list" where
  "section_tokens = (\<lambda>(s, items). (CHR ''S'' # s) # map (\<lambda>(k, v). CHR ''I'' # mark k @ v) items)"

definition add_token :: "string \<Rightarrow> sections \<times> (string \<times> string) list \<Rightarrow> sections \<times> (string \<times> string) list" where
  "add_token t = (\<lambda>(secs, items).
     if take 1 t = ''S'' then ((tl t, items) # secs, []) else (secs, unmark (tl t) # items))"

lemma add_items: "foldr add_token (map (\<lambda>(k, v). CHR ''I'' # mark k @ v) items) (secs, []) = (secs, items)"
  by (induction items) (auto simp: add_token_def)

lemma add_sections: "foldr add_token (concat (map section_tokens secs)) ([], []) = (secs, [])"
proof (induction secs)
  case (Cons sec secs)
  obtain s items where "sec = (s, items)" by force
  then show ?case using Cons add_items [of items secs] by (simp add: section_tokens_def) (simp add: add_token_def)
qed simp

definition mark_env :: sys_env where
  "mark_env =
     \<lparr>sy_sha256 = (\<lambda>c. replicate 64 (if even (length c) then CHR ''0'' else CHR ''1'')),
      sy_cp_read = (\<lambda>s. Inr (fst (foldr add_token (unmarks (length s) s) ([], [])))),
      sy_cp_write = (\<lambda>secs. concat (map mark (concat (map section_tokens secs)))),
      sy_uid = 0, sy_gid = 0, sy_perm = 384\<rparr>"

lemma mark_env_law: "sys_law mark_env"
  by (simp add: sys_law_def mark_env_def unmarks_marks add_sections list_all_iff)

section \<open>The file store refines the list of saved files\<close>

lemma represents_empty:
  assumes "fs (os_join d i) = None" "i \<noteq> []" "CHR ''/'' \<notin> set i" "length i \<le> 64"
  shows "represents env d i \<lparr>st_path = d, st_index = os_join d i, st_files = []\<rparr> fs []"
  using assms by (simp add: represents_def)

lemma find_path_iff:
  assumes "represents env d i st fs sv"
  shows "has_file p st = Inr (p \<in> fst ` set sv)" "has_files st \<longleftrightarrow> sv \<noteq> []"
proof -
  have all: "list_all2 (saved_as env d fs) (st_files st) sv" using assms by (simp add: represents_def)
  show "has_file p st = Inr (p \<in> fst ` set sv)"
  proof (cases "map_of sv p")
    case None
    then show ?thesis using find_path_None [OF all] by (simp add: has_file_def map_of_eq_None_iff)
  next
    case (Some f)
    then show ?thesis using find_path_Some [OF all Some] by (force simp: has_file_def dest: map_of_SomeD)
  qed
  show "has_files st \<longleftrightarrow> sv \<noteq> []" using all by (auto simp: has_files_def)
qed

text \<open>C8: A store that represents a list of saved files answers and acts as that list: a path
  is known exactly when it was saved; restoring a known path writes exactly the first file saved
  for it, with content, permissions and owner, and nothing else outside the store; untracking
  writes nothing; both forget that entry. An unknown path is refused without any change.
  Restoring all files writes every saved file, the last one saved for a path, and empties the
  store.\<close>

theorem file_store_refines_saved:
  assumes "sys_law env" "represents env d i st fs sv" "is_abs p"
  shows "has_file p st = Inr (p \<in> fst ` set sv) \<and> (has_files st \<longleftrightarrow> sv \<noteq> []) \<and>
    (case map_of sv p of
       None \<Rightarrow>
         restore_file env p None (st, fs) = (Inl (ValueError ''No such file name in the index''), (st, fs)) \<and>
         untrack_file env p (st, fs) = (Inl (ValueError ''No such file name in the index''), (st, fs))
     | Some f \<Rightarrow>
         (\<exists>st' fs'. restore_file env p None (st, fs) = (Inr True, (st', fs')) \<and>
            represents env d i st' fs' (drop_saved p sv) \<and> (\<forall>q. \<not> in_store d q \<longrightarrow> fs' q = (fs(p \<mapsto> f)) q)) \<and>
         (\<exists>st' fs'. untrack_file env p (st, fs) = (Inr True, (st', fs')) \<and>
            represents env d i st' fs' (drop_saved p sv) \<and> (\<forall>q. \<not> in_store d q \<longrightarrow> fs' q = fs q))) \<and>
    (\<exists>st' fs'. restore_all_files env (st, fs) = (Inr (sv \<noteq> []), (st', fs')) \<and> represents env d i st' fs' [] \<and>
       (\<forall>q. \<not> in_store d q \<longrightarrow> fs' q = write_saved sv fs q))"
proof (intro conjI)
  have all: "list_all2 (saved_as env d fs) (st_files st) sv" using assms(2) by (simp add: represents_def)
  show "has_file p st = Inr (p \<in> fst ` set sv)" "has_files st \<longleftrightarrow> sv \<noteq> []" using find_path_iff [OF assms(2)] .
  show "\<exists>st' fs'. restore_all_files env (st, fs) = (Inr (sv \<noteq> []), (st', fs')) \<and> represents env d i st' fs' [] \<and>
       (\<forall>q. \<not> in_store d q \<longrightarrow> fs' q = write_saved sv fs q)"
    using assms(1,2) by (rule restore_all_files_represents)
  show "case map_of sv p of
       None \<Rightarrow>
         restore_file env p None (st, fs) = (Inl (ValueError ''No such file name in the index''), (st, fs)) \<and>
         untrack_file env p (st, fs) = (Inl (ValueError ''No such file name in the index''), (st, fs))
     | Some f \<Rightarrow>
         (\<exists>st' fs'. restore_file env p None (st, fs) = (Inr True, (st', fs')) \<and>
            represents env d i st' fs' (drop_saved p sv) \<and> (\<forall>q. \<not> in_store d q \<longrightarrow> fs' q = (fs(p \<mapsto> f)) q)) \<and>
         (\<exists>st' fs'. untrack_file env p (st, fs) = (Inr True, (st', fs')) \<and>
            represents env d i st' fs' (drop_saved p sv) \<and> (\<forall>q. \<not> in_store d q \<longrightarrow> fs' q = fs q))"
  proof (cases "map_of sv p")
    case None
    then show ?thesis using find_path_None [OF all None] assms(3) by (simp add: restore_file_def untrack_file_def)
  next
    case (Some f)
    show ?thesis
      using restore_file_represents [OF assms(1,2) Some, of None] untrack_file_represents [OF assms(1,2) Some]
      unfolding Some option.case by (intro conjI) simp_all
  qed
qed

text \<open>A store with one saved file.\<close>

definition etc_file :: file_info where
  "etc_file = \<lparr>fi_content = ''tls'', fi_perm = 420, fi_uid = 7, fi_gid = 9\<rparr>"

definition etc_fs :: fsys where
  "etc_fs = [''/etc/a'' \<mapsto> etc_file]"

definition etc_store :: file_store where
  "etc_store = \<lparr>st_path = ''/var'', st_index = ''/var/idx'', st_files = []\<rparr>"

lemma etc_plain: "plain_path ''/etc/a''" "file_ok etc_file" "is_abs ''/etc/a''" "os_join ''/var'' ''idx'' = ''/var/idx''"
  by (code_simp, simp add: file_ok_def etc_file_def, code_simp+)

lemma etc_outside: "\<not> in_store ''/var'' ''/etc/a''"
proof
  assume "in_store ''/var'' ''/etc/a''"
  then obtain k where k: "CHR ''/'' \<notin> set k" "''/etc/a'' = os_join ''/var'' k" by (auto simp: in_store_def)
  from k(2) not_abs [OF k(1)] show False by (simp add: os_join_def)
qed

lemma etc_represents: "represents mark_env ''/var'' ''idx'' etc_store etc_fs []"
  using represents_empty [of etc_fs "''/var''" "''idx''" mark_env] etc_plain(4)
  by (simp add: etc_store_def etc_fs_def)

lemma etc_new: "etc_fs ''/etc/a'' = Some etc_file" "etc_fs (os_join ''/var'' (backup_name mark_env etc_file ''/etc/a'')) = None"
proof -
  have "in_store ''/var'' (os_join ''/var'' (backup_name mark_env etc_file ''/etc/a''))"
    unfolding in_store_def using backup_name_plain(2,3) [OF mark_env_law etc_plain(1), of etc_file]
    by (intro exI [of _ "backup_name mark_env etc_file ''/etc/a''"]) auto
  then have "os_join ''/var'' (backup_name mark_env etc_file ''/etc/a'') \<noteq> ''/etc/a''" using etc_outside by metis
  then show "etc_fs (os_join ''/var'' (backup_name mark_env etc_file ''/etc/a'')) = None" by (simp add: etc_fs_def)
  show "etc_fs ''/etc/a'' = Some etc_file" by (simp add: etc_fs_def)
qed

theorem file_store_refines_saved_witness:
  "\<exists>st fs. backup_file mark_env ''/etc/a'' (etc_store, etc_fs) = (Inr (), (st, fs)) \<and>
    has_file ''/etc/a'' st = Inr True \<and>
    (\<exists>st' fs'. restore_file mark_env ''/etc/a'' None (st, fs) = (Inr True, (st', fs')) \<and> fs' ''/etc/a'' = Some etc_file)"
proof -
  from backup_file_represents [OF mark_env_law etc_represents etc_plain(1) etc_outside etc_new(1) etc_plain(2) etc_new(2)]
  obtain st fs where b: "backup_file mark_env ''/etc/a'' (etc_store, etc_fs) = (Inr (), (st, fs))"
    and r: "represents mark_env ''/var'' ''idx'' st fs [(''/etc/a'', etc_file)]" unfolding append_Nil by blast
  note * = file_store_refines_saved [OF mark_env_law r etc_plain(3)]
  have "has_file ''/etc/a'' st = Inr True" using * by simp
  moreover from * obtain st' fs' where "restore_file mark_env ''/etc/a'' None (st, fs) = (Inr True, (st', fs'))"
    "\<forall>q. \<not> in_store ''/var'' q \<longrightarrow> fs' q = (fs(''/etc/a'' \<mapsto> etc_file)) q" by auto
  moreover from this(2) have "fs' ''/etc/a'' = Some etc_file" using etc_outside by simp
  ultimately show ?thesis using b by blast
qed

text \<open>C7: A file that was backed up is what a later process restores: whatever happens to the
  files outside the store directory in between, a process that has nothing but the index on disk
  finds the path, and its restore brings back content, permissions and owner, changes no other
  file outside the store and leaves the store as it was before the backup.\<close>

theorem backup_restore_file:
  assumes law: "sys_law env" and rep: "represents env d i st fs sv" and new: "p \<notin> fst ` set sv"
    and p: "plain_path p" "\<not> in_store d p" and f: "fs p = Some f" "file_ok f"
    and copy: "fs (os_join d (backup_name env f p)) = None"
  shows "\<exists>st1 fs1. backup_file env p (st, fs) = (Inr (), (st1, fs1)) \<and>
    (\<forall>fs2. (\<forall>q. in_store d q \<longrightarrow> fs2 q = fs1 q) \<longrightarrow>
      (\<exists>st2 st3 fs3. FileStore_init env d i fs2 = Inr st2 \<and>
        restore_file env p None (st2, fs2) = (Inr True, (st3, fs3)) \<and>
        fs3 p = Some f \<and> (\<forall>q. \<not> in_store d q \<longrightarrow> q \<noteq> p \<longrightarrow> fs3 q = fs2 q) \<and>
        represents env d i st3 fs3 sv))"
proof -
  from backup_file_represents [OF law rep p f copy] obtain st1 fs1 where
    b: "backup_file env p (st, fs) = (Inr (), (st1, fs1))" and r1: "represents env d i st1 fs1 (sv @ [(p, f)])"
    by blast
  have last: "map_of (sv @ [(p, f)]) p = Some f"
  proof -
    have "map_of sv p = None" using new by (simp add: map_of_eq_None_iff)
    then show ?thesis by (simp add: map_add_def)
  qed
  have drop: "drop_saved p (sv @ [(p, f)]) = sv" using new by (induction sv) auto
  have "\<exists>st2 st3 fs3. FileStore_init env d i fs2 = Inr st2 \<and>
      restore_file env p None (st2, fs2) = (Inr True, (st3, fs3)) \<and>
      fs3 p = Some f \<and> (\<forall>q. \<not> in_store d q \<longrightarrow> q \<noteq> p \<longrightarrow> fs3 q = fs2 q) \<and> represents env d i st3 fs3 sv"
    if same: "\<forall>q. in_store d q \<longrightarrow> fs2 q = fs1 q" for fs2
  proof -
    have r2: "represents env d i st1 fs2 (sv @ [(p, f)])" using same by (intro represents_frame [OF law r1]) blast
    from restore_file_represents [OF law r2 last, of None] obtain st3 fs3 where
      "restore_file env p None (st1, fs2) = (Inr True, (st3, fs3))" "represents env d i st3 fs3 sv"
      "\<forall>q. \<not> in_store d q \<longrightarrow> fs3 q = (fs2(p \<mapsto> f)) q" unfolding drop by auto
    then show ?thesis using represents_init [OF law r2] p(2) by auto
  qed
  then show ?thesis using b by blast
qed

theorem backup_restore_file_witness:
  "\<exists>st1 fs1 st2 st3 fs3. backup_file mark_env ''/etc/a'' (etc_store, etc_fs) = (Inr (), (st1, fs1)) \<and>
    FileStore_init mark_env ''/var'' ''idx'' (fs1(''/etc/a'' := None)) = Inr st2 \<and>
    restore_file mark_env ''/etc/a'' None (st2, fs1(''/etc/a'' := None)) = (Inr True, (st3, fs3)) \<and>
    fs3 ''/etc/a'' = Some etc_file"
proof -
  have new: "''/etc/a'' \<notin> fst ` set []" by simp
  from backup_restore_file [OF mark_env_law etc_represents new etc_plain(1) etc_outside etc_new(1) etc_plain(2) etc_new(2)]
  obtain st1 fs1 where b: "backup_file mark_env ''/etc/a'' (etc_store, etc_fs) = (Inr (), (st1, fs1))"
    and r: "\<forall>fs2. (\<forall>q. in_store ''/var'' q \<longrightarrow> fs2 q = fs1 q) \<longrightarrow>
      (\<exists>st2 st3 fs3. FileStore_init mark_env ''/var'' ''idx'' fs2 = Inr st2 \<and>
        restore_file mark_env ''/etc/a'' None (st2, fs2) = (Inr True, (st3, fs3)) \<and>
        fs3 ''/etc/a'' = Some etc_file \<and> (\<forall>q. \<not> in_store ''/var'' q \<longrightarrow> q \<noteq> ''/etc/a'' \<longrightarrow> fs3 q = fs2 q) \<and>
        represents mark_env ''/var'' ''idx'' st3 fs3 [])" by blast
  have "\<forall>q. in_store ''/var'' q \<longrightarrow> (fs1(''/etc/a'' := None)) q = fs1 q" using etc_outside by auto
  with r b show ?thesis by blast
qed

end
