(* ===== verification/Restore_State.thy ===== *)
theory Restore_State
  imports Restore_Files
begin

text \<open>
  The saved system state refines a map from module and key to a value: what the state file on
  disk holds is what every operation reads first, so that the map is a function of the disk only.
\<close>

section \<open>What a state file holds\<close>

definition sval_ok :: "sval \<Rightarrow> bool" where
  "sval_ok v \<longleftrightarrow> cp_value (sval_str v) \<and> sval_of (sval_str v) = v"

definition modules_ok :: "modules \<Rightarrow> bool" where
  "modules_ok ms \<longleftrightarrow>
     distinct (map fst ms) \<and>
     (\<forall>(m, vals)\<in>set ms. cp_section m \<and> distinct (map fst vals) \<and> (\<forall>(k, v)\<in>set vals. cp_name k \<and> sval_ok v))"

definition as_sections :: "modules \<Rightarrow> sections" where
  "as_sections ms = map (\<lambda>(m, vals). (m, map (\<lambda>(k, v). (k, sval_str v)) vals)) ms"

definition on_disk :: "sys_env \<Rightarrow> string \<Rightarrow> fsys \<Rightarrow> modules \<Rightarrow> bool" where
  "on_disk env q fs ms \<longleftrightarrow>
     modules_ok ms \<and> [] \<notin> snd ` set ms \<and>
     (if ms = [] then fs q = None
      else \<exists>g. fs q = Some g \<and> fi_content g = sy_cp_write env (as_sections ms))"

definition state_abs :: "modules \<Rightarrow> string \<times> string \<Rightarrow> sval option" where
  "state_abs ms = (\<lambda>(m, k). map_of (module_items ms m) k)"

lemma map_fst_pairs [simp]: "map (fst \<circ> (\<lambda>(k, v). (k, h k v))) xs = map fst xs"
  by (induction xs) auto

lemma modules_okD:
  assumes "modules_ok ms" "(m, vals) \<in> set ms"
  shows "cp_section m" "distinct (map fst vals)" "(k, v) \<in> set vals \<Longrightarrow> cp_name k \<and> sval_ok v"
  using assms unfolding modules_ok_def by fast+

lemma as_sections_ok:
  assumes "modules_ok ms"
  shows "cp_ok (as_sections ms)"
proof -
  have "cp_section m \<and> distinct (map fst items) \<and> list_all (\<lambda>(k, v). cp_name k \<and> cp_value v) items"
    if mem: "(m, items) \<in> set (as_sections ms)" for m items
  proof -
    from mem obtain vals where vals: "(m, vals) \<in> set ms" "items = map (\<lambda>(k, v). (k, sval_str v)) vals"
      by (auto simp: as_sections_def)
    note ok = modules_okD [OF assms vals(1)]
    have "cp_name k \<and> cp_value (sval_str v)" if "(k, v) \<in> set vals" for k v
      using ok(3) [OF that] by (simp add: sval_ok_def)
    then show ?thesis using ok(1,2) vals(2) by (auto simp: list_all_iff)
  qed
  moreover have "map fst (as_sections ms) = map fst ms" by (simp add: as_sections_def)
  moreover have "distinct (map fst ms)" using assms by (simp add: modules_ok_def)
  ultimately show ?thesis unfolding cp_ok_def by (simp add: Ball_set [symmetric] split_beta) (metis prod.collapse)
qed

lemma read_items:
  assumes "modules_ok ms" "(m, vals) \<in> set ms"
  shows "fold (\<lambda>(k, v). AList.update k (sval_of v)) (map (\<lambda>(k, v). (k, sval_str v)) vals) [] = vals"
proof -
  note ok = modules_okD [OF assms]
  have "map (\<lambda>(k, v). (k, sval_of v)) (map (\<lambda>(k, v). (k, sval_str v)) vals) = vals"
    using ok(3) by (intro map_idI [THEN trans [OF map_map]]) (auto simp: sval_ok_def)
  then show ?thesis
    using fold_update_distinct [of "[]" "map (\<lambda>(k, v). (k, sval_str v)) vals" "\<lambda>k. sval_of"] ok(2) by simp
qed

lemma state_load_on_disk:
  assumes law: "sys_law env" and disk: "on_disk env q fs ms" and q: "sf_path sf = q"
  shows "state_load env fs sf = Inr (sf\<lparr>sf_modules := ms\<rparr>)"
proof (cases "ms = []")
  case True
  then show ?thesis using disk q by (simp add: on_disk_def state_load_def read_sections_def)
next
  case False
  have ok: "modules_ok ms" using disk by (simp add: on_disk_def)
  from disk False obtain g where g: "fs q = Some g" "fi_content g = sy_cp_write env (as_sections ms)"
    by (auto simp: on_disk_def)
  let ?h = "\<lambda>items. fold (\<lambda>(k, v). AList.update k (sval_of v)) items []"
  have names: "map fst (as_sections ms) = map fst ms" by (simp add: as_sections_def)
  have "fold (\<lambda>(m, items). AList.update m (?h items)) (as_sections ms) [] = map (\<lambda>(m, items). (m, ?h items)) (as_sections ms)"
    using fold_update_distinct [of "[]" "as_sections ms" "\<lambda>m. ?h"] names ok by (simp add: modules_ok_def)
  also have "\<dots> = ms"
    unfolding as_sections_def by (intro map_idI [THEN trans [OF map_map]]) (auto simp: read_items [OF ok])
  finally show ?thesis using g q sys_lawD(1) [OF law as_sections_ok [OF ok]]
    by (simp add: state_load_def read_sections_def)
qed

section \<open>The operations on the map\<close>

lemma reload_on_disk:
  assumes "sys_law env" "on_disk env (sf_path sf) fs ms"
  shows "reload env (sf, fs) = (Inr (), (sf\<lparr>sf_modules := ms\<rparr>, fs))"
  using state_load_on_disk [OF assms refl] by (simp add: reload_def)

lemma state_abs_filter:
  assumes "distinct (map fst ms)"
  shows "state_abs (filter (\<lambda>(_, vals). vals \<noteq> []) ms) = state_abs ms"
proof (rule ext)
  fix mk :: "string \<times> string"
  obtain m k where mk: "mk = (m, k)" by force
  have "map_of (filter (\<lambda>(_, vals). vals \<noteq> []) ms) m = (case map_of ms m of Some [] \<Rightarrow> None | r \<Rightarrow> r)"
    using assms by (induction ms) (auto simp: map_of_eq_None_iff split: list.split option.split)
  then show "state_abs (filter (\<lambda>(_, vals). vals \<noteq> []) ms) mk = state_abs ms mk"
    by (simp add: state_abs_def module_items_def mk split: option.split list.split)
qed

lemma modules_ok_filter: "modules_ok ms \<Longrightarrow> modules_ok (filter P ms)"
  by (auto simp: modules_ok_def distinct_map_filter)

lemma state_save_on_disk:
  assumes ok: "modules_ok (sf_modules sf)" and law: "sys_law env"
  shows "\<exists>sf' fs' ms. state_save env (sf, fs) = (Inr (), (sf', fs')) \<and> sf_path sf' = sf_path sf \<and>
    on_disk env (sf_path sf) fs' ms \<and> state_abs ms = state_abs (sf_modules sf) \<and> (\<forall>r. r \<noteq> sf_path sf \<longrightarrow> fs' r = fs r)"
proof -
  define ms where "ms = filter (\<lambda>(_, vals). vals \<noteq> []) (sf_modules sf)"
  have ms: "modules_ok ms" "[] \<notin> snd ` set ms" using modules_ok_filter [OF ok] by (auto simp: ms_def)
  have abs: "state_abs ms = state_abs (sf_modules sf)"
    using state_abs_filter ok unfolding ms_def modules_ok_def by blast
  have "''DEFAULT'' \<notin> fst ` set ms"
    using modules_okD(1) [OF ms(1), of "''DEFAULT''"] by (auto simp: cp_section_def)
  define fs' where "fs' = (if ms = [] then fs(sf_path sf := None)
    else write_file env (sf_path sf) (sy_cp_write env (as_sections ms)) fs)"
  have "state_save env (sf, fs) = (Inr (), (sf\<lparr>sf_modules := ms\<rparr>, fs'))"
    using \<open>''DEFAULT'' \<notin> fst ` set ms\<close>
    by (simp add: state_save_def as_sections_def Let_def fs'_def flip: ms_def)
  moreover have "on_disk env (sf_path sf) fs' ms"
    using ms by (auto simp: on_disk_def write_file_def fs'_def split: option.split)
  moreover have "fs' r = fs r" if "r \<noteq> sf_path sf" for r using that by (simp add: fs'_def write_file_def)
  ultimately show ?thesis using abs by (intro exI [of _ "sf\<lparr>sf_modules := ms\<rparr>"] exI [of _ fs'] exI [of _ ms]) simp
qed

lemma modules_ok_update:
  assumes ok: "modules_ok ms" and m: "cp_section m" and vals: "distinct (map fst vals)" "\<forall>(k, v)\<in>set vals. cp_name k \<and> sval_ok v"
  shows "modules_ok (AList.update m vals ms)"
proof -
  have "set (AList.update m vals ms) \<subseteq> insert (m, vals) (set ms)" by (rule set_AList_update)
  then show ?thesis using assms distinct_update [of ms m vals] unfolding modules_ok_def by fast
qed

lemma module_items_ok:
  assumes "modules_ok ms"
  shows "distinct (map fst (module_items ms m))" "\<forall>(k, v)\<in>set (module_items ms m). cp_name k \<and> sval_ok v"
proof -
  have "module_items ms m = [] \<or> (m, module_items ms m) \<in> set ms"
    by (auto simp: module_items_def dest: map_of_SomeD split: option.split)
  then show "distinct (map fst (module_items ms m))" "\<forall>(k, v)\<in>set (module_items ms m). cp_name k \<and> sval_ok v"
    using modules_okD [OF assms] by fastforce+
qed

lemma state_abs_update [simp]:
  "state_abs (AList.update m vals ms) (m', k) = (if m' = m then map_of vals k else state_abs ms (m', k))"
  by (simp add: state_abs_def module_items_def update_conv')

lemma state_abs_items: "map_of (module_items ms m) k = state_abs ms (m, k)"
  by (simp add: state_abs_def)

definition put_state :: "string \<Rightarrow> string \<Rightarrow> sval \<Rightarrow> modules \<Rightarrow> modules" where
  "put_state m k v ms =
     (let ms1 = (if map_of ms m = None then AList.update m [] ms else ms)
      in if map_of ms1 k = None then AList.update m (AList.update k v (module_items ms1 m)) ms1 else ms1)"

lemma put_state_ok:
  assumes ok: "modules_ok ms" and names: "cp_section m" "cp_name k" "sval_ok v"
  shows "modules_ok (put_state m k v ms)"
    "state_abs (put_state m k v ms) =
      (if k \<in> insert m (fst ` set ms) then state_abs ms else (state_abs ms)((m, k) \<mapsto> v))"
proof -
  define ms1 where "ms1 = (if map_of ms m = None then AList.update m [] ms else ms)"
  have ok1: "modules_ok ms1" using modules_ok_update [OF ok names(1), of "[]"] ok by (simp add: ms1_def)
  have items: "module_items ms1 n = module_items ms n" for n
    by (simp add: ms1_def module_items_def update_conv')
  then have abs1: "state_abs ms1 = state_abs ms" by (simp add: state_abs_def)
  have mem: "map_of ms1 k = None \<longleftrightarrow> k \<notin> insert m (fst ` set ms)"
  proof (cases "map_of ms m")
    case None
    then show ?thesis by (auto simp: ms1_def update_conv' map_of_eq_None_iff [of ms k])
  next
    case (Some vals)
    then have "m \<in> fst ` set ms" by (force dest: map_of_SomeD)
    then show ?thesis using Some by (auto simp: ms1_def map_of_eq_None_iff [of ms k])
  qed
  have "\<forall>(k', v')\<in>set (AList.update k v (module_items ms1 m)). cp_name k' \<and> sval_ok v'"
    using module_items_ok(2) [OF ok1, of m] names(2,3) set_AList_update [of k v "module_items ms1 m"] by fast
  then have "modules_ok (AList.update m (AList.update k v (module_items ms1 m)) ms1)"
    using module_items_ok(1) [OF ok1, of m] by (intro modules_ok_update [OF ok1 names(1)] distinct_update)
  then show "modules_ok (put_state m k v ms)" using ok1 by (simp add: put_state_def Let_def flip: ms1_def)
  have "state_abs (AList.update m (AList.update k v (module_items ms1 m)) ms1) = (state_abs ms)((m, k) \<mapsto> v)"
    using abs1 by (auto simp: fun_eq_iff update_conv' state_abs_items)
  then show "state_abs (put_state m k v ms) =
      (if k \<in> insert m (fst ` set ms) then state_abs ms else (state_abs ms)((m, k) \<mapsto> v))"
    using abs1 mem by (simp add: put_state_def Let_def flip: ms1_def)
qed

text \<open>A run of an operation that ends with the state file holding a given map.\<close>

definition leaves :: "sys_env \<Rightarrow> string \<Rightarrow> fsys \<Rightarrow> 'a res \<times> state_file \<times> fsys \<Rightarrow> 'a \<Rightarrow>
    (string \<times> string \<Rightarrow> sval option) \<Rightarrow> bool" where
  "leaves env q fs out r a \<longleftrightarrow>
     (\<exists>sf' fs' ms'. out = (Inr r, (sf', fs')) \<and> sf_path sf' = q \<and> on_disk env q fs' ms' \<and>
        state_abs ms' = a \<and> (\<forall>p. p \<noteq> q \<longrightarrow> fs' p = fs p))"

lemma save_leaves:
  assumes "sys_law env" "modules_ok (sf_modules sf)" "sf_path sf = q"
  shows "leaves env q fs (state_save env (sf, fs)) () (state_abs (sf_modules sf))"
  using state_save_on_disk [OF assms(2,1), of fs] assms(3) unfolding leaves_def by blast

lemma backup_state_leaves:
  assumes law: "sys_law env" and disk: "on_disk env (sf_path sf) fs ms" and names: "cp_section m" "cp_name k" "sval_ok v"
  shows "leaves env (sf_path sf) fs (backup_state env m k (SVal v) (sf, fs)) ()
    (if k \<in> insert m (fst ` set ms) then state_abs ms else (state_abs ms)((m, k) \<mapsto> v))"
proof -
  have ok: "modules_ok ms" using disk by (simp add: on_disk_def)
  note put = put_state_ok [OF ok names]
  have "backup_state env m k (SVal v) (sf, fs) = state_save env (sf\<lparr>sf_modules := put_state m k v ms\<rparr>, fs)"
    using reload_on_disk [OF law disk]
    by (auto simp: backup_state_def act_bind_def put_state_def Let_def)
  then show ?thesis using save_leaves [OF law, of "sf\<lparr>sf_modules := put_state m k v ms\<rparr>" "sf_path sf" fs] put by simp
qed

lemma get_state_on_disk:
  assumes "sys_law env" "on_disk env (sf_path sf) fs ms"
  shows "get_state env m k (sf, fs) = (Inr (state_abs ms (m, k)), (sf\<lparr>sf_modules := ms\<rparr>, fs))"
  using reload_on_disk [OF assms] by (simp add: get_state_def act_bind_def act_read_def state_abs_items)

lemma delete_state_leaves:
  assumes law: "sys_law env" and disk: "on_disk env (sf_path sf) fs ms"
  shows "leaves env (sf_path sf) fs (delete_state env m k (sf, fs)) () ((state_abs ms)((m, k) := None))"
proof (cases "state_abs ms (m, k)")
  case None
  then have "(state_abs ms)((m, k) := None) = state_abs ms" by (auto simp: fun_eq_iff)
  then show ?thesis using reload_on_disk [OF law disk] None disk
    by (auto simp: delete_state_def act_bind_def act_when_def act_if_def act_ret_def state_abs_items leaves_def)
next
  case (Some v)
  define ms1 where "ms1 = AList.update m (AList.delete k (module_items ms m)) ms"
  have ok: "modules_ok ms" using disk by (simp add: on_disk_def)
  from Some have "(m, module_items ms m) \<in> set ms"
    by (auto simp: state_abs_def module_items_def dest: map_of_SomeD split: option.splits)
  then have m: "cp_section m" using modules_okD(1) [OF ok] by blast
  have "\<forall>(k', v')\<in>set (AList.delete k (module_items ms m)). cp_name k' \<and> sval_ok v'"
    using module_items_ok(2) [OF ok, of m] by (auto simp: AList.delete_eq)
  then have ok1: "modules_ok ms1"
    unfolding ms1_def using module_items_ok(1) [OF ok, of m] by (intro modules_ok_update [OF ok m] distinct_delete)
  have abs1: "state_abs ms1 = (state_abs ms)((m, k) := None)"
    by (auto simp: ms1_def fun_eq_iff delete_conv' state_abs_items)
  have "delete_state env m k (sf, fs) = state_save env (sf\<lparr>sf_modules := ms1\<rparr>, fs)"
    using reload_on_disk [OF law disk] Some
    by (simp add: delete_state_def act_bind_def act_when_def act_if_def state_abs_items ms1_def)
  then show ?thesis using save_leaves [OF law, of "sf\<lparr>sf_modules := ms1\<rparr>" "sf_path sf" fs] ok1 abs1 by simp
qed

lemma restore_state_leaves:
  assumes law: "sys_law env" and disk: "on_disk env (sf_path sf) fs ms"
  shows "leaves env (sf_path sf) fs (restore_state env m k (sf, fs)) (state_abs ms (m, k)) ((state_abs ms)((m, k) := None))"
proof (cases "state_abs ms (m, k)")
  case None
  then have "(state_abs ms)((m, k) := None) = state_abs ms" by (auto simp: fun_eq_iff)
  then show ?thesis using get_state_on_disk [OF law disk, of m k] None disk
    by (auto simp: restore_state_def act_bind_def act_ret_def leaves_def)
next
  case (Some v)
  have "leaves env (sf_path sf) fs (delete_state env m k (sf\<lparr>sf_modules := ms\<rparr>, fs)) () ((state_abs ms)((m, k) := None))"
    using delete_state_leaves [OF law, of "sf\<lparr>sf_modules := ms\<rparr>" fs ms m k] disk by simp
  then show ?thesis using get_state_on_disk [OF law disk, of m k] Some
    by (auto simp: restore_state_def act_bind_def act_ret_def leaves_def)
qed

text \<open>C9: The state file refines a map from module and key to a value, whatever the object in
  memory held before: reading a state returns the value of the map and writes nothing, saving a
  state sets the value unless the key is the name of a module that has saved state or of the
  module itself, when nothing is saved, deleting removes it, and restoring returns it and removes
  it. Only the state file is written.\<close>

theorem state_file_refines_map:
  assumes "sys_law env" "on_disk env (sf_path sf) fs ms" "cp_section m" "cp_name k" "sval_ok v"
  shows "(\<exists>sf'. get_state env m k (sf, fs) = (Inr (state_abs ms (m, k)), (sf', fs))) \<and>
    leaves env (sf_path sf) fs (backup_state env m k (SVal v) (sf, fs)) ()
      (if k \<in> insert m (fst ` set ms) then state_abs ms else (state_abs ms)((m, k) \<mapsto> v)) \<and>
    leaves env (sf_path sf) fs (delete_state env m k (sf, fs)) () ((state_abs ms)((m, k) := None)) \<and>
    leaves env (sf_path sf) fs (restore_state env m k (sf, fs)) (state_abs ms (m, k)) ((state_abs ms)((m, k) := None))"
  using get_state_on_disk [OF assms(1,2)] backup_state_leaves [OF assms] delete_state_leaves [OF assms(1,2)]
    restore_state_leaves [OF assms(1,2)] by blast

theorem state_file_refines_map_witness:
  "leaves mark_env ''/var/state'' Map.empty
     (backup_state mark_env ''ntpd'' ''enabled'' (SVal (SBool True)) (\<lparr>sf_path = ''/var/state'', sf_modules = []\<rparr>, Map.empty)) ()
     [(''ntpd'', ''enabled'') \<mapsto> SBool True]"
proof -
  have "on_disk mark_env (sf_path \<lparr>sf_path = ''/var/state'', sf_modules = []\<rparr>) Map.empty []"
    by (simp add: on_disk_def modules_ok_def)
  moreover have "cp_section ''ntpd''" "cp_name ''enabled''" by code_simp+
  moreover have "sval_ok (SBool True)" by code_simp
  ultimately have "leaves mark_env (sf_path \<lparr>sf_path = ''/var/state'', sf_modules = []\<rparr>) Map.empty
     (backup_state mark_env ''ntpd'' ''enabled'' (SVal (SBool True)) (\<lparr>sf_path = ''/var/state'', sf_modules = []\<rparr>, Map.empty)) ()
     (if ''enabled'' \<in> insert ''ntpd'' (fst ` set ([] :: modules)) then state_abs [] else (state_abs [])((''ntpd'', ''enabled'') \<mapsto> SBool True))"
    using state_file_refines_map [OF mark_env_law, of "\<lparr>sf_path = ''/var/state'', sf_modules = []\<rparr>" Map.empty "[]"
      "''ntpd''" "''enabled''" "SBool True"] by blast
  moreover have "state_abs [] = Map.empty" by (simp add: state_abs_def module_items_def fun_eq_iff)
  ultimately show ?thesis by simp
qed

end
