(* ===== verification/DNS_Records.thy ===== *)
theory DNS_Records
  imports Py_Prelude
begin

text \<open>
  Ordering of SRV and URI records, \<open>_mix_weight\<close>, \<open>sort_prio_weight\<close> and \<open>query_srv\<close> of
  \<^verbatim>\<open>src/ipapython/dnsutil.py\<close>. Targets are an arbitrary type: names of dnspython with their
  equality. The random generator is a parameter with a state of its own; weights and random numbers
  are counted in hundredths (the weight 0.01 given to records without one is 1) and added exactly.
  The order in which a set of records is iterated is a parameter as well.
\<close>

section \<open>Definitions\<close>

record 'n srv =
  sv_priority :: nat
  sv_weight :: nat
  sv_target :: 'n
  sv_port :: "nat option"

record ('g, 'r) random_gen =
  rg_uniform :: "'g \<Rightarrow> int \<Rightarrow> int \<times> 'g"
  rg_shuffle :: "'g \<Rightarrow> 'r list \<Rightarrow> 'r list \<times> 'g"

definition noweight :: int where
  "noweight = 1"

definition weight_of :: "'n srv \<Rightarrow> int" where
  "weight_of rr = (if sv_weight rr = 0 then noweight else 100 * int (sv_weight rr))"

text \<open>The pass over a copy of the set: every record whose running sum reaches the random number.\<close>

fun pick :: "int \<Rightarrow> int \<Rightarrow> 'n srv list \<Rightarrow> 'n srv list" where
  "pick urn acc [] = []"
| "pick urn acc (rr # rs) =
     (let acc' = acc + weight_of rr
      in if acc' \<ge> urn then rr # pick urn acc' rs else pick urn acc' rs)"

partial_function (option) mix_loop ::
    "('g, 'n srv) random_gen \<Rightarrow> ('n srv set \<Rightarrow> 'n srv list) \<Rightarrow> 'g \<Rightarrow> 'n srv set \<Rightarrow> 'n srv list \<Rightarrow>
      ('n srv list \<times> 'n srv set \<times> 'g) option" where
  "mix_loop rng it g records result =
     (if 1 < card records then
        let (urn, g') = rg_uniform rng g (sum_list (map weight_of (it records)));
            chosen = pick urn 0 (it records)
        in mix_loop rng it g' (records - set chosen) (result @ chosen)
      else Some (result, records, g))"

definition mix_weight ::
    "('g, 'n srv) random_gen \<Rightarrow> ('n srv set \<Rightarrow> 'n srv list) \<Rightarrow> 'g \<Rightarrow> 'n srv list \<Rightarrow> ('n srv list \<times> 'g) option" where
  "mix_weight rng it g records =
     (if length records \<le> 1 then Some (records, g)
      else if list_all (\<lambda>rr. sv_weight rr = sv_weight (hd records)) records then Some (rg_shuffle rng g records)
      else
        map_option (\<lambda>(result, rest, g'). (if rest \<noteq> {} then result @ [hd (it rest)] else result, g'))
          (mix_loop rng it g (set records) []))"

definition service :: "'n srv \<Rightarrow> 'n \<times> nat option" where
  "service rr = (sv_target rr, sv_port rr)"

fun unique_records :: "('n \<times> nat option) set \<Rightarrow> 'n srv list \<Rightarrow> 'n srv list" where
  "unique_records seen [] = []"
| "unique_records seen (rr # rs) =
     (if service rr \<notin> seen then rr # unique_records (insert (service rr) seen) rs else unique_records seen rs)"

fun prio_loop ::
    "('g, 'n srv) random_gen \<Rightarrow> ('n srv set \<Rightarrow> 'n srv list) \<Rightarrow> 'g \<Rightarrow> 'n srv list \<Rightarrow> 'n srv list \<Rightarrow> 'n srv list \<Rightarrow>
      ('n srv list \<times> 'g) option" where
  "prio_loop rng it g sameprio result [] =
     (if sameprio = [] then Some (result, g)
      else map_option (\<lambda>(mixed, g'). (result @ mixed, g')) (mix_weight rng it g sameprio))"
| "prio_loop rng it g sameprio result (rr # rs) =
     (if sameprio = [] \<or> sv_priority (hd sameprio) = sv_priority rr
      then prio_loop rng it g (sameprio @ [rr]) result rs
      else
        case mix_weight rng it g sameprio of
          None \<Rightarrow> None
        | Some (mixed, g') \<Rightarrow> prio_loop rng it g' [rr] (result @ mixed) rs)"

definition sort_prio_weight ::
    "('g, 'n srv) random_gen \<Rightarrow> ('n srv set \<Rightarrow> 'n srv list) \<Rightarrow> 'g \<Rightarrow> 'n srv list \<Rightarrow> ('n srv list \<times> 'g) option" where
  "sort_prio_weight rng it g records =
     prio_loop rng it g [] [] (unique_records {} (sort_key sv_priority records))"

definition query_srv ::
    "('q \<Rightarrow> 'n srv list res) \<Rightarrow> ('g, 'n srv) random_gen \<Rightarrow> ('n srv set \<Rightarrow> 'n srv list) \<Rightarrow> 'g \<Rightarrow> 'q \<Rightarrow>
      (pyexc + 'n srv list \<times> 'g) option" where
  "query_srv resolve_f rng it g qname =
     (case resolve_f qname of
        Inl x \<Rightarrow> Some (Inl x)
      | Inr answer \<Rightarrow> map_option Inr (sort_prio_weight rng it g answer))"

section \<open>One pass and the loop of passes\<close>

text \<open>What is documented of \<open>random.uniform(0, n)\<close> and \<open>random.shuffle\<close>.\<close>

definition random_law :: "('g, 'r) random_gen \<Rightarrow> bool" where
  "random_law rng \<longleftrightarrow>
     (\<forall>g n. 0 \<le> n \<longrightarrow> 0 \<le> fst (rg_uniform rng g n) \<and> fst (rg_uniform rng g n) \<le> n) \<and>
     (\<forall>g xs. mset (fst (rg_shuffle rng g xs)) = mset xs)"

lemma weight_of_pos: "0 < weight_of rr"
  by (simp add: weight_of_def noweight_def)

text \<open>The pass takes all records from some position on, and the last one in any case.\<close>

lemma pick_all: "urn \<le> acc \<Longrightarrow> pick urn acc rs = rs"
proof (induction rs arbitrary: acc)
  case (Cons rr rs)
  then show ?case using weight_of_pos [of rr] by (simp add: Let_def)
qed simp

lemma pick_suffix: "\<exists>xs. rs = xs @ pick urn acc rs"
proof (induction rs arbitrary: acc)
  case (Cons rr rs)
  show ?case
  proof (cases "acc + weight_of rr \<ge> urn")
    case True
    then have "pick urn (acc + weight_of rr) rs = rs" by (rule pick_all)
    then show ?thesis using True by (simp add: Let_def)
  next
    case False
    then show ?thesis using Cons [of "acc + weight_of rr"] by (auto simp: Let_def intro: exI [of _ "rr # _"])
  qed
qed simp

lemma pick_nonempty:
  "rs \<noteq> [] \<Longrightarrow> urn \<le> acc + sum_list (map weight_of rs) \<Longrightarrow> pick urn acc rs \<noteq> []"
proof (induction rs arbitrary: acc)
  case (Cons rr rs)
  then show ?case using Cons.IH [of "acc + weight_of rr"] by (cases rs) (auto simp: Let_def)
qed simp

lemma mix_loop_returns:
  assumes law: "random_law rng" and it: "set_iter_ok it" and fin: "finite records"
  shows "\<exists>chosen rest g'. mix_loop rng it g records result = Some (result @ chosen, rest, g') \<and>
    set chosen \<union> rest = records \<and> set chosen \<inter> rest = {} \<and> distinct chosen \<and> card rest \<le> 1"
  using fin
proof (induction "card records" arbitrary: g records result rule: less_induct)
  case less
  show ?case
  proof (cases "1 < card records")
    case False
    then have "mix_loop rng it g records result = Some (result @ [], records, g)" by (simp add: mix_loop.simps)
    with False show ?thesis by (intro exI conjI) auto
  next
    case True
    define rs where "rs = it records"
    have rs: "set rs = records" "distinct rs" "rs \<noteq> []"
      using it less.prems True by (auto simp: rs_def set_iter_ok_def)
    let ?n = "sum_list (map weight_of rs)"
    have "0 \<le> ?n" using weight_of_pos by (intro sum_list_nonneg) (auto intro: less_imp_le)
    then have le: "fst (rg_uniform rng g ?n) \<le> ?n" using law by (simp add: random_law_def)
    obtain urn g' where u: "rg_uniform rng g ?n = (urn, g')" by force
    define c where "c = pick urn 0 rs"
    have c: "c \<noteq> []" using pick_nonempty [OF rs(3), of urn 0] le u by (simp add: c_def)
    obtain xs where xs: "rs = xs @ c" using pick_suffix [of rs urn 0] by (auto simp: c_def)
    have smaller: "card (records - set c) < card records"
      using less.prems c xs rs(1) by (intro psubset_card_mono) (auto simp: neq_Nil_conv)
    from less.hyps [OF smaller, of g' "result @ c"] less.prems obtain chosen rest g'' where
      r: "mix_loop rng it g' (records - set c) (result @ c) = Some ((result @ c) @ chosen, rest, g'')"
      "set chosen \<union> rest = records - set c" "set chosen \<inter> rest = {}" "distinct chosen" "card rest \<le> 1" by auto
    have "mix_loop rng it g records result = mix_loop rng it g' (records - set c) (result @ c)"
      using True u by (subst mix_loop.simps) (simp add: Let_def c_def flip: rs_def)
    moreover have "distinct c" "set c \<subseteq> records" using xs rs by auto
    ultimately show ?thesis using r by (intro exI [of _ "c @ chosen"] exI [of _ rest] exI [of _ g'']) auto
  qed
qed

lemma mix_weight_returns:
  assumes law: "random_law rng" and it: "set_iter_ok it" and dist: "distinct records"
  shows "\<exists>out g'. mix_weight rng it g records = Some (out, g') \<and> mset out = mset records"
proof (cases "length records \<le> 1 \<or> list_all (\<lambda>rr. sv_weight rr = sv_weight (hd records)) records")
  case True
  obtain out g' where "rg_shuffle rng g records = (out, g')" by force
  moreover from this have "mset out = mset records" using law by (metis random_law_def fst_conv)
  ultimately show ?thesis using True unfolding mix_weight_def by auto
next
  case False
  from mix_loop_returns [OF law it, of "set records" g "[]"] obtain chosen rest g' where
    r: "mix_loop rng it g (set records) [] = Some (chosen, rest, g')" "set chosen \<union> rest = set records"
    "set chosen \<inter> rest = {}" "distinct chosen" "card rest \<le> 1" by auto
  define out where "out = (if rest \<noteq> {} then chosen @ [hd (it rest)] else chosen)"
  have fin: "finite rest" using r(2) by (metis finite_Un finite_set)
  have "set out = set records \<and> distinct out"
  proof (cases "rest = {}")
    case True
    then show ?thesis using r by (simp add: out_def)
  next
    case False
    then have "card rest = 1" using r(5) fin by (simp add: card_gt_0_iff le_Suc_eq)
    then obtain x where x: "rest = {x}" by (auto simp: card_1_singleton_iff)
    then have "set (it rest) = {x}" using it fin by (simp add: set_iter_ok_def)
    then have "hd (it rest) = x" by (metis hd_in_set set_empty insert_not_empty singletonD)
    then show ?thesis using r x by (auto simp: out_def)
  qed
  then have "mset out = mset records" using dist by (metis set_eq_iff_mset_eq_distinct)
  moreover have "mix_weight rng it g records = Some (out, g')"
    using False r(1) by (simp add: mix_weight_def out_def)
  ultimately show ?thesis by blast
qed

section \<open>The whole order\<close>

lemma same_priority_sorted: "f ` set xs \<subseteq> {c} \<Longrightarrow> sorted (map f xs)"
  by (induction xs) auto

lemma prio_loop_returns:
  assumes law: "random_law rng" and it: "set_iter_ok it"
  shows "distinct (sameprio @ rs) \<Longrightarrow> sorted (map sv_priority (sameprio @ rs)) \<Longrightarrow>
    sv_priority ` set sameprio \<subseteq> {p} \<Longrightarrow>
    \<exists>out g'. prio_loop rng it g sameprio result rs = Some (result @ out, g') \<and>
      mset out = mset (sameprio @ rs) \<and> sorted (map sv_priority out)"
proof (induction rs arbitrary: g sameprio result p)
  case Nil
  have "distinct sameprio" using Nil.prems(1) by simp
  from mix_weight_returns [OF law it this] obtain out g' where
    m: "mix_weight rng it g sameprio = Some (out, g')" "mset out = mset sameprio" by blast
  have "sorted (map sv_priority out)"
    using Nil.prems(3) mset_eq_setD [OF m(2)] by (intro same_priority_sorted [of _ _ p]) simp
  moreover obtain g'' where "prio_loop rng it g sameprio result [] = Some (result @ out, g'')"
    using m by (cases "sameprio = []") simp_all
  ultimately show ?case using m(2) by (intro exI [of _ out] exI [of _ g'']) simp
next
  case (Cons rr rs)
  show ?case
  proof (cases "sameprio = [] \<or> sv_priority (hd sameprio) = sv_priority rr")
    case True
    then have "sv_priority ` set (sameprio @ [rr]) \<subseteq> {sv_priority rr}"
      using Cons.prems(3) by (cases sameprio) auto
    moreover have "distinct ((sameprio @ [rr]) @ rs)" "sorted (map sv_priority ((sameprio @ [rr]) @ rs))"
      using Cons.prems(1,2) by simp_all
    ultimately have "\<exists>out g'. prio_loop rng it g (sameprio @ [rr]) result rs = Some (result @ out, g') \<and>
      mset out = mset ((sameprio @ [rr]) @ rs) \<and> sorted (map sv_priority out)" by (intro Cons.IH [of _ "sv_priority rr"])
    then show ?thesis using True by simp
  next
    case False
    have "distinct sameprio" using Cons.prems(1) by simp
    from mix_weight_returns [OF law it this] obtain mixed g1 where
      m: "mix_weight rng it g sameprio = Some (mixed, g1)" "mset mixed = mset sameprio" by blast
    have "distinct ([rr] @ rs)" "sorted (map sv_priority ([rr] @ rs))"
      using Cons.prems(1,2) by (simp_all add: sorted_append)
    then have "\<exists>out g'. prio_loop rng it g1 [rr] (result @ mixed) rs = Some ((result @ mixed) @ out, g') \<and>
      mset out = mset ([rr] @ rs) \<and> sorted (map sv_priority out)" by (intro Cons.IH [of _ "sv_priority rr"]) simp_all
    then obtain out g2 where
      o: "prio_loop rng it g1 [rr] (result @ mixed) rs = Some ((result @ mixed) @ out, g2)"
      "mset out = mset (rr # rs)" "sorted (map sv_priority out)" by auto
    have sets: "set mixed = set sameprio" "set out = set (rr # rs)" 
      using mset_eq_setD [OF m(2)] mset_eq_setD [OF o(2)] by simp_all
    then have "sorted (map sv_priority mixed)"
      using Cons.prems(3) by (intro same_priority_sorted [of _ _ p]) simp
    moreover have "\<forall>r\<in>set mixed. \<forall>q\<in>set out. sv_priority r \<le> sv_priority q"
      using Cons.prems(2) unfolding sets map_append sorted_append by simp
    ultimately have "sorted (map sv_priority (mixed @ out))" using o(3) by (simp add: sorted_append)
    moreover have "prio_loop rng it g sameprio result (rr # rs) = Some (result @ mixed @ out, g2)"
      using m(1) o(1) False by simp
    moreover have "mset (mixed @ out) = mset (sameprio @ rr # rs)" using m(2) o(2) by simp
    ultimately show ?thesis by blast
  qed
qed

lemma unique_records_spec:
  "distinct (map service (unique_records seen rs))"
  "service ` set (unique_records seen rs) = service ` set rs - seen"
  "set (unique_records seen rs) \<subseteq> set rs"
proof (induction rs arbitrary: seen)
  case (Cons rr rs)
  case 1
  show ?case using Cons(1) Cons(2) [of "insert (service rr) seen"] by auto
  case 2
  show ?case using Cons(2) by auto
  case 3
  show ?case using Cons(3) by auto
qed auto

lemma unique_records_notin: "r \<in> set (unique_records seen rs) \<Longrightarrow> service r \<notin> seen \<and> r \<in> set rs"
  using unique_records_spec(2,3) [of seen rs] by blast

lemma unique_records_sorted: "sorted (map f rs) \<Longrightarrow> sorted (map f (unique_records seen rs))"
proof (induction rs arbitrary: seen)
  case (Cons rr rs)
  then show ?case using unique_records_notin [of _ "insert (service rr) seen" rs] by auto
qed simp

lemma unique_records_least:
  "sorted (map f rs) \<Longrightarrow> r \<in> set (unique_records seen rs) \<Longrightarrow> q \<in> set rs \<Longrightarrow> service q = service r \<Longrightarrow> f r \<le> f q"
proof (induction rs arbitrary: seen)
  case (Cons rr rs)
  show ?case
  proof (cases "service rr \<notin> seen \<and> r = rr")
    case True
    then show ?thesis using Cons.prems(1,3) by auto
  next
    case False
    then obtain seen' where s: "service rr \<in> seen'" "r \<in> set (unique_records seen' rs)"
      using Cons.prems(2) by (cases "service rr \<in> seen") auto
    then have "q \<in> set rs" using unique_records_notin [OF s(2)] Cons.prems(3,4) by auto
    then show ?thesis using Cons.IH [OF _ s(2)] Cons.prems(1,4) by simp
  qed
qed simp

text \<open>C13: Sorting service records always ends, and the result has every service (target and
  port) of the answer exactly once, with the lowest priority it has in the answer, ordered by
  priority.\<close>

theorem sort_prio_weight_returns:
  assumes law: "random_law rng" and it: "set_iter_ok it"
  shows "\<exists>out g'. sort_prio_weight rng it g records = Some (out, g') \<and>
    sorted (map sv_priority out) \<and> distinct (map service out) \<and>
    set out \<subseteq> set records \<and> service ` set out = service ` set records \<and>
    (\<forall>r\<in>set out. \<forall>q\<in>set records. service q = service r \<longrightarrow> sv_priority r \<le> sv_priority q)"
proof -
  let ?rs = "sort_key sv_priority records"
  let ?us = "unique_records {} ?rs"
  have s: "sorted (map sv_priority ?rs)" by simp
  note u = unique_records_spec [of "{}" ?rs] unique_records_sorted [OF s, of "{}"] unique_records_least [OF s, of _ "{}"]
  have "distinct ?us" using u(1) by (simp add: distinct_map)
  then obtain out g' where o: "prio_loop rng it g [] [] ?us = Some (out, g')"
    "mset out = mset ?us" "sorted (map sv_priority out)"
    using prio_loop_returns [OF law it, of "[]" ?us 0 g "[]"] u(4) by auto
  have set: "set out = set ?us" using mset_eq_setD [OF o(2)] .
  have "distinct (map service out)" 
    using u(1) mset_eq_imp_distinct_iff [of "map service out" "map service ?us"] o(2) by simp
  then show ?thesis using o u set by (auto simp: sort_prio_weight_def)
qed

text \<open>A generator and an order of iteration.\<close>

definition srv_key :: "nat srv \<Rightarrow> nat \<times> nat \<times> nat \<times> nat" where
  "srv_key rr = (sv_priority rr, sv_weight rr, sv_target rr, case_option 0 Suc (sv_port rr))"

definition key_srv :: "nat \<times> nat \<times> nat \<times> nat \<Rightarrow> nat srv" where
  "key_srv = (\<lambda>(p, w, t, q).
     \<lparr>sv_priority = p, sv_weight = w, sv_target = t, sv_port = (if q = 0 then None else Some (q - 1))\<rparr>)"

definition srv_iter :: "nat srv set \<Rightarrow> nat srv list" where
  "srv_iter S = map key_srv (sorted_list_of_set (srv_key ` S))"

definition counting :: "(nat, nat srv) random_gen" where
  "counting = \<lparr>rg_uniform = (\<lambda>g n. (int g mod (n + 1), g + 1)), rg_shuffle = (\<lambda>g xs. (rev xs, g + 1))\<rparr>"

lemma key_srv_key [simp]: "key_srv (srv_key rr) = rr"
  by (simp add: key_srv_def srv_key_def split: option.split)

interpretation srvs: py_set_iteration srv_iter
proof
  have "inj_on key_srv (srv_key ` S)" for S by (rule inj_on_inverseI [of _ srv_key]) auto
  then show "set_iter_ok srv_iter"
    by (simp add: set_iter_ok_def srv_iter_def distinct_map image_image)
qed

lemma counting_law: "random_law counting"
proof -
  have "0 \<le> n \<Longrightarrow> 0 \<le> int g mod (n + 1) \<and> int g mod (n + 1) \<le> n" for g and n :: int
    using pos_mod_bound [of "n + 1" "int g"] by simp
  then show ?thesis by (simp add: random_law_def counting_def)
qed

definition sample_srvs :: "nat srv list" where
  "sample_srvs =
     [\<lparr>sv_priority = 20, sv_weight = 0, sv_target = 1, sv_port = Some 88\<rparr>,
      \<lparr>sv_priority = 10, sv_weight = 5, sv_target = 2, sv_port = Some 88\<rparr>,
      \<lparr>sv_priority = 10, sv_weight = 0, sv_target = 1, sv_port = Some 88\<rparr>]"

theorem sort_prio_weight_returns_witness:
  "\<exists>out g'. sort_prio_weight counting srv_iter 7 sample_srvs = Some (out, g') \<and>
    sorted (map sv_priority out) \<and> distinct (map service out) \<and> service ` set out = {(1, Some 88), (2, Some 88)}"
proof -
  have "service ` set sample_srvs = {(1, Some 88), (2, Some 88)}" by (auto simp: sample_srvs_def service_def)
  then show ?thesis
    using sort_prio_weight_returns [OF counting_law srvs.it_ok, of 7 sample_srvs] by (elim exE conjE) (intro exI conjI; simp)
qed

end
