(* ===== verification/DNS_Resolver.thy ===== *)
theory DNS_Resolver
  imports Param_Values Py_State
begin

text \<open>
  The stub resolver, automatic empty zones and zone checks of \<^verbatim>\<open>src/ipapython/dnsutil.py\<close>. What
  dnspython provides is a parameter: parsing and comparison of names (record \<open>dns_lib\<close>), queries,
  the search for the zone of a name, and the methods of its resolver class that are overridden.
\<close>

section \<open>Resolver settings\<close>

type_synonym ports = "(string \<times> int) list"

record resolver =
  rs_nameservers :: "string list option"
  rs_ports :: "ports option"
  rs_timeout :: int
  rs_lifetime :: int
  rs_use_search :: bool

text \<open>\<open>str.split()\<close> on white space.\<close>

fun split_space :: "string \<Rightarrow> string \<Rightarrow> string list" where
  "split_space cur [] = (if cur = [] then [] else [rev cur])"
| "split_space cur (c # s) =
     (if is_space c then (if cur = [] then split_space [] s else rev cur # split_space [] s)
      else split_space (c # cur) s)"

definition port_number :: "string \<Rightarrow> int res" where
  "port_number s =
     (case int_of_text 10 s of
        Inl _ \<Rightarrow> Inl (ValueError ''invalid nameserver: %s is not a valid port'')
      | Inr port \<Rightarrow>
          if port < 0 \<or> port > 65535 then Inl (ValueError ''invalid nameserver: %s is not a valid port'')
          else Inr port)"

definition port_spec :: "string \<Rightarrow> (string \<times> string) option" where
  "port_spec nameserver =
     (case split_space [] nameserver of
        [ip, kw, port] \<Rightarrow> if kw = ''port'' then Some (ip, port) else None
      | _ \<Rightarrow> None)"

fun split_ports :: "string list \<Rightarrow> ports \<Rightarrow> string list res \<times> ports" where
  "split_ports [] nameserver_ports = (Inr [], nameserver_ports)"
| "split_ports (nameserver # nameservers) nameserver_ports =
     (case port_spec nameserver of
        None \<Rightarrow> apfst (\<lambda>r. rbind r (\<lambda>ns. Inr (nameserver # ns))) (split_ports nameservers nameserver_ports)
      | Some (ip, s) \<Rightarrow>
          (case port_number s of
             Inl x \<Rightarrow> (Inl x, nameserver_ports)
           | Inr port \<Rightarrow>
               apfst (\<lambda>r. rbind r (\<lambda>ns. Inr (ip # ns))) (split_ports nameservers (AList.update ip port nameserver_ports))))"

text \<open>
  The setter of \<open>nameservers\<close> for a list. The dictionary of ports of the object, when there is
  one, is changed in place while the list is read. \<open>check\<close> is the setter of dnspython.
\<close>

definition nameservers_set :: "(string list \<Rightarrow> unit res) \<Rightarrow> string list \<Rightarrow> (resolver, unit) act" where
  "nameservers_set check nameservers = (\<lambda>rs.
     let (r, ps) = split_ports nameservers (case rs_ports rs of None \<Rightarrow> [] | Some ps \<Rightarrow> ps);
         rs1 = (if rs_ports rs = None then rs else rs\<lparr>rs_ports := Some ps\<rparr>)
     in case rbind r (\<lambda>ns. rbind (check ns) (\<lambda>_. Inr ns)) of
          Inl x \<Rightarrow> (Inl x, rs1)
        | Inr ns \<Rightarrow> (Inr (), rs1\<lparr>rs_nameservers := Some ns, rs_ports := Some ps\<rparr>))"

definition reset_ipa_defaults :: "(resolver, unit) act" where
  "reset_ipa_defaults = (\<lambda>rs.
     let rs1 = rs\<lparr>rs_timeout := 10 + 2\<rparr>
     in case rs_nameservers rs of
          None \<Rightarrow> (Inl (TypeError ''object of type NoneType has no len()''), rs1)
        | Some ns \<Rightarrow>
            (Inr (), rs1\<lparr>rs_lifetime := min (rs_timeout rs1 * int (length ns) * 2) 45, rs_use_search := True\<rparr>))"

definition DNSResolver_init :: "(resolver, unit) act \<Rightarrow> (resolver, unit) act" where
  "DNSResolver_init super_init =
     act_seq [(\<lambda>rs. (Inr (), rs\<lparr>rs_nameservers := None\<rparr>)), super_init, reset_ipa_defaults]"

definition resolver_reset :: "(resolver, unit) act \<Rightarrow> (resolver, unit) act" where
  "resolver_reset super_reset = act_seq [super_reset, reset_ipa_defaults]"

text \<open>\<open>list(dict.fromkeys(xs))\<close>: the first occurrences.\<close>

definition fromkeys :: "'a list \<Rightarrow> 'a list" where
  "fromkeys xs = rev (remdups (rev xs))"

definition drop_loopback :: "string list \<Rightarrow> string list" where
  "drop_loopback nameservers =
     (if ''::1'' \<in> set nameservers \<and> ''127.0.0.1'' \<in> set nameservers then remove1 ''127.0.0.1'' nameservers
      else nameservers)"

definition read_resolv_conf :: "(string list \<Rightarrow> unit res) \<Rightarrow> (resolver, unit) act \<Rightarrow> (resolver, unit) act" where
  "read_resolv_conf check super_read =
     act_bind super_read (\<lambda>_.
     act_bind (act_read (\<lambda>rs. case rs_nameservers rs of
         None \<Rightarrow> Inl (TypeError ''NoneType object is not iterable'')
       | Some ns \<Rightarrow> Inr (drop_loopback (fromkeys ns)))) (\<lambda>ns.
     nameservers_set check ns))"

section \<open>Names and automatic empty zones\<close>

datatype namereln =
  NAMERELN_NONE | NAMERELN_SUPERDOMAIN | NAMERELN_SUBDOMAIN | NAMERELN_EQUAL | NAMERELN_COMMONANCESTOR

record 'n dns_lib =
  dl_from_text :: "string \<Rightarrow> 'n res"
  dl_make_absolute :: "'n \<Rightarrow> 'n"
  dl_is_absolute :: "'n \<Rightarrow> bool"
  dl_is_subdomain :: "'n \<Rightarrow> 'n \<Rightarrow> bool"
  dl_relation :: "'n \<Rightarrow> 'n \<Rightarrow> namereln"

definition EMPTY_ZONE_NAMES :: "string list" where
  "EMPTY_ZONE_NAMES = [
    ''10.IN-ADDR.ARPA'', ''16.172.IN-ADDR.ARPA'', ''17.172.IN-ADDR.ARPA'', ''18.172.IN-ADDR.ARPA'',
    ''19.172.IN-ADDR.ARPA'', ''20.172.IN-ADDR.ARPA'', ''21.172.IN-ADDR.ARPA'',
    ''22.172.IN-ADDR.ARPA'', ''23.172.IN-ADDR.ARPA'', ''24.172.IN-ADDR.ARPA'',
    ''25.172.IN-ADDR.ARPA'', ''26.172.IN-ADDR.ARPA'', ''27.172.IN-ADDR.ARPA'',
    ''28.172.IN-ADDR.ARPA'', ''29.172.IN-ADDR.ARPA'', ''30.172.IN-ADDR.ARPA'',
    ''31.172.IN-ADDR.ARPA'', ''168.192.IN-ADDR.ARPA'', ''64.100.IN-ADDR.ARPA'',
    ''65.100.IN-ADDR.ARPA'', ''66.100.IN-ADDR.ARPA'', ''67.100.IN-ADDR.ARPA'',
    ''68.100.IN-ADDR.ARPA'', ''69.100.IN-ADDR.ARPA'', ''70.100.IN-ADDR.ARPA'',
    ''71.100.IN-ADDR.ARPA'', ''72.100.IN-ADDR.ARPA'', ''73.100.IN-ADDR.ARPA'',
    ''74.100.IN-ADDR.ARPA'', ''75.100.IN-ADDR.ARPA'', ''76.100.IN-ADDR.ARPA'',
    ''77.100.IN-ADDR.ARPA'', ''78.100.IN-ADDR.ARPA'', ''79.100.IN-ADDR.ARPA'',
    ''80.100.IN-ADDR.ARPA'', ''81.100.IN-ADDR.ARPA'', ''82.100.IN-ADDR.ARPA'',
    ''83.100.IN-ADDR.ARPA'', ''84.100.IN-ADDR.ARPA'', ''85.100.IN-ADDR.ARPA'',
    ''86.100.IN-ADDR.ARPA'', ''87.100.IN-ADDR.ARPA'', ''88.100.IN-ADDR.ARPA'',
    ''89.100.IN-ADDR.ARPA'', ''90.100.IN-ADDR.ARPA'', ''91.100.IN-ADDR.ARPA'',
    ''92.100.IN-ADDR.ARPA'', ''93.100.IN-ADDR.ARPA'', ''94.100.IN-ADDR.ARPA'',
    ''95.100.IN-ADDR.ARPA'', ''96.100.IN-ADDR.ARPA'', ''97.100.IN-ADDR.ARPA'',
    ''98.100.IN-ADDR.ARPA'', ''99.100.IN-ADDR.ARPA'', ''100.100.IN-ADDR.ARPA'',
    ''101.100.IN-ADDR.ARPA'', ''102.100.IN-ADDR.ARPA'', ''103.100.IN-ADDR.ARPA'',
    ''104.100.IN-ADDR.ARPA'', ''105.100.IN-ADDR.ARPA'', ''106.100.IN-ADDR.ARPA'',
    ''107.100.IN-ADDR.ARPA'', ''108.100.IN-ADDR.ARPA'', ''109.100.IN-ADDR.ARPA'',
    ''110.100.IN-ADDR.ARPA'', ''111.100.IN-ADDR.ARPA'', ''112.100.IN-ADDR.ARPA'',
    ''113.100.IN-ADDR.ARPA'', ''114.100.IN-ADDR.ARPA'', ''115.100.IN-ADDR.ARPA'',
    ''116.100.IN-ADDR.ARPA'', ''117.100.IN-ADDR.ARPA'', ''118.100.IN-ADDR.ARPA'',
    ''119.100.IN-ADDR.ARPA'', ''120.100.IN-ADDR.ARPA'', ''121.100.IN-ADDR.ARPA'',
    ''122.100.IN-ADDR.ARPA'', ''123.100.IN-ADDR.ARPA'', ''124.100.IN-ADDR.ARPA'',
    ''125.100.IN-ADDR.ARPA'', ''126.100.IN-ADDR.ARPA'', ''127.100.IN-ADDR.ARPA'',
    ''0.IN-ADDR.ARPA'', ''127.IN-ADDR.ARPA'', ''254.169.IN-ADDR.ARPA'', ''2.0.192.IN-ADDR.ARPA'',
    ''100.51.198.IN-ADDR.ARPA'', ''113.0.203.IN-ADDR.ARPA'', ''255.255.255.255.IN-ADDR.ARPA'',
    ''0.0.0.0.0.0.0.0.0.0.0.0.0.0.0.0.0.0.0.0.0.0.0.0.0.0.0.0.0.0.0.0.IP6.ARPA'',
    ''1.0.0.0.0.0.0.0.0.0.0.0.0.0.0.0.0.0.0.0.0.0.0.0.0.0.0.0.0.0.0.0.IP6.ARPA'', ''D.F.IP6.ARPA'',
    ''8.E.F.IP6.ARPA'', ''9.E.F.IP6.ARPA'', ''A.E.F.IP6.ARPA'', ''B.E.F.IP6.ARPA'',
    ''8.B.D.0.1.0.0.2.IP6.ARPA'', ''EMPTY.AS112.ARPA'']"

definition EMPTY_ZONES :: "'n dns_lib \<Rightarrow> 'n list res" where
  "EMPTY_ZONES lib =
     rmap (\<lambda>aez. rbind (dl_from_text lib aez) (\<lambda>n. Inr (dl_make_absolute lib n))) EMPTY_ZONE_NAMES"

datatype 'n name_arg = DNSName 'n | NotDNSName

definition assert_absolute_dnsname :: "'n dns_lib \<Rightarrow> 'n name_arg \<Rightarrow> 'n res" where
  "assert_absolute_dnsname lib a =
     (case a of
        NotDNSName \<Rightarrow> Inl (AssertionError ''name must be DNSName instance'')
      | DNSName n \<Rightarrow> if dl_is_absolute lib n then Inr n else Inl (AssertionError ''name must be absolute''))"

definition is_auto_empty_zone :: "'n dns_lib \<Rightarrow> 'n list \<Rightarrow> 'n name_arg \<Rightarrow> bool res" where
  "is_auto_empty_zone lib zones zone =
     rbind (assert_absolute_dnsname lib zone) (\<lambda>n. Inr (n \<in> set zones))"

definition inside_auto_empty_zone :: "'n dns_lib \<Rightarrow> 'n list \<Rightarrow> 'n name_arg \<Rightarrow> bool res" where
  "inside_auto_empty_zone lib zones a =
     rbind (assert_absolute_dnsname lib a) (\<lambda>n. Inr (list_ex (\<lambda>aez. dl_is_subdomain lib n aez) zones))"

definition related_to_auto_empty_zone :: "'n dns_lib \<Rightarrow> 'n list \<Rightarrow> 'n name_arg \<Rightarrow> bool res" where
  "related_to_auto_empty_zone lib zones a =
     rbind (assert_absolute_dnsname lib a) (\<lambda>n.
       Inr (list_ex (\<lambda>aez. dl_relation lib n aez \<in> {NAMERELN_SUBDOMAIN, NAMERELN_EQUAL, NAMERELN_SUPERDOMAIN}) zones))"

section \<open>Queries\<close>

datatype 'n dns_error =
    NXDOMAIN
  | NoAnswer
  | NoNameservers
  | DNSException string
  | DNSZoneAlreadyExists 'n "string list"
  | PyError pyexc

fun rrsets_loop :: "('n \<Rightarrow> string \<Rightarrow> 'n dns_error + 'r) \<Rightarrow> 'n \<Rightarrow> string list \<Rightarrow> 'n dns_error + 'r list" where
  "rrsets_loop resolve_f fqdn [] = Inr []"
| "rrsets_loop resolve_f fqdn (rdtype # rdtypes) =
     (case resolve_f fqdn rdtype of
        Inr rrset \<Rightarrow> rbind (rrsets_loop resolve_f fqdn rdtypes) (\<lambda>rs. Inr (rrset # rs))
      | Inl NXDOMAIN \<Rightarrow> Inr []
      | Inl NoAnswer \<Rightarrow> rrsets_loop resolve_f fqdn rdtypes
      | Inl e \<Rightarrow> Inl e)"

definition resolve_rrsets ::
    "'n dns_lib \<Rightarrow> ('n \<Rightarrow> string \<Rightarrow> 'n dns_error + 'r) \<Rightarrow> string + 'n \<Rightarrow> string list \<Rightarrow> 'n dns_error + 'r list" where
  "resolve_rrsets lib resolve_f fqdn rdtypes =
     (if rdtypes = [] then Inl (PyError (AssertionError ''rdtypes must not be empty''))
      else
        rbind (case fqdn of
                 Inl s \<Rightarrow> (case dl_from_text lib s of Inl x \<Rightarrow> Inl (PyError x) | Inr n \<Rightarrow> Inr n)
               | Inr n \<Rightarrow> Inr n)
          (\<lambda>n. rrsets_loop resolve_f (dl_make_absolute lib n) rdtypes))"

definition resolve_ip_addresses ::
    "'n dns_lib \<Rightarrow> ('n \<Rightarrow> string \<Rightarrow> 'n dns_error + 'ip list) \<Rightarrow> string + 'n \<Rightarrow> 'n dns_error + 'ip set" where
  "resolve_ip_addresses lib resolve_f fqdn =
     rbind (resolve_rrsets lib resolve_f fqdn [''A'', ''AAAA'']) (\<lambda>rrsets. Inr (\<Union>rrset\<in>set rrsets. set rrset))"

definition check_zone_overlap ::
    "'n dns_lib \<Rightarrow> 'n list \<Rightarrow> ('n \<Rightarrow> 'n dns_error + 'n) \<Rightarrow> ('n \<Rightarrow> string \<Rightarrow> 'n dns_error + string list) \<Rightarrow>
      string + 'n \<Rightarrow> bool \<Rightarrow> 'n dns_error + unit" where
  "check_zone_overlap lib zones zone_for_name resolve_f zone raise_on_error =
     rbind (case zone of
              Inl s \<Rightarrow>
                (case dl_from_text lib s of Inl x \<Rightarrow> Inl (PyError x) | Inr n \<Rightarrow> Inr (dl_make_absolute lib n))
            | Inr n \<Rightarrow> Inr n)
       (\<lambda>n. case is_auto_empty_zone lib zones (DNSName n) of
              Inl x \<Rightarrow> Inl (PyError x)
            | Inr True \<Rightarrow> Inr ()
            | Inr False \<Rightarrow>
                (case zone_for_name n of
                   Inl (PyError x) \<Rightarrow> Inl (PyError x)
                 | Inl e \<Rightarrow>
                     if raise_on_error \<and> e \<noteq> NoNameservers
                     then Inl (PyError (ValueError ''DNS check for domain %s failed: %s.''))
                     else Inr ()
                 | Inr containing_zone \<Rightarrow>
                     if containing_zone = n then
                       (case resolve_f n ''NS'' of
                          Inr ns \<Rightarrow> Inl (DNSZoneAlreadyExists n ns)
                        | Inl (PyError x) \<Rightarrow> Inl (PyError x)
                        | Inl _ \<Rightarrow> Inl (DNSZoneAlreadyExists n []))
                     else Inr ()))"

section \<open>Lemmas\<close>

lemma fromkeys_spec: "distinct (fromkeys xs)" "set (fromkeys xs) = set xs"
  by (simp_all add: fromkeys_def)

lemma fromkeys_snoc: "fromkeys (xs @ [x]) = (if x \<in> set xs then fromkeys xs else fromkeys xs @ [x])"
  by (simp add: fromkeys_def)

lemma drop_loopback_spec:
  assumes "distinct ns"
  shows "distinct (drop_loopback ns)" "\<not> {''::1'', ''127.0.0.1''} \<subseteq> set (drop_loopback ns)"
    "set (drop_loopback ns) = (if ''::1'' \<in> set ns then set ns - {''127.0.0.1''} else set ns)"
  using assms by (auto simp: drop_loopback_def distinct_remove1)

lemma split_ports_plain: "list_all (\<lambda>n. port_spec n = None) ns \<Longrightarrow> split_ports ns ps = (Inr ns, ps)"
  by (induction ns) simp_all

lemma read_resolv_conf_nameservers:
  assumes super: "super_read rs = (Inr (), rs1)" "rs_nameservers rs1 = Some ns"
    and plain: "list_all (\<lambda>n. port_spec n = None) ns" and check: "\<And>l. check l = Inr ()"
  shows "\<exists>rs2 out. read_resolv_conf check super_read rs = (Inr (), rs2) \<and> rs_nameservers rs2 = Some out \<and>
    distinct out \<and> set out = (if ''::1'' \<in> set ns then set ns - {''127.0.0.1''} else set ns)"
proof -
  define out where "out = drop_loopback (fromkeys ns)"
  have out: "distinct out" "set out = (if ''::1'' \<in> set ns then set ns - {''127.0.0.1''} else set ns)"
    using drop_loopback_spec [OF fromkeys_spec(1) [of ns]] fromkeys_spec(2) [of ns] by (simp_all add: out_def)
  then have "list_all (\<lambda>n. port_spec n = None) out" using plain by (auto simp: list_all_iff split: if_splits)
  from split_ports_plain [OF this] have s: "split_ports out ps = (Inr out, ps)" for ps .
  have "\<exists>rs2. read_resolv_conf check super_read rs = (Inr (), rs2) \<and> rs_nameservers rs2 = Some out"
    using super check s
    by (simp add: read_resolv_conf_def act_bind_def act_read_def nameservers_set_def flip: out_def)
  with out show ?thesis by blast
qed

text \<open>Ports stay in their range, also when the setter fails.\<close>

definition ports_ok :: "ports \<Rightarrow> bool" where
  "ports_ok ps \<longleftrightarrow> (\<forall>p\<in>snd ` set ps. 0 \<le> p \<and> p \<le> 65535)"

lemma ports_ok_update: "ports_ok ps \<Longrightarrow> 0 \<le> p \<Longrightarrow> p \<le> 65535 \<Longrightarrow> ports_ok (AList.update k p ps)"
  using set_AList_update [of k p ps] unfolding ports_ok_def by fastforce

lemma split_ports_ok: "ports_ok ps \<Longrightarrow> ports_ok (snd (split_ports ns ps))"
proof (induction ns arbitrary: ps)
  case (Cons n ns)
  have "0 \<le> port \<and> port \<le> 65535" if "port_number s = Inr port" for s port
    using that by (auto simp: port_number_def split: sum.splits if_splits)
  then show ?case using Cons ports_ok_update [OF Cons.prems] by (simp split: option.split sum.split)
qed simp

lemma split_ports_names:
  "fst (split_ports ns ps) = Inr out \<Longrightarrow>
   list_all2 (\<lambda>n ip. port_spec n = None \<and> ip = n \<or> (\<exists>s. port_spec n = Some (ip, s))) ns out"
proof (induction ns arbitrary: ps out)
  case (Cons n ns)
  then show ?case by (auto split: option.splits sum.splits prod.splits)
qed simp

text \<open>Whether the setter of the name servers succeeds or fails, every recorded port is a
  port number; when it fails the name servers stay as they were, and when it succeeds they are
  the given ones, without the ports of those that name one.\<close>

theorem nameservers_set_ports:
  assumes "ports_ok (case_option [] id (rs_ports rs))" "nameservers_set check ns rs = (r, rs')"
  shows "ports_ok (case_option [] id (rs_ports rs')) \<and>
    (case r of
       Inl _ \<Rightarrow> rs_nameservers rs' = rs_nameservers rs
     | Inr _ \<Rightarrow> \<exists>out. rs_nameservers rs' = Some out \<and> check out = Inr () \<and>
         list_all2 (\<lambda>n ip. port_spec n = None \<and> ip = n \<or> (\<exists>s. port_spec n = Some (ip, s))) ns out)"
proof -
  define ps0 where "ps0 = (case rs_ports rs of None \<Rightarrow> [] | Some ps \<Rightarrow> ps)"
  obtain q ps where s: "split_ports ns ps0 = (q, ps)" by force
  have ok: "ports_ok ps" "ports_ok ps0"
    using split_ports_ok [of ps0 ns] s assms(1) by (auto simp: ps0_def split: option.splits)
  have set: "nameservers_set check ns rs =
      (let rs1 = (if rs_ports rs = None then rs else rs\<lparr>rs_ports := Some ps\<rparr>)
       in case rbind q (\<lambda>l. rbind (check l) (\<lambda>_. Inr l)) of
            Inl x \<Rightarrow> (Inl x, rs1)
          | Inr l \<Rightarrow> (Inr (), rs1\<lparr>rs_nameservers := Some l, rs_ports := Some ps\<rparr>))"
    using s by (simp add: nameservers_set_def Let_def flip: ps0_def)
  show ?thesis
  proof (cases "rbind q (\<lambda>l. rbind (check l) (\<lambda>_. Inr l))")
    case (Inl x)
    then show ?thesis using set ok assms by (cases "rs_ports rs") (auto simp: Let_def)
  next
    case (Inr l)
    then have "q = Inr l" "check l = Inr ()" by (auto simp: rbind_eq_Inr)
    then show ?thesis using set ok Inr split_ports_names [of ns ps0 l] s assms(2) by (auto simp: Let_def)
  qed
qed

definition sample_resolver :: resolver where
  "sample_resolver =
     \<lparr>rs_nameservers = Some [''10.0.0.9''], rs_ports = Some [], rs_timeout = 12, rs_lifetime = 24, rs_use_search = True\<rparr>"

theorem nameservers_set_ports_witness:
  "\<exists>rs. nameservers_set (\<lambda>_. Inr ()) [''10.0.0.1 port 53'', ''10.0.0.2''] sample_resolver = (Inr (), rs) \<and>
    rs_nameservers rs = Some [''10.0.0.1'', ''10.0.0.2''] \<and> rs_ports rs = Some [(''10.0.0.1'', 53)] \<and>
    ports_ok [(''10.0.0.1'', 53)]"
proof -
  have ok: "ports_ok (case_option [] id (rs_ports sample_resolver))" by (simp add: ports_ok_def sample_resolver_def)
  have "nameservers_set (\<lambda>_. Inr ()) [''10.0.0.1 port 53'', ''10.0.0.2''] sample_resolver =
      (Inr (), sample_resolver\<lparr>rs_nameservers := Some [''10.0.0.1'', ''10.0.0.2''], rs_ports := Some [(''10.0.0.1'', 53)]\<rparr>)"
    (is "?l = (_, ?rs)") by code_simp
  with nameservers_set_ports [OF ok this] show ?thesis by simp
qed

text \<open>A setter that fails has changed the ports all the same.\<close>

lemma failed_setter_changes_ports:
  "nameservers_set (\<lambda>_. Inr ()) [''10.0.0.1 port 53'', ''10.0.0.2 port x''] sample_resolver =
     (Inl (ValueError ''invalid nameserver: %s is not a valid port''), sample_resolver\<lparr>rs_ports := Some [(''10.0.0.1'', 53)]\<rparr>)"
  by code_simp

text \<open>
  What dnspython documents of the relation of names; then an automatic empty zone is inside one,
  and what is inside one is related to one.
\<close>

definition dns_lib_law :: "'n dns_lib \<Rightarrow> bool" where
  "dns_lib_law lib \<longleftrightarrow>
     (\<forall>n z. dl_is_subdomain lib n z \<longleftrightarrow> dl_relation lib n z \<in> {NAMERELN_SUBDOMAIN, NAMERELN_EQUAL}) \<and>
     (\<forall>n. dl_relation lib n n = NAMERELN_EQUAL)"

lemma empty_zone_relations:
  assumes "dns_lib_law lib"
  shows "is_auto_empty_zone lib zones a = Inr True \<Longrightarrow> inside_auto_empty_zone lib zones a = Inr True"
    "inside_auto_empty_zone lib zones a = Inr True \<Longrightarrow> related_to_auto_empty_zone lib zones a = Inr True"
  using assms unfolding dns_lib_law_def is_auto_empty_zone_def inside_auto_empty_zone_def related_to_auto_empty_zone_def
  by (auto simp: list_ex_iff) metis

text \<open>Which record sets are found: those of the types before the first answer that denies the name.\<close>

lemma rrsets_loop_found:
  "rrsets_loop resolve_f n rdtypes = Inr rs \<Longrightarrow> r \<in> set rs \<Longrightarrow> \<exists>t\<in>set rdtypes. resolve_f n t = Inr r"
  by (induction rdtypes arbitrary: rs) (auto split: sum.splits dns_error.splits)

lemma check_zone_overlap_refuses:
  assumes "dl_is_absolute lib n" "check_zone_overlap lib zones zone_for_name resolve_f (Inr n) e = Inl (DNSZoneAlreadyExists z ns)"
  shows "z = n \<and> n \<notin> set zones \<and> zone_for_name n = Inr n"
  using assms
  by (auto simp: check_zone_overlap_def is_auto_empty_zone_def assert_absolute_dnsname_def
      split: sum.splits dns_error.splits if_splits bool.splits)

end
