(* ===== verification/Passwords.thy ===== *)
theory Passwords
  imports Py_Prelude Complex_Main
begin

text \<open>
  Generation of passwords, \<open>ipa_generate_password\<close> of \<^verbatim>\<open>src/ipapython/ipautil.py\<close>. Parameters are
  \<open>math.log(n, 2)\<close>, as a rational number, and \<open>SystemRandom.choice\<close> with the state of its source.
  Entropies are added exactly.
\<close>

section \<open>Definitions\<close>

datatype charclass = Uppercase | Lowercase | Digits | Special

definition class_chars :: "charclass \<Rightarrow> string" where
  "class_chars c =
     (case c of
        Uppercase \<Rightarrow> ''ABCDEFGHIJKLMNOPQRSTUVWXYZ''
      | Lowercase \<Rightarrow> ''abcdefghijklmnopqrstuvwxyz''
      | Digits \<Rightarrow> ''0123456789''
      | Special \<Rightarrow> ''!$%&()*+,-./:;<>?@[]^_{|}~'')"

record req_classes =
  rq_uppercase :: "int option"
  rq_lowercase :: "int option"
  rq_digits :: "int option"
  rq_special :: "int option"

definition required :: "req_classes \<Rightarrow> charclass \<Rightarrow> int option" where
  "required rq c =
     (case c of
        Uppercase \<Rightarrow> rq_uppercase rq
      | Lowercase \<Rightarrow> rq_lowercase rq
      | Digits \<Rightarrow> rq_digits rq
      | Special \<Rightarrow> rq_special rq)"

definition all_chars :: "req_classes \<Rightarrow> string" where
  "all_chars rq =
     concat (map class_chars (filter (\<lambda>c. required rq c \<noteq> None) [Uppercase, Lowercase, Digits, Special]))"

definition math_log2 :: "(nat \<Rightarrow> rat) \<Rightarrow> nat \<Rightarrow> rat res" where
  "math_log2 lg n = (if n = 0 then Inl (ValueError ''math domain error'') else Inr (lg n))"

text \<open>The password so far, the entropy that is missing and the random source.\<close>

type_synonym 'g pwd_state = "string \<times> rat \<times> 'g"

definition add_char :: "('g \<Rightarrow> string \<Rightarrow> char \<times> 'g) \<Rightarrow> string \<Rightarrow> rat \<Rightarrow> 'g pwd_state \<Rightarrow> 'g pwd_state" where
  "add_char choice chars entropy = (\<lambda>(password, todo_entropy, g).
     let (c, g') = choice g chars in (password @ [c], todo_entropy - entropy, g'))"

fun add_chars :: "('g \<Rightarrow> string \<Rightarrow> char \<times> 'g) \<Rightarrow> string \<Rightarrow> rat \<Rightarrow> nat \<Rightarrow> 'g pwd_state \<Rightarrow> 'g pwd_state" where
  "add_chars choice chars entropy 0 st = st"
| "add_chars choice chars entropy (Suc n) st = add_chars choice chars entropy n (add_char choice chars entropy st)"

definition add_class ::
    "('g \<Rightarrow> string \<Rightarrow> char \<times> 'g) \<Rightarrow> (nat \<Rightarrow> rat) \<Rightarrow> req_classes \<Rightarrow> charclass \<Rightarrow> 'g pwd_state \<Rightarrow> 'g pwd_state" where
  "add_class choice lg rq c st =
     (case required rq c of
        None \<Rightarrow> st
      | Some todo_characters \<Rightarrow>
          add_chars choice (class_chars c) (lg (length (class_chars c))) (nat todo_characters) st)"

partial_function (option) fill_loop ::
    "('g \<Rightarrow> string \<Rightarrow> char \<times> 'g) \<Rightarrow> string \<Rightarrow> rat \<Rightarrow> int \<Rightarrow> 'g pwd_state \<Rightarrow> 'g pwd_state option" where
  "fill_loop choice chars entropy min_len st =
     (if fst (snd st) > 0 \<or> int (length (fst st)) < min_len
      then fill_loop choice chars entropy min_len (add_char choice chars entropy st)
      else Some st)"

definition ipa_generate_password ::
    "('g \<Rightarrow> string \<Rightarrow> char \<times> 'g) \<Rightarrow> (nat \<Rightarrow> rat) \<Rightarrow> int \<Rightarrow> req_classes \<Rightarrow> int \<Rightarrow> 'g \<Rightarrow>
      (string \<times> 'g) res option" where
  "ipa_generate_password choice lg entropy_bits rq min_len g =
     (case math_log2 lg (length (all_chars rq)) of
        Inl x \<Rightarrow> Some (Inl x)
      | Inr entropy \<Rightarrow>
          let st = fold (add_class choice lg rq) [Digits, Uppercase, Lowercase, Special] ([], of_int entropy_bits, g)
          in map_option (\<lambda>(password, _, g'). Inr (password, g'))
               (fill_loop choice (all_chars rq) entropy min_len st))"

section \<open>What is added\<close>

definition choice_law :: "('g \<Rightarrow> string \<Rightarrow> char \<times> 'g) \<Rightarrow> bool" where
  "choice_law choice \<longleftrightarrow> (\<forall>g chars. chars \<noteq> [] \<longrightarrow> fst (choice g chars) \<in> set chars)"

definition log_law :: "(nat \<Rightarrow> rat) \<Rightarrow> bool" where
  "log_law lg \<longleftrightarrow> (\<forall>n. 1 < n \<longrightarrow> 0 < lg n)"

definition need :: "req_classes \<Rightarrow> charclass \<Rightarrow> nat" where
  "need rq c = (case required rq c of None \<Rightarrow> 0 | Some n \<Rightarrow> nat n)"

definition class_entropy :: "(nat \<Rightarrow> rat) \<Rightarrow> charclass \<Rightarrow> rat" where
  "class_entropy lg c = lg (length (class_chars c))"

lemma class_chars_length: "1 < length (class_chars c)"
  by (cases c) (simp_all add: class_chars_def)

lemma add_chars_spec:
  assumes law: "choice_law choice" and chars: "chars \<noteq> []"
  shows "\<exists>s g'. add_chars choice chars e n (pw, todo, g) = (pw @ s, todo - of_nat n * e, g') \<and>
    length s = n \<and> set s \<subseteq> set chars"
proof (induction n arbitrary: pw todo g)
  case (Suc n)
  obtain c g1 where c: "choice g chars = (c, g1)" by force
  then have "c \<in> set chars" using law chars unfolding choice_law_def by (metis fst_conv)
  moreover from Suc [of "pw @ [c]" "todo - e" g1] obtain s g' where
    "add_chars choice chars e n (pw @ [c], todo - e, g1) = ((pw @ [c]) @ s, todo - e - of_nat n * e, g')"
    "length s = n" "set s \<subseteq> set chars" by blast
  ultimately show ?case using c by (intro exI [of _ "c # s"] exI [of _ g']) (simp add: add_char_def algebra_simps)
qed simp

lemma add_class_spec:
  assumes "choice_law choice"
  shows "\<exists>s g'. add_class choice lg rq c (pw, todo, g) =
      (pw @ s, todo - of_nat (need rq c) * class_entropy lg c, g') \<and>
    length s = need rq c \<and> set s \<subseteq> set (class_chars c)"
proof (cases "required rq c")
  case None
  then show ?thesis by (simp add: add_class_def need_def)
next
  case (Some n)
  have "class_chars c \<noteq> []" using class_chars_length [of c] by auto
  from add_chars_spec [OF assms this] Some show ?thesis
    by (simp add: add_class_def need_def class_entropy_def)
qed

lemma fill_loop_spec:
  assumes law: "choice_law choice" and chars: "chars \<noteq> []" and e: "0 < e"
  shows "\<exists>s todo' g'. fill_loop choice chars e min_len (pw, todo, g) = Some (pw @ s, todo', g') \<and>
    todo' = todo - of_nat (length s) * e \<and> todo' \<le> 0 \<and> min_len \<le> int (length (pw @ s)) \<and> set s \<subseteq> set chars"
proof (induction "nat \<lceil>todo / e\<rceil> + nat (min_len - int (length pw))" arbitrary: pw todo g rule: less_induct)
  case less
  show ?case
  proof (cases "0 < todo \<or> int (length pw) < min_len")
    case False
    then have "fill_loop choice chars e min_len (pw, todo, g) = Some (pw, todo, g)"
      by (subst fill_loop.simps) simp
    then show ?thesis using False by (intro exI [of _ "[]"]) auto
  next
    case True
    obtain c g1 where c: "choice g chars = (c, g1)" by force
    then have mem: "c \<in> set chars" using law chars unfolding choice_law_def by (metis fst_conv)
    have div: "(todo - e) / e = todo / e - 1" using e by (simp add: field_simps)
    have "nat \<lceil>(todo - e) / e\<rceil> \<le> nat \<lceil>todo / e\<rceil>" unfolding div by (simp add: ceiling_diff_one)
    moreover have "nat \<lceil>(todo - e) / e\<rceil> < nat \<lceil>todo / e\<rceil>" if "0 < todo"
    proof -
      have "0 < \<lceil>todo / e\<rceil>" using that e by simp
      then show ?thesis unfolding div by simp
    qed
    moreover have "nat (min_len - int (length (pw @ [c]))) \<le> nat (min_len - int (length pw))"
      "int (length pw) < min_len \<Longrightarrow> nat (min_len - int (length (pw @ [c]))) < nat (min_len - int (length pw))"
      by simp_all
    ultimately have "nat \<lceil>(todo - e) / e\<rceil> + nat (min_len - int (length (pw @ [c])))
        < nat \<lceil>todo / e\<rceil> + nat (min_len - int (length pw))"
      using True by (meson add_le_less_mono add_less_le_mono)
    from less [OF this, of g1] obtain s todo' g' where
      s: "fill_loop choice chars e min_len (pw @ [c], todo - e, g1) = Some ((pw @ [c]) @ s, todo', g')"
      "todo' = todo - e - of_nat (length s) * e" "todo' \<le> 0" "min_len \<le> int (length ((pw @ [c]) @ s))" "set s \<subseteq> set chars"
      by blast
    have "fill_loop choice chars e min_len (pw, todo, g) = fill_loop choice chars e min_len (pw @ [c], todo - e, g1)"
      using True c by (subst fill_loop.simps) (simp add: add_char_def)
    then show ?thesis using s mem
      by (intro exI [of _ "c # s"] exI [of _ todo'] exI [of _ g']) (simp add: algebra_simps)
  qed
qed

lemma all_chars_set:
  "set (all_chars rq) = (\<Union>c\<in>{c. required rq c \<noteq> None}. set (class_chars c))"
proof -
  have "c \<in> set [Uppercase, Lowercase, Digits, Special]" for c by (cases c) simp_all
  then have "set [Uppercase, Lowercase, Digits, Special] = UNIV" by blast
  then show ?thesis unfolding all_chars_def set_concat set_map set_filter by auto
qed

lemma all_chars_length: "required rq c \<noteq> None \<Longrightarrow> 1 < length (all_chars rq)"
  by (cases c) (auto simp: all_chars_def class_chars_def)

text \<open>The required characters.\<close>

lemma required_part:
  assumes choice: "choice_law choice"
  shows "\<exists>ds us ls ss g'.
    fold (add_class choice lg rq) [Digits, Uppercase, Lowercase, Special] ([], bits, g) =
      (ds @ us @ ls @ ss, bits - of_nat (length ds) * class_entropy lg Digits - of_nat (length us) * class_entropy lg Uppercase -
        of_nat (length ls) * class_entropy lg Lowercase - of_nat (length ss) * class_entropy lg Special, g') \<and>
    length ds = need rq Digits \<and> set ds \<subseteq> set (class_chars Digits) \<and>
    length us = need rq Uppercase \<and> set us \<subseteq> set (class_chars Uppercase) \<and>
    length ls = need rq Lowercase \<and> set ls \<subseteq> set (class_chars Lowercase) \<and>
    length ss = need rq Special \<and> set ss \<subseteq> set (class_chars Special)"
proof -
  have add: "\<exists>s g'. add_class choice lg rq c (pw, todo, g) = (pw @ s, todo - of_nat (length s) * class_entropy lg c, g') \<and>
    length s = need rq c \<and> set s \<subseteq> set (class_chars c)" for c pw todo g
    using add_class_spec [OF choice, of lg rq c pw todo g] by (elim exE conjE) (intro exI conjI; simp)
  from add [of Digits "[]" bits g] obtain ds g1 where ds: "length ds = need rq Digits" "set ds \<subseteq> set (class_chars Digits)"
    "add_class choice lg rq Digits ([], bits, g) = (ds, bits - of_nat (length ds) * class_entropy lg Digits, g1)" (is "_ = (_, ?t1, _)")
    by auto
  from add [of Uppercase ds ?t1 g1] obtain us g2 where us: "length us = need rq Uppercase" "set us \<subseteq> set (class_chars Uppercase)"
    "add_class choice lg rq Uppercase (ds, ?t1, g1) = (ds @ us, ?t1 - of_nat (length us) * class_entropy lg Uppercase, g2)" (is "_ = (_, ?t2, _)")
    by auto
  from add [of Lowercase "ds @ us" ?t2 g2] obtain ls g3 where ls: "length ls = need rq Lowercase" "set ls \<subseteq> set (class_chars Lowercase)"
    "add_class choice lg rq Lowercase (ds @ us, ?t2, g2) = (ds @ us @ ls, ?t2 - of_nat (length ls) * class_entropy lg Lowercase, g3)" (is "_ = (_, ?t3, _)")
    by auto
  from add [of Special "ds @ us @ ls" ?t3 g3] obtain ss g4 where ss: "length ss = need rq Special" "set ss \<subseteq> set (class_chars Special)"
    "add_class choice lg rq Special (ds @ us @ ls, ?t3, g3) = (ds @ us @ ls @ ss, ?t3 - of_nat (length ss) * class_entropy lg Special, g4)"
    by auto
  show ?thesis
    by (rule exI [of _ ds], rule exI [of _ us], rule exI [of _ ls], rule exI [of _ ss], rule exI [of _ g4])
      (use ds us ls ss in simp)
qed

text \<open>C14: Whenever one class of characters is allowed, the generation of a password ends. The
  password starts with the required number of digits, upper-case, lower-case and special
  characters in this order, has only characters of allowed classes, is as long as asked for, and
  the choices that made it provide the entropy asked for.\<close>

theorem generated_password:
  assumes choice: "choice_law choice" and lg: "log_law lg" and allowed: "required rq c \<noteq> None"
  shows "\<exists>ds us ls ss rest g'.
    ipa_generate_password choice lg entropy_bits rq min_len g = Some (Inr (ds @ us @ ls @ ss @ rest, g')) \<and>
    length ds = need rq Digits \<and> set ds \<subseteq> set (class_chars Digits) \<and>
    length us = need rq Uppercase \<and> set us \<subseteq> set (class_chars Uppercase) \<and>
    length ls = need rq Lowercase \<and> set ls \<subseteq> set (class_chars Lowercase) \<and>
    length ss = need rq Special \<and> set ss \<subseteq> set (class_chars Special) \<and>
    set (ds @ us @ ls @ ss @ rest) \<subseteq> (\<Union>c\<in>{c. required rq c \<noteq> None}. set (class_chars c)) \<and>
    min_len \<le> int (length (ds @ us @ ls @ ss @ rest)) \<and>
    of_int entropy_bits \<le>
      of_nat (length ds) * class_entropy lg Digits + of_nat (length us) * class_entropy lg Uppercase +
      of_nat (length ls) * class_entropy lg Lowercase + of_nat (length ss) * class_entropy lg Special +
      of_nat (length rest) * lg (length (all_chars rq))"
proof -
  let ?bits = "of_int entropy_bits :: rat" and ?lga = "lg (length (all_chars rq))"
  have len: "1 < length (all_chars rq)" using allowed by (rule all_chars_length)
  then have ne: "all_chars rq \<noteq> []" and pos: "0 < ?lga" using lg by (auto simp: log_law_def)
  from required_part [OF choice, of lg rq ?bits g] obtain ds us ls ss g1 where
    st: "fold (add_class choice lg rq) [Digits, Uppercase, Lowercase, Special] ([], ?bits, g) =
      (ds @ us @ ls @ ss, ?bits - of_nat (length ds) * class_entropy lg Digits - of_nat (length us) * class_entropy lg Uppercase -
        of_nat (length ls) * class_entropy lg Lowercase - of_nat (length ss) * class_entropy lg Special, g1)" (is "_ = (_, ?todo, _)")
    and ds: "length ds = need rq Digits" "set ds \<subseteq> set (class_chars Digits)"
    and us: "length us = need rq Uppercase" "set us \<subseteq> set (class_chars Uppercase)"
    and ls: "length ls = need rq Lowercase" "set ls \<subseteq> set (class_chars Lowercase)"
    and ss: "length ss = need rq Special" "set ss \<subseteq> set (class_chars Special)" by blast
  from fill_loop_spec [OF choice ne pos, of min_len "ds @ us @ ls @ ss" ?todo g1] obtain rest todo' g2 where
    rest: "fill_loop choice (all_chars rq) ?lga min_len (ds @ us @ ls @ ss, ?todo, g1) = Some ((ds @ us @ ls @ ss) @ rest, todo', g2)"
    "todo' = ?todo - of_nat (length rest) * ?lga" "todo' \<le> 0"
    "min_len \<le> int (length ((ds @ us @ ls @ ss) @ rest))" "set rest \<subseteq> set (all_chars rq)" by blast
  have run: "ipa_generate_password choice lg entropy_bits rq min_len g = Some (Inr (ds @ us @ ls @ ss @ rest, g2))"
    using ne rest(1) unfolding ipa_generate_password_def math_log2_def st by simp
  have used: "set xs \<subseteq> (\<Union>c\<in>{c. required rq c \<noteq> None}. set (class_chars c))"
    if "length xs = need rq k" "set xs \<subseteq> set (class_chars k)" for xs k
    using that by (cases "required rq k") (auto simp: need_def)
  have "set (ds @ us @ ls @ ss @ rest) \<subseteq> (\<Union>c\<in>{c. required rq c \<noteq> None}. set (class_chars c))"
    using used [OF ds] used [OF us] used [OF ls] used [OF ss] rest(5) all_chars_set by simp
  moreover have "?bits \<le> of_nat (length ds) * class_entropy lg Digits + of_nat (length us) * class_entropy lg Uppercase +
      of_nat (length ls) * class_entropy lg Lowercase + of_nat (length ss) * class_entropy lg Special + of_nat (length rest) * ?lga"
    using rest(2,3) by linarith
  moreover have "min_len \<le> int (length (ds @ us @ ls @ ss @ rest))" using rest(4) by simp
  ultimately show ?thesis using run ds us ls ss
    by - (rule exI [of _ ds], rule exI [of _ us], rule exI [of _ ls], rule exI [of _ ss], rule exI [of _ rest],
      rule exI [of _ g2], intro conjI)
qed

definition sample_choice :: "nat \<Rightarrow> string \<Rightarrow> char \<times> nat" where
  "sample_choice g chars = (chars ! (g mod length chars), g + 1)"

definition sample_classes :: req_classes where
  "sample_classes = \<lparr>rq_uppercase = Some 1, rq_lowercase = Some 2, rq_digits = Some 1, rq_special = None\<rparr>"

lemma sample_choice_law: "choice_law sample_choice"
  by (simp add: choice_law_def sample_choice_def)

lemma sample_log_law: "log_law (\<lambda>n. of_nat (n - 1))"
  by (simp add: log_law_def)

theorem generated_password_witness:
  "\<exists>ds us ls ss rest g'.
    ipa_generate_password sample_choice (\<lambda>n. of_nat (n - 1)) 128 sample_classes 20 5 = Some (Inr (ds @ us @ ls @ ss @ rest, g')) \<and>
    length ds = 1 \<and> length ls = 2 \<and> ss = [] \<and> 20 \<le> length (ds @ us @ ls @ ss @ rest)"
proof -
  have allowed: "required sample_classes Digits \<noteq> None" by (simp add: required_def sample_classes_def)
  have need: "need sample_classes Digits = 1" "need sample_classes Lowercase = 2" "need sample_classes Special = 0"
    by (simp_all add: need_def required_def sample_classes_def)
  from generated_password [OF sample_choice_law sample_log_law allowed, of 128 20 5] obtain ds us ls ss rest g' where
    "ipa_generate_password sample_choice (\<lambda>n. of_nat (n - 1)) 128 sample_classes 20 5 = Some (Inr (ds @ us @ ls @ ss @ rest, g'))"
    "length ds = 1" "length ls = 2" "length ss = 0" "20 \<le> int (length (ds @ us @ ls @ ss @ rest))"
    unfolding need by blast
  then show ?thesis
    by - (rule exI [of _ ds], rule exI [of _ us], rule exI [of _ ls], rule exI [of _ ss], rule exI [of _ rest],
      rule exI [of _ g'], simp)
qed

end
