(* ===== verification/Server_Roles.thy ===== *)
theory Server_Roles
  imports Py_State
begin

text \<open>
  Server roles and server attributes, \<^verbatim>\<open>src/ipaserver/servroles.py\<close>. The LDAP backend is a
  parameter (record \<open>role_ldap\<close>): the searches the code makes, named by the services, server or
  value they ask for instead of by their base and filter, reading one service entry and writing it
  back. Of a service entry the code reads the master it is below (the second RDN of its DN), its
  name and the values of \<open>ipaConfigString\<close>.
\<close>

section \<open>Roles\<close>

record svc_entry =
  se_master :: string
  se_cn :: string
  se_config :: "string list"

record 's role_ldap =
  rl_services :: "string list \<Rightarrow> string option \<Rightarrow> 's \<Rightarrow> svc_entry list res"
  rl_masters :: "'s \<Rightarrow> string list res"
  rl_holders :: "string \<Rightarrow> string \<Rightarrow> 's \<Rightarrow> svc_entry list res"
  rl_get_entry :: "string \<Rightarrow> string \<Rightarrow> 's \<Rightarrow> svc_entry res"
  rl_update_entry :: "svc_entry \<Rightarrow> 's \<Rightarrow> unit res \<times> 's"

definition ENABLED_SERVICE :: string where
  "ENABLED_SERVICE = ''enabledService''"

definition HIDDEN_SERVICE :: string where
  "HIDDEN_SERVICE = ''hiddenService''"

datatype status_kind = ENABLED | CONFIGURED | HIDDEN | ABSENT

record role =
  ro_attr_name :: string
  ro_name :: string
  ro_services :: "string list"

text \<open>\<open>attr_name_hidden\<close>.\<close>

definition attr_name_hidden :: "string \<Rightarrow> string option" where
  "attr_name_hidden attr_name =
     (if is_suffix_of ''_server'' attr_name
      then Some (take (length attr_name - length ''_server'') attr_name @ ''_hidden_server'') else None)"

text \<open>A dictionary made by \<open>create_role_status_dict\<close>.\<close>

record status_row =
  sr_role :: string
  sr_server :: string
  sr_status :: status_kind

definition create_role_status_dict :: "role \<Rightarrow> string \<Rightarrow> status_kind \<Rightarrow> status_row" where
  "create_role_status_dict ro server st = \<lparr>sr_role = ro_name ro, sr_server = server, sr_status = st\<rparr>"

record service_info =
  sv_name :: string
  sv_enabled :: bool
  sv_hidden :: bool

definition is_service_enabled :: "svc_entry \<Rightarrow> bool" where
  "is_service_enabled e \<longleftrightarrow> ENABLED_SERVICE \<in> set (se_config e)"

definition is_service_hidden :: "svc_entry \<Rightarrow> bool" where
  "is_service_hidden e \<longleftrightarrow> HIDDEN_SERVICE \<in> set (se_config e)"

definition get_service :: "svc_entry \<Rightarrow> service_info" where
  "get_service e = \<lparr>sv_name = se_cn e, sv_enabled = is_service_enabled e, sv_hidden = is_service_hidden e\<rparr>"

definition add_service :: "svc_entry \<Rightarrow> (string \<times> service_info list) list \<Rightarrow> (string \<times> service_info list) list" where
  "add_service e d =
     AList.update (se_master e) ((case map_of d (se_master e) of None \<Rightarrow> [] | Some l \<Rightarrow> l) @ [get_service e]) d"

definition get_services_by_masters :: "svc_entry list \<Rightarrow> (string \<times> service_info list) list" where
  "get_services_by_masters entries = fold add_service entries []"

definition validate_component_services :: "role \<Rightarrow> service_info list \<Rightarrow> bool" where
  "validate_component_services ro services \<longleftrightarrow> sv_name ` set services = set (ro_services ro)"

definition services_status :: "service_info list \<Rightarrow> status_kind" where
  "services_status services =
     (if list_all sv_enabled services then ENABLED
      else if list_all sv_hidden services then HIDDEN
      else CONFIGURED)"

definition get_result_from_entries :: "role \<Rightarrow> svc_entry list \<Rightarrow> status_row list" where
  "get_result_from_entries ro entries =
     map (\<lambda>(master, services). create_role_status_dict ro master (services_status services))
       (filter (\<lambda>(master, services). validate_component_services ro services) (get_services_by_masters entries))"

definition fill_in_absent_masters ::
    "'s role_ldap \<Rightarrow> (string set \<Rightarrow> string list) \<Rightarrow> role \<Rightarrow> status_row list \<Rightarrow> 's \<Rightarrow> status_row list res" where
  "fill_in_absent_masters rl it ro result s =
     rbind (rl_masters rl s) (\<lambda>masters.
       Inr (map (\<lambda>m. create_role_status_dict ro m ABSENT) (it (set masters - sr_server ` set result))))"

definition is_empty_result :: "pyexc \<Rightarrow> bool" where
  "is_empty_result x = (case x of PublicError c _ \<Rightarrow> c = ''EmptyResult'' | _ \<Rightarrow> False)"

definition found_entries :: "svc_entry list res \<Rightarrow> svc_entry list res" where
  "found_entries r = (case r of Inl x \<Rightarrow> if is_empty_result x then Inr [] else Inl x | Inr l \<Rightarrow> Inr l)"

definition role_status ::
    "'s role_ldap \<Rightarrow> (string set \<Rightarrow> string list) \<Rightarrow> role \<Rightarrow> string option \<Rightarrow> 's \<Rightarrow> status_row list res" where
  "role_status rl it ro server s =
     rbind (found_entries (rl_services rl (ro_services ro) server s)) (\<lambda>entries.
       case server of
         Some m \<Rightarrow>
           if entries = [] then Inr [create_role_status_dict ro m ABSENT]
           else Inr (sort_key sr_server (get_result_from_entries ro entries))
       | None \<Rightarrow>
           let result = get_result_from_entries ro entries
           in rbind (fill_in_absent_masters rl it ro result s) (\<lambda>absent.
                Inr (sort_key sr_server (result @ absent))))"

section \<open>Attributes\<close>

record attribute =
  at_attr_name :: string
  at_name :: string
  at_role_name :: string
  at_service_name :: string
  at_value :: string

definition service_roles :: "role list" where
  "service_roles =
     [\<lparr>ro_attr_name = ''ad_trust_controller_server'', ro_name = ''AD trust controller'', ro_services = [''ADTRUST'']\<rparr>,
      \<lparr>ro_attr_name = ''ca_server_server'', ro_name = ''CA server'', ro_services = [''CA'']\<rparr>,
      \<lparr>ro_attr_name = ''dns_server_server'', ro_name = ''DNS server'', ro_services = [''DNS'', ''DNSKeySync'']\<rparr>,
      \<lparr>ro_attr_name = ''ipa_master_server'', ro_name = ''IPA master'', ro_services = [''HTTP'', ''KDC'', ''KPASSWD'']\<rparr>,
      \<lparr>ro_attr_name = ''kra_server_server'', ro_name = ''KRA server'', ro_services = [''KRA'']\<rparr>]"

definition associated_role :: "role list \<Rightarrow> attribute \<Rightarrow> role res" where
  "associated_role roles a =
     (case find (\<lambda>ro. at_role_name a = ro_attr_name ro) roles of
        None \<Rightarrow> Inl (RuntimeError ''NotImplementedError: no valid associated role found'')
      | Some ro \<Rightarrow> Inr ro)"

definition get_assoc_role_providers ::
    "'s role_ldap \<Rightarrow> (string set \<Rightarrow> string list) \<Rightarrow> role list \<Rightarrow> attribute \<Rightarrow> 's \<Rightarrow> string list res" where
  "get_assoc_role_providers rl it roles a s =
     rbind (associated_role roles a) (\<lambda>ro.
     rbind (role_status rl it ro None s) (\<lambda>rows.
       Inr (map sr_server (filter (\<lambda>r. sr_status r \<in> {ENABLED, HIDDEN, CONFIGURED}) rows))))"

definition attribute_get ::
    "'s role_ldap \<Rightarrow> (string set \<Rightarrow> string list) \<Rightarrow> role list \<Rightarrow> attribute \<Rightarrow> 's \<Rightarrow> string list res" where
  "attribute_get rl it roles a s =
     (case rl_holders rl (at_service_name a) (at_value a) s of
        Inl x \<Rightarrow> if is_empty_result x then Inr [] else Inl x
      | Inr entries \<Rightarrow>
          rbind (get_assoc_role_providers rl it roles a s) (\<lambda>providers.
            if set (map se_master entries) \<subseteq> set providers then Inr (sorted_list_of_set (set (map se_master entries)))
            else Inl (PublicError ''ValidationError'' (at_name a))))"

text \<open>The value list is changed while the loop runs over it.\<close>

function remove_values :: "string \<Rightarrow> nat \<Rightarrow> string list \<Rightarrow> string list" where
  "remove_values val i xs =
     (if i < length xs
      then remove_values val (Suc i) (if py_lower (xs ! i) = py_lower val then remove1 (xs ! i) xs else xs)
      else xs)"
  by auto
termination
  by (relation "measure (\<lambda>(val, i, xs). length xs - i)") (auto simp: length_remove1)

definition add_attribute_to_svc_entry :: "'s role_ldap \<Rightarrow> attribute \<Rightarrow> svc_entry \<Rightarrow> ('s, unit) act" where
  "add_attribute_to_svc_entry rl a e = rl_update_entry rl (e\<lparr>se_config := se_config e @ [at_value a]\<rparr>)"

definition remove_attribute_from_svc_entry :: "'s role_ldap \<Rightarrow> attribute \<Rightarrow> svc_entry \<Rightarrow> ('s, unit) act" where
  "remove_attribute_from_svc_entry rl a e =
     rl_update_entry rl (e\<lparr>se_config := remove_values (at_value a) 0 (se_config e)\<rparr>)"

definition masters_service_entries :: "'s role_ldap \<Rightarrow> attribute \<Rightarrow> string list \<Rightarrow> ('s, svc_entry list) act" where
  "masters_service_entries rl a masters =
     act_read (\<lambda>s. rmap (\<lambda>m. rl_get_entry rl m (at_service_name a) s) masters)"

definition attribute_remove :: "'s role_ldap \<Rightarrow> attribute \<Rightarrow> string list \<Rightarrow> ('s, unit) act" where
  "attribute_remove rl a masters =
     act_bind (masters_service_entries rl a masters) (\<lambda>es. act_seq (map (remove_attribute_from_svc_entry rl a) es))"

definition attribute_add :: "'s role_ldap \<Rightarrow> attribute \<Rightarrow> string list \<Rightarrow> ('s, unit) act" where
  "attribute_add rl a masters =
     act_bind (masters_service_entries rl a masters) (\<lambda>es. act_seq (map (add_attribute_to_svc_entry rl a) es))"

definition check_receiving_masters ::
    "'s role_ldap \<Rightarrow> (string set \<Rightarrow> string list) \<Rightarrow> role list \<Rightarrow> attribute \<Rightarrow> string list \<Rightarrow> ('s, unit) act" where
  "check_receiving_masters rl it roles a masters =
     act_read (\<lambda>s. rbind (get_assoc_role_providers rl it roles a s) (\<lambda>providers.
       let without = set masters - set providers
       in if without \<noteq> {} then Inl (PublicError ''ValidationError'' (py_join '', '' (sorted_list_of_set without)))
          else Inr ()))"

text \<open>\<open>get\<close> is the method of the class of the attribute.\<close>

definition attribute_set ::
    "('s \<Rightarrow> string list res) \<Rightarrow> 's role_ldap \<Rightarrow> (string set \<Rightarrow> string list) \<Rightarrow> role list \<Rightarrow> attribute \<Rightarrow> string list \<Rightarrow>
      ('s, unit) act" where
  "attribute_set get rl it roles a masters =
     act_bind (act_read get) (\<lambda>old_masters.
     if sort old_masters = sort masters then act_raise (PublicError ''EmptyModlist'' [])
     else
       act_bind (check_receiving_masters rl it roles a masters) (\<lambda>_.
       act_bind (if old_masters \<noteq> [] then attribute_remove rl a old_masters else act_ret ()) (\<lambda>_.
       attribute_add rl a masters)))"

definition single_get ::
    "'s role_ldap \<Rightarrow> (string set \<Rightarrow> string list) \<Rightarrow> role list \<Rightarrow> attribute \<Rightarrow> 's \<Rightarrow> string list res" where
  "single_get rl it roles a s =
     rbind (attribute_get rl it roles a s) (\<lambda>masters.
       if length masters > 1 then Inl (PublicError ''SingleMatchExpected'' []) else Inr masters)"

definition single_set ::
    "'s role_ldap \<Rightarrow> (string set \<Rightarrow> string list) \<Rightarrow> role list \<Rightarrow> attribute \<Rightarrow> string list \<Rightarrow> ('s, unit) act" where
  "single_set rl it roles a masters =
     (if length masters > 1 then act_raise (PublicError ''ValidationError'' (at_attr_name a))
      else attribute_set (single_get rl it roles a) rl it roles a masters)"

section \<open>What the directory promises\<close>

text \<open>
  The service entries of a state are a map from master and service to configuration values, which
  are distinct up to case; masters and services are named in one spelling throughout. A search
  whose base exists returns the entries that match, once each, and fails with \<open>EmptyResult\<close>
  when there is none. A search below a server that is not a master, under no spelling, fails with
  \<open>NotFound\<close>, since its base does not exist. An update that changes the values stores them.
\<close>

type_synonym services_db = "string \<times> string \<Rightarrow> string list option"

definition answers :: "services_db \<Rightarrow> (svc_entry \<Rightarrow> bool) \<Rightarrow> svc_entry list res \<Rightarrow> bool" where
  "answers db P r \<longleftrightarrow>
     (case r of
        Inl x \<Rightarrow> is_empty_result x \<and> (\<forall>e. db (se_master e, se_cn e) = Some (se_config e) \<longrightarrow> \<not> P e)
      | Inr l \<Rightarrow> distinct l \<and> (\<forall>e. e \<in> set l \<longleftrightarrow> db (se_master e, se_cn e) = Some (se_config e) \<and> P e))"

definition values_ok :: "string list \<Rightarrow> bool" where
  "values_ok l \<longleftrightarrow> distinct (map py_lower l)"

definition role_law :: "'s role_ldap \<Rightarrow> ('s \<Rightarrow> services_db) \<Rightarrow> ('s \<Rightarrow> string set) \<Rightarrow> bool" where
  "role_law rl db ms \<longleftrightarrow> (\<forall>s.
     finite (ms s) \<and> fst ` dom (db s) \<subseteq> ms s \<and> (\<forall>l\<in>ran (db s). values_ok l) \<and>
     (\<exists>l. rl_masters rl s = Inr l \<and> set l = ms s) \<and>
     (\<forall>svcs srv. set_option srv \<subseteq> ms s \<longrightarrow>
        answers (db s) (\<lambda>e. se_cn e \<in> set svcs \<and> (srv = None \<or> srv = Some (se_master e))) (rl_services rl svcs srv s)) \<and>
     (\<forall>svcs m. py_lower m \<notin> py_lower ` ms s \<longrightarrow>
        (\<exists>reason. rl_services rl svcs (Some m) s = Inl (PublicError ''NotFound'' reason))) \<and>
     (\<forall>svc val. answers (db s) (\<lambda>e. se_cn e = svc \<and> py_lower val \<in> py_lower ` set (se_config e)) (rl_holders rl svc val s)) \<and>
     (\<forall>m c l. db s (m, c) = Some l \<longrightarrow> rl_get_entry rl m c s = Inr \<lparr>se_master = m, se_cn = c, se_config = l\<rparr>) \<and>
     (\<forall>e l. db s (se_master e, se_cn e) = Some l \<longrightarrow> set (se_config e) \<noteq> set l \<longrightarrow> values_ok (se_config e) \<longrightarrow>
        (\<exists>s'. rl_update_entry rl e s = (Inr (), s') \<and>
           db s' = (db s)((se_master e, se_cn e) \<mapsto> se_config e) \<and> ms s' = ms s)))"

lemma role_lawD:
  assumes "role_law rl db ms"
  shows "finite (ms s)" "db s (m, c) = Some l \<Longrightarrow> m \<in> ms s" "db s (m, c) = Some l \<Longrightarrow> values_ok l"
    "\<exists>l. rl_masters rl s = Inr l \<and> set l = ms s"
    "set_option srv \<subseteq> ms s \<Longrightarrow>
      answers (db s) (\<lambda>e. se_cn e \<in> set svcs \<and> (srv = None \<or> srv = Some (se_master e))) (rl_services rl svcs srv s)"
    "answers (db s) (\<lambda>e. se_cn e = svc \<and> py_lower val \<in> py_lower ` set (se_config e)) (rl_holders rl svc val s)"
    "db s (m, c) = Some l \<Longrightarrow> rl_get_entry rl m c s = Inr \<lparr>se_master = m, se_cn = c, se_config = l\<rparr>"
    "db s (se_master e, se_cn e) = Some l \<Longrightarrow> set (se_config e) \<noteq> set l \<Longrightarrow> values_ok (se_config e) \<Longrightarrow>
        \<exists>s'. rl_update_entry rl e s = (Inr (), s') \<and> db s' = (db s)((se_master e, se_cn e) \<mapsto> se_config e) \<and> ms s' = ms s"
    "py_lower m \<notin> py_lower ` ms s \<Longrightarrow> \<exists>reason. rl_services rl svcs (Some m) s = Inl (PublicError ''NotFound'' reason)"
proof -
  note law = assms [unfolded role_law_def, THEN spec, of s]
  have dom: "fst ` dom (db s) \<subseteq> ms s" using law by (elim conjE)
  have ran: "\<forall>l\<in>ran (db s). values_ok l" using law by (elim conjE)
  show "m \<in> ms s" if "db s (m, c) = Some l" 
  proof -
    have "(m, c) \<in> dom (db s)" using that by (simp add: dom_def)
    then show ?thesis using dom by force
  qed
  show "values_ok l" if "db s (m, c) = Some l" 
  proof -
    have "l \<in> ran (db s)" using that by (auto simp: ran_def)
    then show ?thesis using ran by blast
  qed
  show "finite (ms s)" using law by (elim conjE)
  show "\<exists>l. rl_masters rl s = Inr l \<and> set l = ms s" using law by (elim conjE)
  have srch: "\<forall>svcs srv. set_option srv \<subseteq> ms s \<longrightarrow>
      answers (db s) (\<lambda>e. se_cn e \<in> set svcs \<and> (srv = None \<or> srv = Some (se_master e))) (rl_services rl svcs srv s)"
    using law by (elim conjE)
  show "answers (db s) (\<lambda>e. se_cn e \<in> set svcs \<and> (srv = None \<or> srv = Some (se_master e))) (rl_services rl svcs srv s)"
    if "set_option srv \<subseteq> ms s"
    using srch that by blast
  have nf: "\<forall>svcs m. py_lower m \<notin> py_lower ` ms s \<longrightarrow> (\<exists>reason. rl_services rl svcs (Some m) s = Inl (PublicError ''NotFound'' reason))"
    using law by (elim conjE)
  show "\<exists>reason. rl_services rl svcs (Some m) s = Inl (PublicError ''NotFound'' reason)" if "py_lower m \<notin> py_lower ` ms s"
    using nf that by blast
  show "answers (db s) (\<lambda>e. se_cn e = svc \<and> py_lower val \<in> py_lower ` set (se_config e)) (rl_holders rl svc val s)"
    using law by (elim conjE allE)
  have get: "\<forall>m c l. db s (m, c) = Some l \<longrightarrow> rl_get_entry rl m c s = Inr \<lparr>se_master = m, se_cn = c, se_config = l\<rparr>"
    using law by (elim conjE)
  show "rl_get_entry rl m c s = Inr \<lparr>se_master = m, se_cn = c, se_config = l\<rparr>" if "db s (m, c) = Some l"
    using get that by blast
  have upd: "\<forall>e l. db s (se_master e, se_cn e) = Some l \<longrightarrow> set (se_config e) \<noteq> set l \<longrightarrow> values_ok (se_config e) \<longrightarrow>
      (\<exists>s'. rl_update_entry rl e s = (Inr (), s') \<and> db s' = (db s)((se_master e, se_cn e) \<mapsto> se_config e) \<and> ms s' = ms s)"
    using law by (elim conjE)
  show "\<exists>s'. rl_update_entry rl e s = (Inr (), s') \<and> db s' = (db s)((se_master e, se_cn e) \<mapsto> se_config e) \<and> ms s' = ms s"
    if "db s (se_master e, se_cn e) = Some l" "set (se_config e) \<noteq> set l" "values_ok (se_config e)"
    using upd that by blast
qed

section \<open>The status of a role\<close>

definition role_state :: "services_db \<Rightarrow> role \<Rightarrow> string \<Rightarrow> status_kind" where
  "role_state db ro m =
     (if \<exists>c\<in>set (ro_services ro). db (m, c) = None then ABSENT
      else if \<forall>c\<in>set (ro_services ro). ENABLED_SERVICE \<in> set (the (db (m, c))) then ENABLED
      else if \<forall>c\<in>set (ro_services ro). HIDDEN_SERVICE \<in> set (the (db (m, c))) then HIDDEN
      else CONFIGURED)"

lemma services_by_masters_snoc:
  "get_services_by_masters (es @ [e]) = add_service e (get_services_by_masters es)"
  by (simp add: get_services_by_masters_def)

lemma services_by_masters_lookup:
  "map_of (get_services_by_masters es) m =
     (if \<exists>e\<in>set es. se_master e = m then Some (map get_service (filter (\<lambda>e. se_master e = m) es)) else None)"
proof (induction es rule: rev_induct)
  case Nil
  then show ?case by (simp add: get_services_by_masters_def)
next
  case (snoc e es)
  have none: "filter (\<lambda>e. se_master e = m) es = []" if "\<not> (\<exists>e\<in>set es. se_master e = m)"
    using that by (simp add: filter_empty_conv)
  show ?case
    using snoc none by (auto simp: services_by_masters_snoc add_service_def update_conv')
qed

lemma services_by_masters_distinct: "distinct (map fst (get_services_by_masters es))"
  by (induction es rule: rev_induct)
    (simp_all add: services_by_masters_snoc add_service_def distinct_update, simp add: get_services_by_masters_def)

lemma answers_found:
  assumes "answers db P r"
  shows "\<exists>l. found_entries r = Inr l \<and> distinct l \<and>
    (\<forall>e. e \<in> set l \<longleftrightarrow> db (se_master e, se_cn e) = Some (se_config e) \<and> P e)"
  using assms by (cases r) (auto simp: answers_def found_entries_def)

definition listing :: "services_db \<Rightarrow> string list \<Rightarrow> (string \<Rightarrow> bool) \<Rightarrow> svc_entry list \<Rightarrow> bool" where
  "listing db svcs Q es \<longleftrightarrow>
     (\<forall>e. e \<in> set es \<longleftrightarrow> db (se_master e, se_cn e) = Some (se_config e) \<and> se_cn e \<in> set svcs \<and> Q (se_master e))"

lemma listing_master:
  assumes "listing db svcs Q es" "Q m"
  shows "e \<in> set (filter (\<lambda>e. se_master e = m) es) \<longleftrightarrow>
    se_master e = m \<and> se_cn e \<in> set svcs \<and> db (m, se_cn e) = Some (se_config e)"
  using assms by (auto simp: listing_def)

lemma listing_names:
  assumes "listing db svcs Q es" "Q m"
  shows "sv_name ` set (map get_service (filter (\<lambda>e. se_master e = m) es)) = {c \<in> set svcs. db (m, c) \<noteq> None}"
proof (intro equalityI subsetI)
  fix c
  assume "c \<in> {c \<in> set svcs. db (m, c) \<noteq> None}"
  then obtain l where "c \<in> set svcs" "db (m, c) = Some l" by auto
  then have "\<lparr>se_master = m, se_cn = c, se_config = l\<rparr> \<in> set (filter (\<lambda>e. se_master e = m) es)"
    using listing_master [OF assms] by simp
  then show "c \<in> sv_name ` set (map get_service (filter (\<lambda>e. se_master e = m) es))"
    by (force simp: get_service_def)
next
  fix c
  assume "c \<in> sv_name ` set (map get_service (filter (\<lambda>e. se_master e = m) es))"
  then show "c \<in> {c \<in> set svcs. db (m, c) \<noteq> None}"
    using listing_master [OF assms] by (auto simp: get_service_def)
qed

lemma listing_all:
  assumes "listing db svcs Q es" "Q m" "\<forall>c\<in>set svcs. db (m, c) \<noteq> None"
  shows "list_all (\<lambda>e. P (se_config e)) (filter (\<lambda>e. se_master e = m) es) \<longleftrightarrow> (\<forall>c\<in>set svcs. P (the (db (m, c))))"
proof
  assume *: "list_all (\<lambda>e. P (se_config e)) (filter (\<lambda>e. se_master e = m) es)"
  show "\<forall>c\<in>set svcs. P (the (db (m, c)))"
  proof
    fix c
    assume c: "c \<in> set svcs"
    with assms(3) obtain l where l: "db (m, c) = Some l" by auto
    have "\<lparr>se_master = m, se_cn = c, se_config = l\<rparr> \<in> set (filter (\<lambda>e. se_master e = m) es)"
      using listing_master [OF assms(1,2)] c l by simp
    with * have "P (se_config \<lparr>se_master = m, se_cn = c, se_config = l\<rparr>)" unfolding list_all_iff by blast
    then show "P (the (db (m, c)))" using l by simp
  qed
next
  assume *: "\<forall>c\<in>set svcs. P (the (db (m, c)))"
  show "list_all (\<lambda>e. P (se_config e)) (filter (\<lambda>e. se_master e = m) es)"
    unfolding list_all_iff
  proof
    fix e
    assume "e \<in> set (filter (\<lambda>e. se_master e = m) es)"
    then have "se_cn e \<in> set svcs" "db (m, se_cn e) = Some (se_config e)" using listing_master [OF assms(1,2)] by blast+
    then show "P (se_config e)" using * by force
  qed
qed

lemma role_state_services:
  assumes l: "listing db (ro_services ro) Q es" and Q: "Q m" and all: "\<forall>c\<in>set (ro_services ro). db (m, c) \<noteq> None"
  shows "services_status (map get_service (filter (\<lambda>e. se_master e = m) es)) = role_state db ro m"
proof -
  let ?l = "filter (\<lambda>e. se_master e = m) es"
  have e: "list_all sv_enabled (map get_service ?l) \<longleftrightarrow> (\<forall>c\<in>set (ro_services ro). ENABLED_SERVICE \<in> set (the (db (m, c))))"
    using listing_all [OF l Q all, of "\<lambda>x. ENABLED_SERVICE \<in> set x"]
    by (simp add: list_all_iff get_service_def is_service_enabled_def)
  have h: "list_all sv_hidden (map get_service ?l) \<longleftrightarrow> (\<forall>c\<in>set (ro_services ro). HIDDEN_SERVICE \<in> set (the (db (m, c))))"
    using listing_all [OF l Q all, of "\<lambda>x. HIDDEN_SERVICE \<in> set x"]
    by (simp add: list_all_iff get_service_def is_service_hidden_def)
  have "\<not> (\<exists>c\<in>set (ro_services ro). db (m, c) = None)" using all by blast
  then show ?thesis unfolding services_status_def role_state_def e h by simp
qed

lemma role_state_ABSENT: "role_state db ro m = ABSENT \<longleftrightarrow> (\<exists>c\<in>set (ro_services ro). db (m, c) = None)"
  by (simp add: role_state_def)

lemma result_rows:
  assumes l: "listing db (ro_services ro) Q es" and ne: "ro_services ro \<noteq> []"
  shows "set (get_result_from_entries ro es) =
      {create_role_status_dict ro m (role_state db ro m) | m. Q m \<and> role_state db ro m \<noteq> ABSENT}"
    "distinct (map sr_server (get_result_from_entries ro es))"
proof -
  let ?d = "get_services_by_masters es" and ?l = "\<lambda>m. filter (\<lambda>e. se_master e = m) es"
  have mem: "(m, svs) \<in> set ?d \<longleftrightarrow> (\<exists>e\<in>set es. se_master e = m) \<and> svs = map get_service (?l m)" for m svs
    using map_of_eq_Some_iff [OF services_by_masters_distinct [of es], of m svs] services_by_masters_lookup [of es m]
    by (auto split: if_splits)
  have valid: "(\<exists>e\<in>set es. se_master e = m) \<and> validate_component_services ro (map get_service (?l m)) \<longleftrightarrow>
      Q m \<and> role_state db ro m \<noteq> ABSENT" for m
  proof (cases "Q m")
    case True
    have "validate_component_services ro (map get_service (?l m)) \<longleftrightarrow> role_state db ro m \<noteq> ABSENT"
      unfolding validate_component_services_def listing_names [OF l True] role_state_ABSENT by auto
    moreover have "\<exists>e\<in>set es. se_master e = m" if "role_state db ro m \<noteq> ABSENT"
    proof -
      from ne obtain c where c: "c \<in> set (ro_services ro)" by (cases "ro_services ro") auto
      with that obtain v where "db (m, c) = Some v" by (auto simp: role_state_ABSENT)
      then have "\<lparr>se_master = m, se_cn = c, se_config = v\<rparr> \<in> set es" using l True c by (simp add: listing_def)
      then show ?thesis by force
    qed
    ultimately show ?thesis using True by blast
  next
    case False
    then show ?thesis using l by (auto simp: listing_def)
  qed
  have status: "services_status (map get_service (?l m)) = role_state db ro m" if "Q m" "role_state db ro m \<noteq> ABSENT" for m
    using role_state_services [OF l that(1)] that(2) by (simp add: role_state_ABSENT)
  have "r \<in> set (get_result_from_entries ro es) \<longleftrightarrow>
      (\<exists>m. (m, map get_service (?l m)) \<in> set ?d \<and> validate_component_services ro (map get_service (?l m)) \<and>
        r = create_role_status_dict ro m (services_status (map get_service (?l m))))" for r
    unfolding get_result_from_entries_def using mem by (auto simp: image_iff)
  then show "set (get_result_from_entries ro es) =
      {create_role_status_dict ro m (role_state db ro m) | m. Q m \<and> role_state db ro m \<noteq> ABSENT}"
    using mem valid status by (auto, metis, metis)
  have "map sr_server (get_result_from_entries ro es) =
      map fst (filter (\<lambda>(master, services). validate_component_services ro services) ?d)"
    by (simp add: get_result_from_entries_def create_role_status_dict_def comp_def split_def)
  then show "distinct (map sr_server (get_result_from_entries ro es))"
    using services_by_masters_distinct by (simp add: distinct_map_filter)
qed

lemma found_listing:
  assumes "role_law rl db ms" "set_option srv \<subseteq> ms s"
  shows "\<exists>es. found_entries (rl_services rl svcs srv s) = Inr es \<and>
    listing (db s) svcs (\<lambda>m. srv = None \<or> srv = Some m) es"
  using answers_found [OF role_lawD(5) [OF assms, where svcs = svcs]]
  by (auto simp: listing_def)

lemma sort_rows:
  assumes "finite M" and servers: "\<And>m. sr_server (row m) = m"
    and rs: "set rs = row ` M" "distinct (map sr_server rs)"
  shows "sort_key sr_server rs = map row (sorted_list_of_set M)"
proof (rule map_sorted_distinct_set_unique [where f = sr_server])
  have "map sr_server (map row (sorted_list_of_set M)) = sorted_list_of_set M"
    using servers by (simp add: comp_def)
  then show "sorted (map sr_server (map row (sorted_list_of_set M)))"
    "distinct (map sr_server (map row (sorted_list_of_set M)))" by simp_all
  show "distinct (map sr_server (sort_key sr_server rs))" using rs(2) by (simp add: distinct_map)
  show "set (sort_key sr_server rs) = set (map row (sorted_list_of_set M))" using rs(1) assms(1) by simp
  show "inj_on sr_server (set (sort_key sr_server rs) \<union> set (map row (sorted_list_of_set M)))"
    using rs(1) assms(1) servers by (auto simp: inj_on_def)
qed simp

lemma role_status_topology:
  assumes law: "role_law rl db ms" and it: "set_iter_ok it" and ne: "ro_services ro \<noteq> []"
  shows "role_status rl it ro None s =
    Inr (map (\<lambda>m. create_role_status_dict ro m (role_state (db s) ro m)) (sorted_list_of_set (ms s)))"
proof -
  let ?row = "\<lambda>m. create_role_status_dict ro m (role_state (db s) ro m)"
  let ?on = "{m \<in> ms s. role_state (db s) ro m \<noteq> ABSENT}"
  have fin: "finite (ms s)" using role_lawD(1) [OF law] .
  have server: "sr_server (create_role_status_dict ro m x) = m" for m x by (simp add: create_role_status_dict_def)
  from found_listing [OF law, of None s "ro_services ro"] obtain es where
    es: "found_entries (rl_services rl (ro_services ro) None s) = Inr es" "listing (db s) (ro_services ro) (\<lambda>m. True) es"
    by auto
  have known: "m \<in> ms s" if "role_state (db s) ro m \<noteq> ABSENT" for m
  proof -
    from ne obtain c where "c \<in> set (ro_services ro)" by (cases "ro_services ro") auto
    with that obtain l where "db s (m, c) = Some l" by (auto simp: role_state_ABSENT)
    then show ?thesis by (rule role_lawD(2) [OF law])
  qed
  note rows = result_rows [OF es(2) ne]
  have on: "set (get_result_from_entries ro es) = ?row ` ?on" using rows(1) known by auto
  then have on_servers: "sr_server ` set (get_result_from_entries ro es) = ?on" using server by (auto simp: image_image)
  from role_lawD(4) [OF law] obtain masters where m: "rl_masters rl s = Inr masters" "set masters = ms s" by blast
  define off where "off = it (ms s - ?on)"
  have off: "set off = ms s - ?on" "distinct off" using it fin by (simp_all add: off_def set_iter_ok_def)
  define rs where "rs = get_result_from_entries ro es @ map (\<lambda>m. create_role_status_dict ro m ABSENT) off"
  have off_rows: "(\<lambda>m. create_role_status_dict ro m ABSENT) ` (ms s - ?on) = ?row ` (ms s - ?on)"
    by (rule image_cong) auto
  have "set rs = ?row ` ?on \<union> ?row ` (ms s - ?on)" unfolding rs_def set_append set_map on off(1) off_rows ..
  also have "\<dots> = ?row ` ms s" unfolding image_Un [symmetric] by (rule arg_cong [of _ _ "image ?row"]) blast
  finally have "set rs = ?row ` ms s" .
  moreover have "distinct (map sr_server rs)"
    unfolding rs_def using rows(2) off on_servers server by (auto simp: comp_def distinct_map inj_on_def)
  ultimately have "sort_key sr_server rs = map ?row (sorted_list_of_set (ms s))"
    using sort_rows [OF fin, of ?row rs] server by blast
  then show ?thesis
    using es(1) m on_servers by (simp add: role_status_def fill_in_absent_masters_def Let_def rs_def off_def)
qed

lemma role_status_server:
  assumes law: "role_law rl db ms" and ne: "ro_services ro \<noteq> []" and m: "m \<in> ms s"
  shows "role_status rl it ro (Some m) s =
    Inr (if \<forall>c\<in>set (ro_services ro). db s (m, c) = None then [create_role_status_dict ro m ABSENT]
         else if role_state (db s) ro m = ABSENT then []
         else [create_role_status_dict ro m (role_state (db s) ro m)])"
proof -
  from found_listing [OF law, of "Some m" s "ro_services ro"] m obtain es where
    es: "found_entries (rl_services rl (ro_services ro) (Some m) s) = Inr es"
    "listing (db s) (ro_services ro) (\<lambda>n. Some m = None \<or> Some m = Some n) es" by auto
  have "(\<lambda>n. Some m = None \<or> Some m = Some n) = (\<lambda>n. n = m)" by auto
  note es = es(1) es(2) [unfolded this]
  have empty: "es = [] \<longleftrightarrow> (\<forall>c\<in>set (ro_services ro). db s (m, c) = None)"
  proof
    assume "\<forall>c\<in>set (ro_services ro). db s (m, c) = None"
    then have "e \<notin> set es" for e using es(2) by (auto simp: listing_def)
    then show "es = []" by (cases es) auto
  next
    assume "es = []"
    show "\<forall>c\<in>set (ro_services ro). db s (m, c) = None"
    proof (intro ballI, rule ccontr)
      fix c
      assume "c \<in> set (ro_services ro)" "db s (m, c) \<noteq> None"
      then obtain l where "\<lparr>se_master = m, se_cn = c, se_config = l\<rparr> \<in> set es" using es(2) by (auto simp: listing_def)
      with \<open>es = []\<close> show False by simp
    qed
  qed
  note rows = result_rows [OF es(2) ne]
  define rs where "rs = get_result_from_entries ro es"
  have "sort_key sr_server rs = (if role_state (db s) ro m = ABSENT then [] else [create_role_status_dict ro m (role_state (db s) ro m)])"
  proof (cases "role_state (db s) ro m = ABSENT")
    case True
    then have "set rs = {}" using rows(1) by (auto simp: rs_def)
    then show ?thesis using True by simp
  next
    case False
    then have "set rs = {create_role_status_dict ro m (role_state (db s) ro m)}" using rows(1) by (auto simp: rs_def)
    moreover have "distinct rs" using rows(2) by (simp add: rs_def distinct_map)
    ultimately have "length rs = 1" using distinct_card [of rs] by simp
    then obtain r where "rs = [r]" by (auto simp: length_Suc_conv)
    with \<open>set rs = _\<close> show ?thesis using False by simp
  qed
  then show ?thesis using es(1) empty by (simp add: role_status_def rs_def)
qed

text \<open>\<open>NotFound\<close> is not caught.\<close>

lemma role_status_unknown:
  assumes "role_law rl db ms" and "py_lower m \<notin> py_lower ` ms s"
  shows "\<exists>reason. role_status rl it ro (Some m) s = Inl (PublicError ''NotFound'' reason)"
proof -
  obtain reason where "rl_services rl (ro_services ro) (Some m) s = Inl (PublicError ''NotFound'' reason)"
    using role_lawD(9) [OF assms] by blast
  then show ?thesis by (simp add: role_status_def found_entries_def is_empty_result_def)
qed

section \<open>Setting an attribute\<close>

declare remove_values.simps [simp del]

definition holds_value :: "string \<Rightarrow> string list \<Rightarrow> bool" where
  "holds_value val l \<longleftrightarrow> py_lower val \<in> py_lower ` set l"

definition drop_value :: "string \<Rightarrow> string list \<Rightarrow> string list" where
  "drop_value val l = filter (\<lambda>v. py_lower v \<noteq> py_lower val) l"

lemma drop_value_spec: "\<not> holds_value val (drop_value val l)" "set (drop_value val l) \<subseteq> set l"
  "values_ok l \<Longrightarrow> values_ok (drop_value val l)"
  by (auto simp: holds_value_def drop_value_def values_ok_def distinct_map_filter)

lemma remove_values_none: "\<not> holds_value val xs \<Longrightarrow> remove_values val i xs = xs"
proof (induction val i xs rule: remove_values.induct)
  case (1 val i xs)
  have "py_lower (xs ! i) \<noteq> py_lower val" if "i < length xs"
    using 1(2) nth_mem [OF that] unfolding holds_value_def by (metis imageI)
  then show ?case using 1 by (subst remove_values.simps) auto
qed

text \<open>Values that are distinct up to case are removed in spite of the loop over a changing list.\<close>

lemma remove_values_filter:
  "values_ok xs \<Longrightarrow> \<forall>j<i. j < length xs \<longrightarrow> py_lower (xs ! j) \<noteq> py_lower val \<Longrightarrow>
   remove_values val i xs = drop_value val xs"
proof (induction val i xs rule: remove_values.induct)
  case (1 val i xs)
  show ?case
  proof (cases "i < length xs")
    case False
    then have "drop_value val xs = xs" using 1(3) by (auto simp: drop_value_def filter_id_conv in_set_conv_nth)
    then show ?thesis using False by (simp add: remove_values.simps)
  next
    case True
    show ?thesis
    proof (cases "py_lower (xs ! i) = py_lower val")
      case match: True
      have dist: "distinct xs" "inj_on py_lower (set xs)" using 1(2) by (auto simp: values_ok_def distinct_map)
      have "remove1 (xs ! i) xs = drop_value val xs"
        unfolding distinct_remove1_removeAll [OF dist(1)] removeAll_filter_not_eq drop_value_def
        using match inj_on_eq_iff [OF dist(2) nth_mem [OF True]] by (intro filter_cong refl) fastforce
      then show ?thesis
        using True match remove_values_none [OF drop_value_spec(1)] by (subst remove_values.simps) simp
    next
      case False
      then have "remove_values val (Suc i) xs = drop_value val xs" using 1 True by (auto simp: less_Suc_eq)
      then show ?thesis using True False by (subst remove_values.simps) simp
    qed
  qed
qed

definition touch :: "string \<Rightarrow> string set \<Rightarrow> (string list \<Rightarrow> string list) \<Rightarrow> services_db \<Rightarrow> services_db" where
  "touch svc M f db = (\<lambda>(m, c). if c = svc \<and> m \<in> M then map_option f (db (m, c)) else db (m, c))"

lemma role_state_touch:
  assumes "\<And>l. ENABLED_SERVICE \<in> set (f l) \<longleftrightarrow> ENABLED_SERVICE \<in> set l"
    "\<And>l. HIDDEN_SERVICE \<in> set (f l) \<longleftrightarrow> HIDDEN_SERVICE \<in> set l"
  shows "role_state (touch svc M f db) ro m = role_state db ro m"
proof -
  have none: "touch svc M f db (m, c) = None \<longleftrightarrow> db (m, c) = None" for c by (auto simp: touch_def)
  have the: "db (m, c) \<noteq> None \<Longrightarrow> x \<in> set (the (touch svc M f db (m, c))) \<longleftrightarrow> x \<in> set (the (db (m, c)))"
    if "x = ENABLED_SERVICE \<or> x = HIDDEN_SERVICE" for c x using that assms by (auto simp: touch_def)
  show ?thesis unfolding role_state_def none using the by (simp cong: ball_cong)
qed

lemma update_entries:
  assumes law: "role_law rl db ms"
  shows "distinct M \<Longrightarrow>
    \<forall>m\<in>set M. \<exists>l. db s (m, svc) = Some l \<and> val m = l \<and> set (f l) \<noteq> set l \<and> values_ok (f l) \<Longrightarrow>
    \<exists>s'. act_seq (map (\<lambda>m. rl_update_entry rl \<lparr>se_master = m, se_cn = svc, se_config = f (val m)\<rparr>) M) s = (Inr (), s') \<and>
      db s' = touch svc (set M) f (db s) \<and> ms s' = ms s"
proof (induction M arbitrary: s)
  case Nil
  then show ?case by (simp add: touch_def act_ret_def)
next
  case (Cons m M)
  let ?e = "\<lparr>se_master = m, se_cn = svc, se_config = f (val m)\<rparr>"
  from Cons.prems obtain l where l: "db s (m, svc) = Some l" "val m = l" "set (f l) \<noteq> set l" "values_ok (f l)" by auto
  from role_lawD(8) [OF law, of s ?e l] l obtain s1 where
    s1: "rl_update_entry rl ?e s = (Inr (), s1)" "db s1 = (db s)((m, svc) \<mapsto> f l)" "ms s1 = ms s" by auto
  have "\<forall>n\<in>set M. \<exists>l. db s1 (n, svc) = Some l \<and> val n = l \<and> set (f l) \<noteq> set l \<and> values_ok (f l)"
    using Cons.prems s1(2) by auto
  with Cons.IH [of s1] Cons.prems(1) obtain s' where
    s': "act_seq (map (\<lambda>m. rl_update_entry rl \<lparr>se_master = m, se_cn = svc, se_config = f (val m)\<rparr>) M) s1 = (Inr (), s')"
    "db s' = touch svc (set M) f (db s1)" "ms s' = ms s1" by auto
  have "touch svc (set M) f (db s1) = touch svc (set (m # M)) f (db s)"
    using Cons.prems(1) l(1) s1(2) by (auto simp: touch_def fun_eq_iff)
  then show ?case using s1 s' by (simp add: act_bind_def)
qed

definition holders :: "services_db \<Rightarrow> attribute \<Rightarrow> string set" where
  "holders db a = {m. \<exists>l. db (m, at_service_name a) = Some l \<and> holds_value (at_value a) l}"

lemma providers:
  assumes law: "role_law rl db ms" and it: "set_iter_ok it" and ro: "associated_role roles a = Inr ro" "ro_services ro \<noteq> []"
  shows "\<exists>ps. get_assoc_role_providers rl it roles a s = Inr ps \<and> set ps = {m \<in> ms s. role_state (db s) ro m \<noteq> ABSENT}"
proof -
  let ?row = "\<lambda>m. create_role_status_dict ro m (role_state (db s) ro m)"
  let ?ps = "map sr_server (filter (\<lambda>r. sr_status r \<in> {ENABLED, HIDDEN, CONFIGURED}) (map ?row (sorted_list_of_set (ms s))))"
  have on: "x \<in> {ENABLED, HIDDEN, CONFIGURED} \<longleftrightarrow> x \<noteq> ABSENT" for x by (cases x) simp_all
  have row: "sr_server (?row m) = m" "sr_status (?row m) = role_state (db s) ro m" for m
    by (simp_all add: create_role_status_dict_def)
  have "?ps = filter (\<lambda>m. role_state (db s) ro m \<noteq> ABSENT) (sorted_list_of_set (ms s))"
    unfolding on filter_map comp_def map_map row by simp
  then have "set ?ps = {m \<in> ms s. role_state (db s) ro m \<noteq> ABSENT}" using role_lawD(1) [OF law, of s] by simp
  moreover have "get_assoc_role_providers rl it roles a s = Inr ?ps"
    unfolding get_assoc_role_providers_def ro(1) rbind_simps role_status_topology [OF law it ro(2), of s] ..
  ultimately show ?thesis by blast
qed

lemma attribute_get_holders:
  assumes law: "role_law rl db ms" and it: "set_iter_ok it" and ro: "associated_role roles a = Inr ro" "ro_services ro \<noteq> []"
  shows "attribute_get rl it roles a s =
    (if holders (db s) a \<subseteq> {m \<in> ms s. role_state (db s) ro m \<noteq> ABSENT} then Inr (sorted_list_of_set (holders (db s) a))
     else Inl (PublicError ''ValidationError'' (at_name a)))"
proof -
  from providers [OF assms, of s] obtain ps where
    ps: "get_assoc_role_providers rl it roles a s = Inr ps" "set ps = {m \<in> ms s. role_state (db s) ro m \<noteq> ABSENT}" by blast
  note ans = role_lawD(6) [OF law, where s = s and svc = "at_service_name a" and val = "at_value a", folded holds_value_def]
  show ?thesis
  proof (cases "rl_holders rl (at_service_name a) (at_value a) s")
    case (Inl x)
    note * = ans [unfolded answers_def Inl sum.case]
    have x: "is_empty_result x" using * by (rule conjunct1)
    note none = * [THEN conjunct2]
    have "\<not> holds_value (at_value a) l" if "db s (m, at_service_name a) = Some l" for m l
      using none [THEN spec, of "\<lparr>se_master = m, se_cn = at_service_name a, se_config = l\<rparr>"] that by simp
    then have "holders (db s) a = {}" by (auto simp: holders_def)
    then show ?thesis using Inl x by (simp add: attribute_get_def)
  next
    case (Inr es)
    have mem: "e \<in> set es \<longleftrightarrow> db s (se_master e, se_cn e) = Some (se_config e) \<and>
        se_cn e = at_service_name a \<and> holds_value (at_value a) (se_config e)" for e
      using ans Inr by (simp add: answers_def)
    have "se_master ` set es = holders (db s) a"
    proof (intro equalityI subsetI)
      fix m
      assume "m \<in> holders (db s) a"
      then obtain l where "db s (m, at_service_name a) = Some l" "holds_value (at_value a) l" by (auto simp: holders_def)
      then have "\<lparr>se_master = m, se_cn = at_service_name a, se_config = l\<rparr> \<in> set es" by (simp add: mem)
      then show "m \<in> se_master ` set es" by force
    qed (auto simp: holders_def mem)
    then show ?thesis using Inr ps by (simp add: attribute_get_def)
  qed
qed

lemma masters_entries:
  assumes law: "role_law rl db ms" and M: "\<forall>m\<in>set M. db s (m, at_service_name a) \<noteq> None"
  shows "masters_service_entries rl a M s =
    (Inr (map (\<lambda>m. \<lparr>se_master = m, se_cn = at_service_name a, se_config = the (db s (m, at_service_name a))\<rparr>) M), s)"
proof -
  have "rmap (\<lambda>m. rl_get_entry rl m (at_service_name a) s) M =
      Inr (map (\<lambda>m. \<lparr>se_master = m, se_cn = at_service_name a, se_config = the (db s (m, at_service_name a))\<rparr>) M)"
    using M
  proof (induction M)
    case (Cons m M)
    then obtain l where l: "db s (m, at_service_name a) = Some l" by auto
    show ?case using Cons role_lawD(7) [OF law l] l by simp
  qed simp
  then show ?thesis by (simp add: masters_service_entries_def act_read_def)
qed

lemma attribute_remove_touch:
  assumes law: "role_law rl db ms" and M: "distinct M" "set M \<subseteq> holders (db s) a"
  shows "\<exists>s'. attribute_remove rl a M s = (Inr (), s') \<and>
    db s' = touch (at_service_name a) (set M) (drop_value (at_value a)) (db s) \<and> ms s' = ms s"
proof -
  let ?v = "\<lambda>m. the (db s (m, at_service_name a))" and ?f = "drop_value (at_value a)"
  have held: "\<exists>l. db s (m, at_service_name a) = Some l \<and> ?v m = l \<and> set (?f l) \<noteq> set l \<and> values_ok (?f l)" if "m \<in> set M" for m
  proof -
    from that M(2) obtain l where l: "db s (m, at_service_name a) = Some l" "holds_value (at_value a) l"
      by (auto simp: holders_def)
    then have "set (?f l) \<noteq> set l" using drop_value_spec(1) [of "at_value a" l] by (auto simp: holds_value_def)
    then show ?thesis using l drop_value_spec(3) role_lawD(3) [OF law l(1)] by auto
  qed
  have all: "\<forall>m\<in>set M. db s (m, at_service_name a) \<noteq> None" using held by force
  have removed: "remove_values (at_value a) 0 (?v m) = ?f (?v m)" if "m \<in> set M" for m
    using held [OF that] role_lawD(3) [OF law] by (intro remove_values_filter) auto
  have "attribute_remove rl a M s =
      act_seq (map (\<lambda>m. rl_update_entry rl \<lparr>se_master = m, se_cn = at_service_name a, se_config = ?f (?v m)\<rparr>) M) s"
    using masters_entries [OF law all] removed
    by (simp add: attribute_remove_def act_bind_def remove_attribute_from_svc_entry_def comp_def cong: map_cong)
  then show ?thesis using update_entries [OF law M(1), of s "at_service_name a" ?v ?f] held by simp
qed

lemma attribute_add_touch:
  assumes law: "role_law rl db ms" and M: "distinct M" "set M \<inter> holders (db s) a = {}"
    "\<forall>m\<in>set M. db s (m, at_service_name a) \<noteq> None"
  shows "\<exists>s'. attribute_add rl a M s = (Inr (), s') \<and>
    db s' = touch (at_service_name a) (set M) (\<lambda>l. l @ [at_value a]) (db s) \<and> ms s' = ms s"
proof -
  let ?v = "\<lambda>m. the (db s (m, at_service_name a))" and ?f = "\<lambda>l. l @ [at_value a]"
  have free: "\<exists>l. db s (m, at_service_name a) = Some l \<and> ?v m = l \<and> set (?f l) \<noteq> set l \<and> values_ok (?f l)" if "m \<in> set M" for m
  proof -
    from that M(3) obtain l where l: "db s (m, at_service_name a) = Some l" by auto
    then have "\<not> holds_value (at_value a) l" using M(2) that by (auto simp: holders_def)
    then show ?thesis using l role_lawD(3) [OF law l] by (auto simp: holds_value_def values_ok_def)
  qed
  have "attribute_add rl a M s =
      act_seq (map (\<lambda>m. rl_update_entry rl \<lparr>se_master = m, se_cn = at_service_name a, se_config = ?f (?v m)\<rparr>) M) s"
    using masters_entries [OF law M(3)]
    by (simp add: attribute_add_def act_bind_def add_attribute_to_svc_entry_def comp_def)
  then show ?thesis using update_entries [OF law M(1), of s "at_service_name a" ?v ?f] free by simp
qed

text \<open>C24: The status of a role over the topology has one row for every master, ordered by
  name: absent when a component service has no entry on the master, enabled when all are enabled,
  else hidden when all are hidden, else configured. Asked for one master the code answers the
  same, except that a master with some but not all component services has no row at all. Asked
  for a server that is no master it raises \<open>NotFound\<close>: it does not report the role as absent.\<close>

theorem role_status_correct:
  assumes "role_law rl db ms" "set_iter_ok it" "ro_services ro \<noteq> []"
  shows "role_status rl it ro None s =
      Inr (map (\<lambda>m. create_role_status_dict ro m (role_state (db s) ro m)) (sorted_list_of_set (ms s))) \<and>
    (m \<in> ms s \<longrightarrow> role_status rl it ro (Some m) s =
      Inr (if \<forall>c\<in>set (ro_services ro). db s (m, c) = None then [create_role_status_dict ro m ABSENT]
           else if role_state (db s) ro m = ABSENT then []
           else [create_role_status_dict ro m (role_state (db s) ro m)])) \<and>
    (py_lower m \<notin> py_lower ` ms s \<longrightarrow>
      (\<exists>reason. role_status rl it ro (Some m) s = Inl (PublicError ''NotFound'' reason)))"
  using role_status_topology [OF assms] role_status_server [OF assms(1,3)] role_status_unknown [OF assms(1)]
  by blast

lemma holders_drop:
  "holders (touch (at_service_name a) (holders db a) (drop_value (at_value a)) db) a = {}"
  using drop_value_spec(1) [of "at_value a"] by (auto simp: holders_def touch_def split: if_splits)

lemma holders_add:
  assumes "holders db a = {}" "\<forall>m\<in>M. db (m, at_service_name a) \<noteq> None"
  shows "holders (touch (at_service_name a) M (\<lambda>l. l @ [at_value a]) db) a = M"
  using assms by (auto simp: holders_def touch_def holds_value_def split: if_splits)

text \<open>C23: Setting an attribute on masters that have its role and its service moves it there: the
  call succeeds, a read returns exactly these masters, the attribute is gone from all others, no
  role changes its status on any master and no other service entry is written.\<close>

theorem attribute_set_get:
  assumes law: "role_law rl db ms" and it: "set_iter_ok it" and ro: "associated_role roles a = Inr ro" "ro_services ro \<noteq> []"
    and v: "py_lower (at_value a) \<noteq> py_lower ENABLED_SERVICE" "py_lower (at_value a) \<noteq> py_lower HIDDEN_SERVICE"
    and old: "attribute_get rl it roles a s = Inr old" "sort old \<noteq> sort masters"
    and new: "distinct masters" "\<forall>m\<in>set masters. role_state (db s) ro m \<noteq> ABSENT"
      "\<forall>m\<in>set masters. db s (m, at_service_name a) \<noteq> None"
  shows "\<exists>s'. attribute_set (attribute_get rl it roles a) rl it roles a masters s = (Inr (), s') \<and>
    attribute_get rl it roles a s' = Inr (sort masters) \<and> holders (db s') a = set masters \<and>
    (\<forall>ro' m. role_state (db s') ro' m = role_state (db s) ro' m) \<and>
    (\<forall>m c. c \<noteq> at_service_name a \<longrightarrow> db s' (m, c) = db s (m, c))"
proof -
  let ?svc = "at_service_name a" and ?H = "holders (db s) a"
  let ?on = "{m \<in> ms s. role_state (db s) ro m \<noteq> ABSENT}"
  have known: "m \<in> ms s" if "db s (m, c) \<noteq> None" for m c using that role_lawD(2) [OF law] by auto
  have H: "finite ?H" using finite_subset [OF _ role_lawD(1) [OF law, of s], of ?H] known by (auto simp: holders_def)
  have get: "old = sorted_list_of_set ?H" using old(1) attribute_get_holders [OF law it ro, of s] by (auto split: if_splits)
  have old_set: "distinct old" "set old = ?H" using get H by simp_all
  from providers [OF law it ro, of s] obtain ps where
    ps: "get_assoc_role_providers rl it roles a s = Inr ps" "set ps = ?on" by blast
  have on: "set masters \<subseteq> ?on" using new(2,3) known by blast
  have check: "check_receiving_masters rl it roles a masters s = (Inr (), s)"
    using ps on by (simp add: check_receiving_masters_def act_read_def Let_def)
  obtain s1 where s1: "(if old \<noteq> [] then attribute_remove rl a old else act_ret ()) s = (Inr (), s1)"
    "db s1 = touch ?svc ?H (drop_value (at_value a)) (db s)" "ms s1 = ms s"
  proof (cases "old = []")
    case True
    then have "touch ?svc ?H (drop_value (at_value a)) (db s) = db s" using old_set by (auto simp: touch_def fun_eq_iff)
    then show thesis using that [of s] True by (simp add: act_ret_def)
  next
    case False
    then show thesis using that attribute_remove_touch [OF law, of old s a] old_set by auto
  qed
  have none: "holders (db s1) a = {}" unfolding s1(2) by (rule holders_drop)
  have present: "\<forall>m\<in>set masters. db s1 (m, ?svc) \<noteq> None" using new(3) unfolding s1(2) by (auto simp: touch_def)
  from attribute_add_touch [OF law new(1), of s1 a] none present obtain s2 where
    s2: "attribute_add rl a masters s1 = (Inr (), s2)" "db s2 = touch ?svc (set masters) (\<lambda>l. l @ [at_value a]) (db s1)"
    "ms s2 = ms s1" by auto
  have state: "role_state (db s2) ro' m = role_state (db s) ro' m" for ro' m
    unfolding s2(2) s1(2) using v by (intro trans [OF role_state_touch role_state_touch]) (auto simp: drop_value_def)
  have hold: "holders (db s2) a = set masters" unfolding s2(2) using none present by (rule holders_add)
  then have "attribute_get rl it roles a s2 = Inr (sort masters)"
    unfolding attribute_get_holders [OF law it ro] state s2(3) s1(3)
    using on new(1) by (simp add: sorted_list_of_set_sort_remdups distinct_remdups_id)
  moreover have "attribute_set (attribute_get rl it roles a) rl it roles a masters s = (Inr (), s2)"
    using old check s1(1) s2(1) by (simp add: attribute_set_def act_bind_def act_read_def)
  moreover have "db s2 (m, c) = db s (m, c)" if "c \<noteq> ?svc" for m c
    unfolding s2(2) s1(2) using that by (simp add: touch_def)
  ultimately show ?thesis using state hold by blast
qed

section \<open>A directory that keeps the promises\<close>

type_synonym svc_table = "((string \<times> string) \<times> string list) list"

definition table_db :: "svc_table \<Rightarrow> services_db" where
  "table_db s k = (case map_of s k of None \<Rightarrow> None | Some l \<Rightarrow> if values_ok l then Some l else None)"

definition table_entries :: "svc_table \<Rightarrow> svc_entry list" where
  "table_entries s =
     map (\<lambda>k. \<lparr>se_master = fst k, se_cn = snd k, se_config = the (table_db s k)\<rparr>)
       (filter (\<lambda>k. table_db s k \<noteq> None) (remdups (map fst s)))"

definition table_search :: "(svc_entry \<Rightarrow> bool) \<Rightarrow> svc_table \<Rightarrow> svc_entry list res" where
  "table_search P s =
     (case filter P (table_entries s) of [] \<Rightarrow> Inl (PublicError ''EmptyResult'' []) | es \<Rightarrow> Inr es)"

definition table_ldap :: "svc_table role_ldap" where
  "table_ldap =
     \<lparr>rl_services = (\<lambda>svcs srv s.
        if \<exists>m\<in>set_option srv. m \<notin> set (map (fst \<circ> fst) s) then Inl (PublicError ''NotFound'' ''no such entry'')
        else table_search (\<lambda>e. se_cn e \<in> set svcs \<and> (srv = None \<or> srv = Some (se_master e))) s),
      rl_masters = (\<lambda>s. Inr (map (fst \<circ> fst) s)),
      rl_holders = (\<lambda>svc val. table_search (\<lambda>e. se_cn e = svc \<and> py_lower val \<in> py_lower ` set (se_config e))),
      rl_get_entry = (\<lambda>m c s. case table_db s (m, c) of
          None \<Rightarrow> Inl (PublicError ''NotFound'' [])
        | Some l \<Rightarrow> Inr \<lparr>se_master = m, se_cn = c, se_config = l\<rparr>),
      rl_update_entry = (\<lambda>e s. (Inr (), AList.update (se_master e, se_cn e) (se_config e) s))\<rparr>"

lemma table_db_in: "table_db s k = Some l \<Longrightarrow> k \<in> set (map fst s) \<and> values_ok l"
  by (force simp: table_db_def dest: map_of_SomeD split: option.splits if_splits)

lemma table_entries_mem:
  "e \<in> set (table_entries s) \<longleftrightarrow> table_db s (se_master e, se_cn e) = Some (se_config e)" "distinct (table_entries s)"
proof -
  show "distinct (table_entries s)"
    unfolding table_entries_def by (simp add: distinct_map inj_on_def prod_eq_iff)
  show "e \<in> set (table_entries s) \<longleftrightarrow> table_db s (se_master e, se_cn e) = Some (se_config e)"
  proof
    assume "table_db s (se_master e, se_cn e) = Some (se_config e)"
    moreover from table_db_in [OF this] have "(se_master e, se_cn e) \<in> set (filter (\<lambda>k. table_db s k \<noteq> None) (remdups (map fst s)))"
      using calculation by simp
    ultimately show "e \<in> set (table_entries s)"
      unfolding table_entries_def set_map by (intro image_eqI [of _ _ "(se_master e, se_cn e)"]) simp_all
  qed (auto simp: table_entries_def)
qed

lemma table_search_answers: "answers (table_db s) P (table_search P s)"
proof (cases "filter P (table_entries s)")
  case Nil
  then have "\<forall>e. table_db s (se_master e, se_cn e) = Some (se_config e) \<longrightarrow> \<not> P e"
    using table_entries_mem(1) [of _ s] by (simp add: filter_empty_conv)
  then show ?thesis using Nil by (simp add: answers_def table_search_def is_empty_result_def)
next
  case (Cons e es)
  have "set (e # es) = {e \<in> set (table_entries s). P e}" "distinct (e # es)"
    using Cons table_entries_mem(2) [of s] by (metis set_filter, metis distinct_filter)
  then show ?thesis using Cons table_entries_mem(1) [of _ s]
    unfolding answers_def table_search_def by (simp only: list.case sum.case) blast
qed

lemma table_law: "role_law table_ldap table_db (\<lambda>s. set (map (fst \<circ> fst) s))"
  unfolding role_law_def
proof (intro allI conjI)
  fix s :: svc_table
  show "fst ` dom (table_db s) \<subseteq> set (map (fst \<circ> fst) s)" using table_db_in by force
  show "\<forall>l\<in>ran (table_db s). values_ok l" using table_db_in by (auto simp: ran_def)
  show "\<exists>l. rl_masters table_ldap s = Inr l \<and> set l = set (map (fst \<circ> fst) s)" by (simp add: table_ldap_def)
next
  fix s :: svc_table and e :: svc_entry and l
  show "table_db s (se_master e, se_cn e) = Some l \<longrightarrow> set (se_config e) \<noteq> set l \<longrightarrow> values_ok (se_config e) \<longrightarrow>
    (\<exists>s'. rl_update_entry table_ldap e s = (Inr (), s') \<and>
      table_db s' = (table_db s)((se_master e, se_cn e) \<mapsto> se_config e) \<and> set (map (fst \<circ> fst) s') = set (map (fst \<circ> fst) s))"
  proof (intro impI)
    assume l: "table_db s (se_master e, se_cn e) = Some l" and ok: "values_ok (se_config e)"
    let ?s = "AList.update (se_master e, se_cn e) (se_config e) s"
    have "(se_master e, se_cn e) \<in> set (map fst s)" using table_db_in [OF l] by blast
    then have keys: "map fst ?s = map fst s" by (simp add: update_keys)
    have "table_db ?s = (table_db s)((se_master e, se_cn e) \<mapsto> se_config e)"
      using ok by (auto simp: table_db_def update_conv' fun_eq_iff)
    moreover have "set (map (fst \<circ> fst) ?s) = set (map (fst \<circ> fst) s)" using keys by (metis list.map_comp)
    ultimately show "\<exists>s'. rl_update_entry table_ldap e s = (Inr (), s') \<and>
      table_db s' = (table_db s)((se_master e, se_cn e) \<mapsto> se_config e) \<and> set (map (fst \<circ> fst) s') = set (map (fst \<circ> fst) s)"
      by (simp add: table_ldap_def)
  qed
next
  fix s :: svc_table and svcs srv
  show "set_option srv \<subseteq> set (map (fst \<circ> fst) s) \<longrightarrow>
    answers (table_db s) (\<lambda>e. se_cn e \<in> set svcs \<and> (srv = None \<or> srv = Some (se_master e)))
      (rl_services table_ldap svcs srv s)"
    using table_search_answers by (auto simp: table_ldap_def)
next
  fix s :: svc_table and svcs m
  show "py_lower m \<notin> py_lower ` set (map (fst \<circ> fst) s) \<longrightarrow>
    (\<exists>reason. rl_services table_ldap svcs (Some m) s = Inl (PublicError ''NotFound'' reason))"
    by (auto simp: table_ldap_def)
qed (simp_all add: table_ldap_def table_search_answers)

definition ca_role :: role where
  "ca_role = \<lparr>ro_attr_name = ''ca_server_server'', ro_name = ''CA server'', ro_services = [''CA'']\<rparr>"

definition ca_renewal :: attribute where
  "ca_renewal = \<lparr>at_attr_name = ''ca_renewal_master_server'', at_name = ''CA renewal master'',
     at_role_name = ''ca_server_server'', at_service_name = ''CA'', at_value = ''caRenewalMaster''\<rparr>"

definition two_masters :: svc_table where
  "two_masters = [((''a'', ''CA''), [''enabledService'', ''caRenewalMaster'']), ((''b'', ''CA''), [''hiddenService''])]"

lemma two_masters_db: "table_db two_masters (''a'', ''CA'') = Some [''enabledService'', ''caRenewalMaster'']"
  "table_db two_masters (''b'', ''CA'') = Some [''hiddenService'']"
  "role_state (table_db two_masters) ca_role ''b'' = HIDDEN"
  by code_simp+

theorem role_status_correct_witness:
  "role_status table_ldap sorted_list_of_set ca_role (Some ''b'') two_masters =
     Inr [create_role_status_dict ca_role ''b'' HIDDEN] \<and>
   (\<exists>reason. role_status table_ldap sorted_list_of_set ca_role (Some ''x'') two_masters =
     Inl (PublicError ''NotFound'' reason))"
proof -
  have svcs: "ro_services ca_role = [''CA'']" by (simp add: ca_role_def)
  then have ne: "ro_services ca_role \<noteq> []" by simp
  have b: "''b'' \<in> set (map (fst \<circ> fst) two_masters)" by (simp add: two_masters_def)
  have x: "py_lower ''x'' \<notin> py_lower ` set (map (fst \<circ> fst) two_masters)" by code_simp
  note status = role_status_correct [OF table_law set_iter_ok_sorted ne, where s = two_masters, THEN conjunct2]
  have "role_status table_ldap sorted_list_of_set ca_role (Some ''b'') two_masters =
      Inr [create_role_status_dict ca_role ''b'' HIDDEN]"
    using status [THEN conjunct1, THEN mp, OF b] by (simp add: svcs two_masters_db(2,3))
  then show ?thesis using status [THEN conjunct2, THEN mp, OF x] by blast
qed

theorem attribute_set_get_witness:
  "\<exists>s'. attribute_set (attribute_get table_ldap sorted_list_of_set service_roles ca_renewal) table_ldap sorted_list_of_set
      service_roles ca_renewal [''b''] two_masters = (Inr (), s') \<and>
    attribute_get table_ldap sorted_list_of_set service_roles ca_renewal s' = Inr [''b'']"
proof -
  have ro: "associated_role service_roles ca_renewal = Inr ca_role" "ro_services ca_role \<noteq> []" by code_simp+
  have v: "py_lower (at_value ca_renewal) \<noteq> py_lower ENABLED_SERVICE" "py_lower (at_value ca_renewal) \<noteq> py_lower HIDDEN_SERVICE"
    by code_simp+
  have old: "attribute_get table_ldap sorted_list_of_set service_roles ca_renewal two_masters = Inr [''a'']" by code_simp
  have sort: "sort [''a''] \<noteq> sort [''b'']" by simp
  have state: "\<forall>m\<in>set [''b'']. role_state (table_db two_masters) ca_role m \<noteq> ABSENT" using two_masters_db(3) by simp
  have svc: "\<forall>m\<in>set [''b'']. table_db two_masters (m, at_service_name ca_renewal) \<noteq> None"
    using two_masters_db(2) by (simp add: ca_renewal_def)
  from attribute_set_get [OF table_law set_iter_ok_sorted ro v old sort _ state svc]
  show ?thesis by auto
qed

end
