(* ===== verification/Spec2Isabelle.thy ===== *)
theory Spec2Isabelle
  imports Topology Env_Config Parameters Cache_Coherence Conf_Merge Restore_State
    DNS_Records DNS_Resolver Passwords Server_Roles
begin

text \<open>
  Verification of the core libraries of FreeIPA, the identity management server: the Python
  packages \<^verbatim>\<open>src/ipalib\<close>, \<^verbatim>\<open>src/ipapython\<close> and parts of \<^verbatim>\<open>src/ipaserver\<close>.

  \<^bold>\<open>How the program is modelled.\<close> Python functions are HOL functions. A function that can raise
  returns \<open>'a res\<close>, the sum of an exception (\<open>pyexc\<close>) and a result; a loop that might not end
  returns an option on top of that, and the theorems then state that it does return. A method
  that changes its object is an action (\<open>('s, 'a) act\<close>, theory \<open>Py_State\<close>): it maps the state to
  the result or exception together with the state after it, so that a failed call keeps the
  changes made before it failed. Dictionaries that keep insertion order are association lists.
  Python's integers are \<open>int\<close>; strings are lists of characters with code points below 256, and
  \<open>lower\<close> is the lower-casing of the letters among them. The order of iteration over a \<open>set\<close> is a parameter
  under the law \<open>set_iter_ok\<close>. Exception messages keep the format strings of the source.
  Third-party code (python-ldap, OpenLDAP's DN parser, configparser, the schema of the directory
  server) appears as parameters; what the code relies on are named hypotheses, and each theorem
  with a hypothesis has a witness on a concrete instance.

  \<^bold>\<open>The theories.\<close>

  \<^item> \<open>Py_Prelude\<close>, \<open>Py_State\<close>: exceptions, results, strings, slices, set iteration; actions, the
    locale \<open>act_relation\<close> for relations every statement keeps, and which exceptions an action raises.

  \<^item> \<open>Py_Graph\<close>: class \<open>Graph\<close> of \<^verbatim>\<open>ipapython/graph.py\<close>. The mutators keep the graph well-formed,
    but for adding a vertex that is there and has edges; \<open>bfs\<close> returns and visits exactly the reachable vertices. \<open>Topology\<close>: \<^verbatim>\<open>ipaserver/topology.py\<close>,
    the connectivity checks built on it: they report exactly the unreachable masters, and the
    check before removing a master leaves the topology as it was.

  \<^item> \<open>DN_Names\<close>: \<open>AVA\<close>, \<open>RDN\<close> and \<open>DN\<close> of \<^verbatim>\<open>ipapython/dn.py\<close>. Comparison is the order of case-folded
    keys and agrees with the hash; prefix, suffix and search operations are characterised, with
    the inputs on which \<open>find\<close> and \<open>rfind\<close> differ from their description.

  \<^item> \<open>Kerberos_Principal\<close>: \<^verbatim>\<open>ipapython/kerberos.py\<close>, parsing, printing, order.

  \<^item> \<open>Base_NameSpace\<close>: \<open>ReadOnly\<close>, \<open>lock\<close>, \<open>check_name\<close> and \<open>NameSpace\<close> of \<^verbatim>\<open>ipalib/base.py\<close>.
    \<open>Env_Config\<close>: class \<open>Env\<close> of \<^verbatim>\<open>ipalib/config.py\<close>: variables are set once, the precedence of
    configuration sources, the phases of initialisation, the bounds of TLS versions.

  \<^item> \<open>Param_Values\<close>, \<open>Access_Time\<close>, \<open>Parameters\<close>: the values and classes of
    \<^verbatim>\<open>ipalib/parameters.py\<close>: a converted value is well-typed, and converted to itself unless it
    holds a null; integer ranges, parameter shorthands, which access times are accepted.

  \<^item> \<open>CI_Dict\<close>: \<open>CIDict\<close> of \<^verbatim>\<open>ipapython/ipautil.py\<close>, a refinement of a map on folded keys (locale
    \<open>folded_map\<close>). \<open>LDAP_Filters\<close>: the filters made by \<open>LDAPClient\<close> in \<^verbatim>\<open>ipapython/ipaldap.py\<close>
    denote the combination of conditions they are asked for. \<open>LDAP_Entry\<close>: class \<open>LDAPEntry\<close>,
    its two views and their synchronisation; every operation keeps the invariant \<open>entry_ok\<close>.
    \<open>LDAP_Modlist\<close>: the modification list, applied by the server, turns the old entry into the new.

  \<^item> \<open>LDAP_Client\<close>: the operations of \<open>LDAPClient\<close> over a connection that is a record of functions on
    a server state: error translation, paged search, reading and writing entries. A paged search
    against a server with the paged results control (\<open>paging_law\<close>) returns every entry; after
    \<open>update_entry\<close> the server agrees with the entry. \<open>LDAP_Cache\<close>, \<open>Cache_Coherence\<close>: class
    \<open>LDAPCache\<close> and its invariant \<open>coherent\<close>: reading an entry from it is reading it from the server,
    unless the entry changed in a step that does not name it; and it stays bounded.

  \<^item> \<open>Change_Conf\<close>, \<open>Conf_Files\<close>, \<open>Conf_Merge\<close>: the configuration file editor of
    \<^verbatim>\<open>ipapython/ipachangeconf.py\<close>. What is written is read back; a change of a section has the effect
    its actions name, if the section exists; a failed change leaves the file alone.

  \<^item> \<open>Sys_Restore\<close>, \<open>Restore_Files\<close>, \<open>Restore_State\<close>: backup and restore of files and system state,
    \<^verbatim>\<open>ipalib/sysrestore.py\<close>. The store directory represents a list of saved files and the state file a
    map, also for a process that starts later; what was saved is what is restored.

  \<^item> \<open>DNS_Records\<close>, \<open>DNS_Resolver\<close>: ordering of service records, settings of the stub resolver,
    automatic empty zones and zone checks of \<^verbatim>\<open>ipapython/dnsutil.py\<close>. Sorting ends and keeps every
    service once; the setter of name servers keeps ports in range.

  \<^item> \<open>Passwords\<close>: \<open>ipa_generate_password\<close> of \<^verbatim>\<open>ipapython/ipautil.py\<close> ends with a password of the
    required characters, length and entropy.

  \<^item> \<open>Server_Roles\<close>: roles of servers and the attributes they carry, \<^verbatim>\<open>ipaserver/servroles.py\<close>, over
    a directory given by the laws of its searches and updates: which status every master has, that
    a server that is no master is not found, and that setting an attribute moves it.

  \<^bold>\<open>Bounds.\<close> Loops that recurse on data are \<open>fun\<close>. The queue of \<open>bfs\<close> is a \<open>partial_function\<close>;
    it is proved to return on every well-formed graph. The loops of \<open>find_entries\<close> that wait for
    results of the server are \<open>partial_function\<close>s as well; they return when the server serves
    its entries page by page. So are the loops of \<open>_mix_weight\<close>, which end because every
    pass takes a record, and of \<open>ipa_generate_password\<close>, which end because every character has
    entropy. No fuel is used.

  \<^bold>\<open>Not modelled.\<close> The C code (KDC and directory server plug-ins, client tools), the web interface,
  the installers and their templates, the tests, generated client plug-ins and platform paths; the
  RPC layer, the plug-in loader and the management commands of the server; network and process
  access, and files beyond their contents, permissions and owners. Code points above 255, and
  objects shared by reference except where a theory says so.
\<close>

end
